(* ===== verification/Prelude.thy ===== *)
theory Prelude
  imports Main "HOL-Library.Word"
begin

unbundle bit_operations_syntax

text \<open>
  Shared vocabulary of the development: the machine integer types of the C++ sources,
  character buffers, bounded reads, and the arithmetic of power-of-two ring buffers whose
  free-running 64-bit counters may wrap around. The ring lemmas are shared by every queue
  of the collector (\<open>SPSCQueue\<close>, \<open>ShardQueue\<close>) and by the concurrent models.
\<close>

section \<open>Types\<close>

type_synonym u8 = "8 word"
type_synonym u16 = "16 word"
type_synonym u32 = "32 word"
type_synonym u64 = "64 word"

text \<open>A \<open>char[n]\<close> buffer is a list of characters of length \<open>n\<close>.\<close>
type_synonym char_array = "char list"

named_theorems ring_simps "rewriting of ring buffer contents"

section \<open>Character buffers\<close>

abbreviation NUL :: char where
  "NUL \<equiv> CHR 0x00"

text \<open>\<open>std::tolower\<close> in the C locale.\<close>
definition to_lower :: "char \<Rightarrow> char" where
  "to_lower c = (let n = of_char c :: nat in if 65 \<le> n \<and> n \<le> 90 then char_of (n + 32) else c)"

text \<open>\<open>std::string::find\<close> of a character; \<open>None\<close> is \<open>npos\<close>.\<close>
fun find_char :: "char \<Rightarrow> string \<Rightarrow> nat option" where
  "find_char c [] = None"
| "find_char c (d # s) = (if c = d then Some 0 else map_option Suc (find_char c s))"

lemma find_char_later: "c \<notin> set s \<Longrightarrow> find_char c (s @ rest) = map_option ((+) (length s)) (find_char c rest)"
  by (cases "find_char c rest"; induction s) simp_all

lemma find_char_at: "c \<notin> set s \<Longrightarrow> find_char c (s @ c # rest) = Some (length s)"
  by (simp add: find_char_later)

text \<open>The C string held by a character buffer: the characters before the first NUL.\<close>
definition c_str :: "char_array \<Rightarrow> string" where
  "c_str a = takeWhile (\<lambda>c. c \<noteq> NUL) a"

lemma c_str_Nil [simp]: "c_str [] = []"
  by (simp add: c_str_def)

lemma c_str_stops: "c_str (s @ NUL # rest) = c_str s"
  by (induction s) (simp_all add: c_str_def)

lemma NUL_notin_c_str [simp]: "NUL \<notin> set (c_str a)"
  by (auto simp: c_str_def dest: set_takeWhileD)

lemma c_str_id: "NUL \<notin> set s \<Longrightarrow> c_str s = s"
  by (auto simp: c_str_def takeWhile_eq_all_conv)

lemma c_str_append_NUL: "NUL \<notin> set s \<Longrightarrow> c_str (s @ NUL # rest) = s"
  by (simp add: c_str_stops c_str_id)

lemma c_str_update_NUL:
  "n < length xs \<Longrightarrow> c_str (xs[n := NUL]) = c_str (take n xs)"
  by (simp add: upd_conv_take_nth_drop c_str_stops)

section \<open>Ring buffers with free-running counters\<close>

lemma unat_add_of_nat_mod:
  fixes r :: u64
  assumes "k < 64"
  shows "unat (r + of_nat i) mod 2 ^ k = (unat r + i) mod 2 ^ k"
proof -
  have dv: "(2::nat) ^ k dvd 2 ^ 64"
    using assms by (intro le_imp_power_dvd) simp
  have "unat (r + of_nat i) = (unat r + i mod 2 ^ 64) mod 2 ^ 64"
    by (simp add: unat_word_ariths unat_of_nat)
  also have "\<dots> = (unat r + i) mod 2 ^ 64"
    by (simp add: mod_add_right_eq)
  finally show ?thesis
    using dv by (simp add: mod_mod_cancel)
qed

lemma word_mask_index:
  fixes w :: u64
  assumes "k < 64"
  shows "unat (w AND (2 ^ k - 1)) = unat w mod 2 ^ k"
proof -
  have "w AND (2 ^ k - 1) = take_bit k w"
    by (simp only: take_bit_eq_mask mask_eq_exp_minus_1)
  moreover have "unat (take_bit k w) = take_bit k (unat w)"
    by (rule unsigned_take_bit_eq)
  ultimately show ?thesis
    by (simp only: take_bit_eq_mod)
qed

text \<open>The \<open>n\<close> elements stored from position \<open>r\<close> on, in reading order.\<close>
definition ring_contents :: "'a list \<Rightarrow> u64 \<Rightarrow> nat \<Rightarrow> 'a list" where
  "ring_contents slots r n = map (\<lambda>i. slots ! (unat (r + of_nat i) mod length slots)) [0..<n]"

lemma length_ring_contents [simp]: "length (ring_contents slots r n) = n"
  by (simp add: ring_contents_def)

lemma ring_contents_0 [simp]: "ring_contents slots r 0 = []"
  by (simp add: ring_contents_def)

lemma ring_contents_Suc [ring_simps]:
  "ring_contents slots r (Suc n) =
     slots ! (unat r mod length slots) # ring_contents slots (r + 1) n"
proof -
  have "[0..<Suc n] = 0 # map Suc [0..<n]"
    by (simp add: map_Suc_upt upt_conv_Cons)
  then show ?thesis
    by (simp add: ring_contents_def comp_def add.assoc)
qed

lemma mod_neq_of_lt:
  fixes a i n L :: nat
  assumes "i < n" "n < L"
  shows "(a + i) mod L \<noteq> (a + n) mod L"
proof
  assume eq: "(a + i) mod L = (a + n) mod L"
  then have "L dvd (a + n) - (a + i)"
    using assms by (metis add_le_cancel_left mod_eq_dvd_iff_nat order_less_imp_le)
  then have "L dvd n - i" by simp
  with assms show False
    by (meson dvd_imp_le le_less_trans less_imp_diff_less not_le zero_less_diff)
qed

lemma window_mod_inj:
  fixes f p p' c :: nat
  assumes "f \<le> p" "p < f + c" "f \<le> p'" "p' < f + c"
  shows "p mod c = p' mod c \<longleftrightarrow> p = p'"
proof -
  have "a mod c \<noteq> b mod c" if "f \<le> a" "a < b" "b < f + c" for a b
    using mod_neq_of_lt [of "a - f" "b - f" c f] that by simp
  then show ?thesis using assms by (metis linorder_neqE_nat)
qed

lemma ring_contents_push [ring_simps]:
  assumes L: "length slots = 2 ^ k" "k < 64" and n: "n < length slots"
  shows "ring_contents (slots[unat (r + of_nat n) mod length slots := x]) r (Suc n)
           = ring_contents slots r n @ [x]"
proof -
  have idx: "unat (r + of_nat i) mod length slots = (unat r + i) mod length slots" for i
    using unat_add_of_nat_mod [OF L(2)] L(1) by simp
  have "slots[(unat r + n) mod length slots := x] ! ((unat r + i) mod length slots)
          = slots ! ((unat r + i) mod length slots)" if "i < n" for i
    using mod_neq_of_lt [OF that n, of "unat r"] by (simp add: nth_list_update_neq)
  moreover have "(unat r + n) mod length slots < length slots"
    using L(1) by simp
  ultimately show ?thesis
    by (simp add: ring_contents_def idx)
qed

text \<open>Overwriting the slot just consumed does not disturb the items behind it.\<close>

lemma ring_contents_clear_head [ring_simps]:
  assumes L: "length slots = 2 ^ k" "k < 64" and n: "n < length slots"
  shows "ring_contents (slots[unat r mod length slots := x]) (r + 1) n = ring_contents slots (r + 1) n"
proof -
  have "unat (r + 1 + of_nat i) mod length slots \<noteq> unat r mod length slots" if "i < n" for i
  proof -
    have "r + 1 + of_nat i = r + of_nat (Suc i)" by simp
    then have "unat (r + 1 + of_nat i) mod length slots = (unat r + Suc i) mod length slots"
      using unat_add_of_nat_mod [OF L(2), of r "Suc i"] L(1) by (simp only:)
    then show ?thesis
      using mod_neq_of_lt [of 0 "Suc i" "length slots" "unat r"] that n by simp
  qed
  then have "slots[unat r mod length slots := x] ! (unat (r + 1 + of_nat i) mod length slots)
      = slots ! (unat (r + 1 + of_nat i) mod length slots)" if "i < n" for i
    using that by (metis nth_list_update_neq)
  then show ?thesis by (simp add: ring_contents_def)
qed

section \<open>Bounded buffers\<close>

lemma nth_in_set_take: "i < n \<Longrightarrow> n \<le> length ls \<Longrightarrow> ls ! i \<in> set (take n ls)"
  using nth_mem [of i "take n ls"] by simp

lemma take_take_snoc:
  "length xs \<le> k \<Longrightarrow> take k (take k (xs @ [y]) @ zs) = take k (xs @ y # zs)"
  by (cases "length xs = k") auto

section \<open>Sorted association lists\<close>

lemma set_takeWhile_dropWhile: "set (takeWhile P ls) \<union> set (dropWhile P ls) = set ls"
  using arg_cong [OF takeWhile_dropWhile_id, of set P ls] by (simp only: set_append)

lemma length_takeWhile_dropWhile:
  "length (takeWhile P ls) + length (dropWhile P ls) = length ls"
  using arg_cong [OF takeWhile_dropWhile_id, of length P ls] by (simp only: length_append)

lemma sorted_wrt_mid_neq:
  fixes f :: "'a \<Rightarrow> 'b::linorder"
  shows "sorted_wrt (<) (map f (xs @ y # zs)) \<Longrightarrow> x \<in> set xs \<union> set zs \<Longrightarrow> f x \<noteq> f y"
  by (simp add: sorted_wrt_append) force

lemma sorted_wrt_insert:
  fixes f :: "'a \<Rightarrow> 'b::linorder"
  assumes "sorted_wrt (<) (map f ls)" "f x \<notin> f ` set ls"
  shows "sorted_wrt (<) (map f (takeWhile (\<lambda>l. f l < f x) ls @ x # dropWhile (\<lambda>l. f l < f x) ls))"
  using assms
proof (induction ls)
  case (Cons a ls)
  let ?new = "takeWhile (\<lambda>l. f l < f x) ls @ x # dropWhile (\<lambda>l. f l < f x) ls"
  have "set ?new = insert x (set ls)"
    using set_takeWhile_dropWhile [of "\<lambda>l. f l < f x" ls] by simp
  moreover have "sorted_wrt (<) (map f ?new)"
    using Cons by simp
  ultimately have "sorted_wrt (<) (map f (a # ?new))" if "f a < f x"
    using that Cons(2) by (simp only: list.map sorted_wrt.simps set_map) auto
  moreover have "sorted_wrt (<) (map f (x # a # ls))" if "\<not> f a < f x"
    using that Cons(2,3) by fastforce
  ultimately show ?case by (cases "f a < f x") simp_all
qed simp

lemma map_add_delete_mid:
  "k \<notin> dom m \<Longrightarrow> k \<notin> dom n \<Longrightarrow> (m(k \<mapsto> v) ++ n)(k := None) = m ++ n"
  by (rule ext) (simp add: map_add_def domIff split: option.split)

end
