(* ===== verification/Ieee_Double.thy ===== *)
theory Ieee_Double
  imports Prelude
begin

text \<open>
  The C++ \<open>double\<close> of the sources as an IEEE 754 binary64 bit pattern. Prices and quantities
  are only compared, copied and converted from integers on the modelled paths, so the
  theory provides exact comparisons (unordered on NaN, \<open>-0.0 == 0.0\<close>) and the
  round-to-nearest-even conversion performed by \<open>static_cast<double>(long long)\<close>.
\<close>

section \<open>Bit patterns and comparisons\<close>

type_synonym double = "64 word"

definition d_sign :: "double \<Rightarrow> bool" where
  "d_sign x = (2 ^ 63 \<le> uint x)"

definition d_mag :: "double \<Rightarrow> int" where
  "d_mag x = (if 2 ^ 63 \<le> uint x then uint x - 2 ^ 63 else uint x)"

definition d_inf_mag :: int where
  "d_inf_mag = 2047 * 2 ^ 52"

definition is_nan :: "double \<Rightarrow> bool" where
  "is_nan x = (d_inf_mag < d_mag x)"

text \<open>Signed magnitude: orders every non-NaN pattern as IEEE 754 does.\<close>
definition d_key :: "double \<Rightarrow> int" where
  "d_key x = (if d_sign x then - d_mag x else d_mag x)"

definition d_eq :: "double \<Rightarrow> double \<Rightarrow> bool" where
  "d_eq x y = (\<not> is_nan x \<and> \<not> is_nan y \<and> d_key x = d_key y)"

definition d_lt :: "double \<Rightarrow> double \<Rightarrow> bool" where
  "d_lt x y = (\<not> is_nan x \<and> \<not> is_nan y \<and> d_key x < d_key y)"

definition d_le :: "double \<Rightarrow> double \<Rightarrow> bool" where
  "d_le x y = (\<not> is_nan x \<and> \<not> is_nan y \<and> d_key x \<le> d_key y)"

abbreviation d_zero :: double where
  "d_zero \<equiv> 0"

section \<open>Conversion from integers\<close>

function bit_len :: "int \<Rightarrow> nat" where
  "bit_len n = (if n \<le> 0 then 0 else Suc (bit_len (n div 2)))"
  by pat_completeness auto
termination by (relation "measure nat") auto

declare bit_len.simps [simp del]

text \<open>\<open>n / 2 ^ k\<close> rounded to the nearest integer, ties to even.\<close>
definition round_shift :: "int \<Rightarrow> nat \<Rightarrow> int" where
  "round_shift n k =
     (let q = n div 2 ^ k; r = n mod 2 ^ k in
      if 2 * r < 2 ^ k \<or> (2 * r = 2 ^ k \<and> even q) then q else q + 1)"

text \<open>
  Magnitude bits of a non-negative integer of at most 64 bits: a significand of 53 bits
  (\<open>2^52 \<le> m \<le> 2^53\<close>; a carry to \<open>2^53\<close> moves into the exponent field by the addition).
\<close>
definition mag_of_int :: "int \<Rightarrow> int" where
  "mag_of_int n =
     (let b = bit_len n in
      if n = 0 then 0
      else if b \<le> 53 then (int b + 1021) * 2 ^ 52 + n * 2 ^ (53 - b)
      else (int b + 1021) * 2 ^ 52 + round_shift n (b - 53))"

definition double_of_int :: "int \<Rightarrow> double" where
  "double_of_int i =
     (if i < 0 then word_of_int (2 ^ 63 + mag_of_int (- i)) else word_of_int (mag_of_int i))"

section \<open>Order properties\<close>

lemma d_key_zero [simp]: "d_key d_zero = 0"
  by (simp add: d_key_def d_mag_def)

lemma not_is_nan_zero [simp]: "\<not> is_nan d_zero"
  by (simp add: is_nan_def d_mag_def d_inf_mag_def)

lemma d_eq_refl [simp]: "d_eq x x \<longleftrightarrow> \<not> is_nan x"
  by (auto simp: d_eq_def)

lemma d_eq_sym: "d_eq x y \<longleftrightarrow> d_eq y x"
  by (auto simp: d_eq_def)

lemma d_le_iff_not_lt:
  "\<not> is_nan x \<Longrightarrow> \<not> is_nan y \<Longrightarrow> d_le x y \<longleftrightarrow> \<not> d_lt y x"
  by (auto simp: d_le_def d_lt_def)

section \<open>Rounding never loses the sign of an integer\<close>

lemma bit_len_upper: "n < 2 ^ bit_len n"
proof (induction n rule: bit_len.induct)
  case (1 n)
  show ?case
  proof (cases "n \<le> 0")
    case True
    then show ?thesis by (simp add: bit_len.simps)
  next
    case False
    then have "n div 2 < 2 ^ bit_len (n div 2)" using 1 by blast
    then show ?thesis using False by (subst bit_len.simps) simp
  qed
qed

lemma bit_len_le: "n < 2 ^ k \<Longrightarrow> bit_len n \<le> k"
proof (induction k arbitrary: n)
  case 0
  then show ?case by (simp add: bit_len.simps)
next
  case (Suc k)
  then have "bit_len (n div 2) \<le> k" by simp
  then show ?case by (subst bit_len.simps) simp
qed

lemma round_shift_bounds:
  assumes "0 \<le> n" "n < 2 ^ (k + m)"
  shows "0 \<le> round_shift n k" "round_shift n k \<le> 2 ^ m"
proof -
  have "n div 2 ^ k < 2 ^ m"
  proof (rule ccontr)
    assume "\<not> n div 2 ^ k < 2 ^ m"
    then have "2 ^ m * 2 ^ k \<le> n div 2 ^ k * 2 ^ k" by simp
    also have "\<dots> \<le> n" by (simp add: minus_mod_eq_div_mult [symmetric])
    finally show False using assms by (simp add: power_add mult.commute)
  qed
  then show "round_shift n k \<le> 2 ^ m" by (simp add: round_shift_def Let_def)
  show "0 \<le> round_shift n k"
    using assms by (simp add: round_shift_def Let_def pos_imp_zdiv_nonneg_iff)
qed

lemma mag_of_int_bounds:
  assumes "0 < n" "n < 2 ^ 64"
  shows "0 < mag_of_int n" "mag_of_int n < d_inf_mag"
proof -
  let ?b = "bit_len n"
  have b: "?b \<le> 64" using assms(2) by (rule bit_len_le)
  have sig: "0 \<le> s \<and> s \<le> 2 ^ 53 \<Longrightarrow>
      0 < (int ?b + 1021) * 2 ^ 52 + s \<and> (int ?b + 1021) * 2 ^ 52 + s < d_inf_mag" for s
    using b by (simp add: d_inf_mag_def)
  show "0 < mag_of_int n" "mag_of_int n < d_inf_mag"
  proof (atomize (full), cases "?b \<le> 53")
    case True
    have "n * 2 ^ (53 - ?b) \<le> 2 ^ ?b * 2 ^ (53 - ?b)"
      using bit_len_upper [of n] by simp
    also have "\<dots> = 2 ^ 53" using True by (simp add: power_add [symmetric])
    finally show "0 < mag_of_int n \<and> mag_of_int n < d_inf_mag"
      using sig [of "n * 2 ^ (53 - ?b)"] assms True by (simp add: mag_of_int_def Let_def)
  next
    case False
    have "n < 2 ^ (?b - 53 + 53)" using bit_len_upper [of n] False by simp
    then show "0 < mag_of_int n \<and> mag_of_int n < d_inf_mag"
      using sig [of "round_shift n (?b - 53)"] round_shift_bounds [of n "?b - 53" 53] assms False
      by (simp add: mag_of_int_def Let_def)
  qed
qed

lemma d_key_double_of_int:
  assumes "\<bar>i\<bar> < 2 ^ 64"
  shows "d_key (double_of_int i) = sgn i * mag_of_int \<bar>i\<bar>"
    and "\<not> is_nan (double_of_int i)"
proof -
  have m: "0 \<le> mag_of_int \<bar>i\<bar>" "mag_of_int \<bar>i\<bar> < d_inf_mag"
    using mag_of_int_bounds [of "\<bar>i\<bar>"] assms
    by (cases "i = 0"; simp add: mag_of_int_def d_inf_mag_def)+
  then have s: "mag_of_int \<bar>i\<bar> < 2 ^ 63" by (simp add: d_inf_mag_def)
  have w: "uint (word_of_int v :: double) = v" if "0 \<le> v" "v < 2 ^ 64" for v
    using that by (simp add: uint_word_of_int)
  have u: "uint (double_of_int i) = (if i < 0 then 2 ^ 63 + mag_of_int \<bar>i\<bar> else mag_of_int \<bar>i\<bar>)"
    using w [of "mag_of_int \<bar>i\<bar>"] w [of "2 ^ 63 + mag_of_int \<bar>i\<bar>"] m s
    by (cases "i < 0") (simp_all add: double_of_int_def del: wi_hom_add of_int_add)
  show "d_key (double_of_int i) = sgn i * mag_of_int \<bar>i\<bar>"
    using u m(1) s by (auto simp: d_key_def d_mag_def d_sign_def sgn_if mag_of_int_def)
  show "\<not> is_nan (double_of_int i)"
    using u m s by (auto simp: is_nan_def d_mag_def)
qed

lemma double_of_int_pos:
  assumes "\<bar>i\<bar> < 2 ^ 64"
  shows "d_lt d_zero (double_of_int i) \<longleftrightarrow> 0 < i"
    and "d_le (double_of_int i) d_zero \<longleftrightarrow> i \<le> 0"
  using d_key_double_of_int [OF assms] mag_of_int_bounds(1) [of "\<bar>i\<bar>"] assms
  by (auto simp: d_lt_def d_le_def sgn_if mag_of_int_def)

end
