(* ===== verification/Events.thy ===== *)
theory Events
  imports Ieee_Double
begin

text \<open>
  The plain data that flows through the collector (\<open>src/common/tick_data.h\<close>,
  \<open>src/common/storage_envelope.h\<close>, \<open>src/orderbook/orderbook_event.h\<close>,
  \<open>src/exchange/exchange_adapter.h\<close>) and the routines that fill their fixed-size symbol
  buffers. Counters of at most 100 levels are naturals; the invariants of the producers
  show that bound. Padding members carry no information and are left out of the records.
\<close>

section \<open>Data\<close>

definition kMaxOrderbookLevels :: nat where
  "kMaxOrderbookLevels = 100"

record PriceLevel =
  lvl_price :: double
  lvl_quantity :: double

record TickData =
  tick_exchange_timestamp :: u64
  tick_local_diff :: u64
  tick_trade_id :: u64
  tick_price :: double
  tick_quantity :: double
  tick_channel_id :: u32
  tick_symbol :: char_array
  tick_is_buyer_maker :: bool

record StorageTickEnvelope =
  env_data :: TickData
  env_storage_target :: u32
  env_recovery_status :: u32

record DepthUpdateEvent =
  dep_last_update_id :: u64
  dep_channel_id :: u32
  dep_exchange_timestamp :: u64
  dep_local_diff :: u64
  dep_symbol :: char_array
  dep_bids :: "PriceLevel list"
  dep_asks :: "PriceLevel list"
  dep_bid_count :: nat
  dep_ask_count :: nat

record BookTickerEvent =
  bt_channel_id :: u32
  bt_exchange_timestamp :: u64
  bt_local_diff :: u64
  bt_symbol :: char_array
  bt_best_bid_price :: double
  bt_best_bid_qty :: double
  bt_best_ask_price :: double
  bt_best_ask_qty :: double

datatype ParsedType = PT_NONE | PT_TICK | PT_DEPTH | PT_BOOK_TICKER

datatype EventType = ET_UNKNOWN | ET_TICK | ET_DEPTH | ET_BOOK_TICKER

datatype ChannelType = Spot | Perpetual | Futures

record ParseResult =
  pr_type :: ParsedType
  pr_tick :: TickData
  pr_depth :: DepthUpdateEvent
  pr_book_ticker :: BookTickerEvent

text \<open>Value-initialised objects (\<open>T{}\<close>).\<close>

definition level_zero :: PriceLevel where
  "level_zero = \<lparr>lvl_price = d_zero, lvl_quantity = d_zero\<rparr>"

definition symbol_zero :: char_array where
  "symbol_zero = replicate 12 NUL"

definition tick_zero :: TickData where
  "tick_zero = \<lparr>tick_exchange_timestamp = 0, tick_local_diff = 0, tick_trade_id = 0,
     tick_price = d_zero, tick_quantity = d_zero, tick_channel_id = 0,
     tick_symbol = symbol_zero, tick_is_buyer_maker = False\<rparr>"

definition depth_zero :: DepthUpdateEvent where
  "depth_zero = \<lparr>dep_last_update_id = 0, dep_channel_id = 0, dep_exchange_timestamp = 0,
     dep_local_diff = 0, dep_symbol = symbol_zero,
     dep_bids = replicate kMaxOrderbookLevels level_zero,
     dep_asks = replicate kMaxOrderbookLevels level_zero,
     dep_bid_count = 0, dep_ask_count = 0\<rparr>"

definition book_ticker_zero :: BookTickerEvent where
  "book_ticker_zero = \<lparr>bt_channel_id = 0, bt_exchange_timestamp = 0, bt_local_diff = 0,
     bt_symbol = symbol_zero, bt_best_bid_price = d_zero, bt_best_bid_qty = d_zero,
     bt_best_ask_price = d_zero, bt_best_ask_qty = d_zero\<rparr>"

definition parse_result_zero :: ParseResult where
  "parse_result_zero = \<lparr>pr_type = PT_NONE, pr_tick = tick_zero, pr_depth = depth_zero,
     pr_book_ticker = book_ticker_zero\<rparr>"

section \<open>Channel types\<close>

text \<open>\<open>Inl\<close> carries the text of the \<open>std::invalid_argument\<close> thrown.\<close>
definition ParseChannelType :: "string \<Rightarrow> string + ChannelType" where
  "ParseChannelType s =
     (if s = ''spot'' then Inr Spot
      else if s = ''perpetual'' then Inr Perpetual
      else if s = ''futures'' then Inr Futures
      else Inl (''unknown channel_type: '' @ s))"

fun ChannelTypeName :: "ChannelType \<Rightarrow> string" where
  "ChannelTypeName Spot = ''spot''"
| "ChannelTypeName Perpetual = ''perpetual''"
| "ChannelTypeName Futures = ''futures''"

section \<open>Symbol buffers\<close>

text \<open>
  \<open>CopySymbol\<close> of \<open>src/common/string_utils.h\<close>: copies into \<open>dst[0..dst_size-1]\<close> and
  reports truncation. Bytes behind the terminator keep their old values.
\<close>
definition CopySymbol :: "char_array \<Rightarrow> nat \<Rightarrow> string \<Rightarrow> bool \<times> char_array" where
  "CopySymbol dst dst_size src =
     (let truncated = (dst_size \<le> length src);
          len = (if truncated then dst_size - 1 else length src)
      in (truncated, take len src @ NUL # drop (Suc len) dst))"

definition kSymbolFieldBytes :: nat where
  "kSymbolFieldBytes = 32"

text \<open>
  \<open>record_layout::CopySymbol\<close>: copies the whole source buffer (of capacity \<open>src_size\<close>) into
  the 32-byte field of a binary record.
\<close>
definition CopySymbol_record :: "char_array \<Rightarrow> char_array \<Rightarrow> nat \<Rightarrow> char_array" where
  "CopySymbol_record dst src src_size =
     (let n = (if src_size < kSymbolFieldBytes then src_size else kSymbolFieldBytes);
          dst1 = take n src @ drop n dst
      in if n < kSymbolFieldBytes then dst1[n := NUL] else dst1[kSymbolFieldBytes - 1 := NUL])"

section \<open>Properties\<close>

lemma PriceLevel_eta [simp]:
  "\<lparr>lvl_price = lvl_price u, lvl_quantity = lvl_quantity u\<rparr> = (u :: PriceLevel)"
  by (cases u) simp

lemma ParseChannelType_name: "ParseChannelType (ChannelTypeName t) = Inr t"
  by (cases t) (auto simp: ParseChannelType_def)

lemma ParseChannelType_Inr: "ParseChannelType s = Inr t \<longleftrightarrow> s = ChannelTypeName t"
  by (cases t) (auto simp: ParseChannelType_def)

lemma ChannelTypeName_inj: "ChannelTypeName a = ChannelTypeName b \<longleftrightarrow> a = b"
  by (cases a; cases b) auto

lemma CopySymbol_length:
  "length dst = dst_size \<Longrightarrow> 0 < dst_size \<Longrightarrow> length (snd (CopySymbol dst dst_size src)) = dst_size"
  by (auto simp: CopySymbol_def Let_def)

lemma CopySymbol_c_str:
  "NUL \<notin> set src \<Longrightarrow> c_str (snd (CopySymbol dst dst_size src)) = take (dst_size - 1) src"
  by (auto simp: CopySymbol_def Let_def c_str_stops dest: in_set_takeD intro!: c_str_id)

lemma CopySymbol_flag: "fst (CopySymbol dst dst_size src) \<longleftrightarrow> dst_size \<le> length src"
  by (simp add: CopySymbol_def Let_def)

lemma CopySymbol_record_length:
  "length dst = kSymbolFieldBytes \<Longrightarrow> length src = src_size \<Longrightarrow>
   length (CopySymbol_record dst src src_size) = kSymbolFieldBytes"
  by (auto simp: CopySymbol_record_def Let_def)

lemma CopySymbol_record_c_str:
  assumes "length dst = kSymbolFieldBytes" "length src = src_size" "src_size < kSymbolFieldBytes"
  shows "c_str (CopySymbol_record dst src src_size) = c_str src"
  using assms c_str_update_NUL [of src_size "src @ drop src_size dst"]
  by (simp add: CopySymbol_record_def Let_def)

end
