(* ===== verification/Order_Book.thy ===== *)
theory Order_Book
  imports Events
begin

text \<open>
  The per-symbol order book of the Rithmic gateway
  (\<open>src/rithmic_gateway/rithmic_orderbook.h\<close>). The two sides are fixed arrays of 100 levels
  with a count, updated in place by linear scans and shifting loops; the loops are modelled
  one array assignment at a time. The lemmas show that the loops implement a pure update of
  the list of live levels (\<open>level_update\<close>), that this update keeps each side strictly sorted
  and positive, that it is insertion, update or deletion in the finite map from price to
  quantity, and that a committed batch applies exactly the buffered updates.
\<close>

section \<open>State\<close>

record RithmicOrderBook =
  ob_bids :: "PriceLevel list"
  ob_asks :: "PriceLevel list"
  ob_bid_count :: nat
  ob_ask_count :: nat
  ob_pending_bids :: "PriceLevel list"
  ob_pending_asks :: "PriceLevel list"
  ob_pending_bid_count :: nat
  ob_pending_ask_count :: nat
  ob_batch_active :: bool
  ob_channel_id :: u32
  ob_symbol :: char_array
  ob_lock :: bool

definition book_zero :: RithmicOrderBook where
  "book_zero = \<lparr>
     ob_bids = replicate kMaxOrderbookLevels level_zero,
     ob_asks = replicate kMaxOrderbookLevels level_zero,
     ob_bid_count = 0, ob_ask_count = 0,
     ob_pending_bids = replicate kMaxOrderbookLevels level_zero,
     ob_pending_asks = replicate kMaxOrderbookLevels level_zero,
     ob_pending_bid_count = 0, ob_pending_ask_count = 0,
     ob_batch_active = False, ob_channel_id = 0, ob_symbol = symbol_zero, ob_lock = False\<rparr>"

section \<open>Identity and lock\<close>

text \<open>
  The character loop of \<open>Init\<close> and \<open>SnapshotTo\<close>: reads the source until NUL or 11
  characters. Reading past the end of the source buffer is undefined behaviour: \<open>None\<close>.
\<close>
function copy_symbol_loop :: "char list \<Rightarrow> char_array \<Rightarrow> nat \<Rightarrow> char_array option" where
  "copy_symbol_loop src dst n =
     (if n < 11 then
        (if n < length src then
           (if src ! n \<noteq> NUL then copy_symbol_loop src (dst[n := src ! n]) (Suc n)
            else Some (dst[n := NUL]))
         else None)
      else Some (dst[n := NUL]))"
  by pat_completeness auto
termination by (relation "measure (\<lambda>(_, _, n). 11 - n)") auto

declare copy_symbol_loop.simps [simp del]

definition Init :: "u32 \<Rightarrow> char list \<Rightarrow> RithmicOrderBook \<Rightarrow> RithmicOrderBook option" where
  "Init channel_id symbol b =
     map_option (\<lambda>s. b\<lparr>ob_channel_id := channel_id, ob_symbol := s\<rparr>)
       (copy_symbol_loop symbol (ob_symbol b) 0)"

text \<open>One \<open>test_and_set\<close> of the spinlock: \<open>None\<close> while another thread holds it.\<close>
definition Lock :: "RithmicOrderBook \<Rightarrow> RithmicOrderBook option" where
  "Lock b = (if ob_lock b then None else Some (b\<lparr>ob_lock := True\<rparr>))"

definition Unlock :: "RithmicOrderBook \<Rightarrow> RithmicOrderBook" where
  "Unlock b = b\<lparr>ob_lock := False\<rparr>"

section \<open>Loops over one side\<close>

text \<open>\<open>ApplyImage\<close>'s loop: \<open>i\<close> runs over the arrays, \<open>n\<close> counts the levels stored.\<close>
fun image_loop :: "(double \<times> int) list \<Rightarrow> PriceLevel list \<Rightarrow> nat \<Rightarrow> PriceLevel list \<times> nat" where
  "image_loop [] levels n = (levels, n)"
| "image_loop ((p, sz) # rest) levels n =
     (if n < kMaxOrderbookLevels then
        (if 0 < sz
         then image_loop rest (levels[n := \<lparr>lvl_price = p, lvl_quantity = double_of_int sz\<rparr>]) (Suc n)
         else image_loop rest levels n)
      else (levels, n))"

function find_price :: "PriceLevel list \<Rightarrow> nat \<Rightarrow> double \<Rightarrow> nat \<Rightarrow> nat" where
  "find_price levels n price pos =
     (if pos < n \<and> \<not> d_eq (lvl_price (levels ! pos)) price
      then find_price levels n price (Suc pos) else pos)"
  by pat_completeness auto
termination by (relation "measure (\<lambda>(_, n, _, pos). n - pos)") auto

function shift_left :: "PriceLevel list \<Rightarrow> nat \<Rightarrow> nat \<Rightarrow> PriceLevel list" where
  "shift_left levels j n =
     (if Suc j < n then shift_left (levels[j := levels ! Suc j]) (Suc j) n else levels)"
  by pat_completeness auto
termination by (relation "measure (\<lambda>(_, j, n). n - j)") auto

text \<open>The scan condition: an ask with a lower price, or a bid with a higher one, comes first.\<close>
definition comes_before :: "bool \<Rightarrow> double \<Rightarrow> PriceLevel \<Rightarrow> bool" where
  "comes_before is_ask price l =
     (if is_ask then d_lt (lvl_price l) price else d_lt price (lvl_price l))"

function find_insert :: "bool \<Rightarrow> PriceLevel list \<Rightarrow> nat \<Rightarrow> double \<Rightarrow> nat \<Rightarrow> nat" where
  "find_insert is_ask levels n price pos =
     (if pos < n \<and> comes_before is_ask price (levels ! pos)
      then find_insert is_ask levels n price (Suc pos) else pos)"
  by pat_completeness auto
termination by (relation "measure (\<lambda>(_, _, n, _, pos). n - pos)") auto

function shift_right :: "PriceLevel list \<Rightarrow> nat \<Rightarrow> nat \<Rightarrow> PriceLevel list" where
  "shift_right levels j insert_pos =
     (if insert_pos < j then shift_right (levels[j := levels ! (j - 1)]) (j - 1) insert_pos
      else levels)"
  by pat_completeness auto
termination by (relation "measure (\<lambda>(_, j, _). j)") auto

declare find_price.simps [simp del] shift_left.simps [simp del]
  find_insert.simps [simp del] shift_right.simps [simp del]

text \<open>The body of \<open>ApplyLevel\<close> on the selected side.\<close>
definition apply_level_side ::
  "bool \<Rightarrow> double \<Rightarrow> double \<Rightarrow> PriceLevel list \<times> nat \<Rightarrow> PriceLevel list \<times> nat" where
  "apply_level_side is_ask price qty = (\<lambda>(levels, n).
     let pos = find_price levels n price 0 in
     if pos < n then
       (if d_lt d_zero qty
        then (levels[pos := (levels ! pos)\<lparr>lvl_quantity := qty\<rparr>], n)
        else (shift_left levels pos n, n - 1))
     else if d_le qty d_zero then (levels, n)
     else if kMaxOrderbookLevels \<le> n then (levels, n)
     else
       (let insert_pos = find_insert is_ask levels n price 0;
            levels' = shift_right levels n insert_pos
        in (levels'[insert_pos := \<lparr>lvl_price = price, lvl_quantity = qty\<rparr>], Suc n)))"

section \<open>Operations\<close>

definition get_side :: "bool \<Rightarrow> RithmicOrderBook \<Rightarrow> PriceLevel list \<times> nat" where
  "get_side is_ask b =
     (if is_ask then (ob_asks b, ob_ask_count b) else (ob_bids b, ob_bid_count b))"

definition set_side :: "bool \<Rightarrow> PriceLevel list \<times> nat \<Rightarrow> RithmicOrderBook \<Rightarrow> RithmicOrderBook" where
  "set_side is_ask s b =
     (if is_ask then b\<lparr>ob_asks := fst s, ob_ask_count := snd s\<rparr>
      else b\<lparr>ob_bids := fst s, ob_bid_count := snd s\<rparr>)"

definition ApplyImage :: "(double \<times> int) list \<Rightarrow> bool \<Rightarrow> RithmicOrderBook \<Rightarrow> RithmicOrderBook" where
  "ApplyImage quotes is_ask b =
     set_side is_ask (image_loop quotes (fst (get_side is_ask b)) 0) b"

definition ApplyLevel :: "double \<Rightarrow> double \<Rightarrow> bool \<Rightarrow> RithmicOrderBook \<Rightarrow> RithmicOrderBook" where
  "ApplyLevel price qty is_ask b =
     set_side is_ask (apply_level_side is_ask price qty (get_side is_ask b)) b"

definition BeginBatch :: "RithmicOrderBook \<Rightarrow> RithmicOrderBook" where
  "BeginBatch b =
     b\<lparr>ob_pending_bid_count := 0, ob_pending_ask_count := 0, ob_batch_active := True\<rparr>"

definition BufferLevel :: "double \<Rightarrow> double \<Rightarrow> bool \<Rightarrow> RithmicOrderBook \<Rightarrow> RithmicOrderBook" where
  "BufferLevel price qty is_ask b =
     (let lvl = \<lparr>lvl_price = price, lvl_quantity = qty\<rparr> in
      if is_ask then
        (if kMaxOrderbookLevels \<le> ob_pending_ask_count b then b
         else b\<lparr>ob_pending_asks := (ob_pending_asks b)[ob_pending_ask_count b := lvl],
                ob_pending_ask_count := Suc (ob_pending_ask_count b)\<rparr>)
      else
        (if kMaxOrderbookLevels \<le> ob_pending_bid_count b then b
         else b\<lparr>ob_pending_bids := (ob_pending_bids b)[ob_pending_bid_count b := lvl],
                ob_pending_bid_count := Suc (ob_pending_bid_count b)\<rparr>))"

function commit_loop :: "bool \<Rightarrow> PriceLevel list \<Rightarrow> nat \<Rightarrow> nat \<Rightarrow> RithmicOrderBook \<Rightarrow> RithmicOrderBook" where
  "commit_loop is_ask pending i cnt b =
     (if i < cnt
      then commit_loop is_ask pending (Suc i) cnt
             (ApplyLevel (lvl_price (pending ! i)) (lvl_quantity (pending ! i)) is_ask b)
      else b)"
  by pat_completeness auto
termination by (relation "measure (\<lambda>(_, _, i, cnt, _). cnt - i)") auto

declare commit_loop.simps [simp del]

definition CommitBatch :: "RithmicOrderBook \<Rightarrow> RithmicOrderBook" where
  "CommitBatch b =
     (let b1 = commit_loop False (ob_pending_bids b) 0 (ob_pending_bid_count b) b;
          b2 = commit_loop True (ob_pending_asks b1) 0 (ob_pending_ask_count b1) b1
      in b2\<lparr>ob_pending_bid_count := 0, ob_pending_ask_count := 0, ob_batch_active := False\<rparr>)"

definition CancelBatch :: "RithmicOrderBook \<Rightarrow> RithmicOrderBook" where
  "CancelBatch b =
     b\<lparr>ob_pending_bid_count := 0, ob_pending_ask_count := 0, ob_batch_active := False\<rparr>"

definition Clear :: "RithmicOrderBook \<Rightarrow> RithmicOrderBook" where
  "Clear b = b\<lparr>ob_bid_count := 0, ob_ask_count := 0, ob_pending_bid_count := 0,
               ob_pending_ask_count := 0, ob_batch_active := False\<rparr>"

text \<open>The level loop of \<open>SnapshotTo\<close>: \<open>out[i] = src[i]\<close> for \<open>i < n\<close>.\<close>
definition copy_levels :: "PriceLevel list \<Rightarrow> nat \<Rightarrow> PriceLevel list \<Rightarrow> PriceLevel list" where
  "copy_levels src n out = fold (\<lambda>i out. out[i := src ! i]) [0..<n] out"

text \<open>
  The symbol of a book is a 12-byte array, so its copy loop stays in range
  (\<open>copy_symbol_loop_defined\<close>); the other branch of the \<open>case\<close> is never taken.
\<close>
definition SnapshotTo :: "RithmicOrderBook \<Rightarrow> DepthUpdateEvent \<Rightarrow> u64 \<Rightarrow> DepthUpdateEvent" where
  "SnapshotTo b out exchange_ts =
     out\<lparr>dep_last_update_id := 0,
         dep_channel_id := ob_channel_id b,
         dep_exchange_timestamp := exchange_ts,
         dep_symbol := (case copy_symbol_loop (ob_symbol b) (dep_symbol out) 0 of
                          Some s \<Rightarrow> s | None \<Rightarrow> dep_symbol out),
         dep_bid_count := ob_bid_count b,
         dep_bids := copy_levels (ob_bids b) (ob_bid_count b) (dep_bids out),
         dep_ask_count := ob_ask_count b,
         dep_asks := copy_levels (ob_asks b) (ob_ask_count b) (dep_asks out)\<rparr>"

section \<open>Reference definitions\<close>

definition live :: "PriceLevel list \<times> nat \<Rightarrow> PriceLevel list" where
  "live s = take (snd s) (fst s)"

definition bids_of :: "RithmicOrderBook \<Rightarrow> PriceLevel list" where
  "bids_of b = take (ob_bid_count b) (ob_bids b)"

definition asks_of :: "RithmicOrderBook \<Rightarrow> PriceLevel list" where
  "asks_of b = take (ob_ask_count b) (ob_asks b)"

text \<open>What \<open>ApplyLevel\<close> means for the list of live levels of a side.\<close>
definition level_update :: "bool \<Rightarrow> double \<Rightarrow> double \<Rightarrow> PriceLevel list \<Rightarrow> PriceLevel list" where
  "level_update is_ask price qty ls =
     (let other = (\<lambda>l. \<not> d_eq (lvl_price l) price);
          pre = takeWhile other ls
      in case dropWhile other ls of
           l # post \<Rightarrow> (if d_lt d_zero qty then pre @ l\<lparr>lvl_quantity := qty\<rparr> # post else pre @ post)
         | [] \<Rightarrow>
             (if d_le qty d_zero \<or> kMaxOrderbookLevels \<le> length ls then ls
              else takeWhile (comes_before is_ask price) ls
                     @ \<lparr>lvl_price = price, lvl_quantity = qty\<rparr>
                     # dropWhile (comes_before is_ask price) ls))"

text \<open>Sort key of a price on a side: ascending for asks, descending for bids.\<close>
definition side_key :: "bool \<Rightarrow> double \<Rightarrow> int" where
  "side_key is_ask p = (if is_ask then d_key p else - d_key p)"

definition side_ok :: "bool \<Rightarrow> PriceLevel list \<Rightarrow> bool" where
  "side_ok is_ask ls \<longleftrightarrow>
     length ls \<le> kMaxOrderbookLevels \<and>
     (\<forall>l\<in>set ls. \<not> is_nan (lvl_price l) \<and> d_lt d_zero (lvl_quantity l)) \<and>
     sorted_wrt (<) (map (side_key is_ask \<circ> lvl_price) ls)"

definition updates_ok :: "PriceLevel list \<Rightarrow> bool" where
  "updates_ok ls \<longleftrightarrow> (\<forall>l\<in>set ls. \<not> is_nan (lvl_price l) \<and> \<not> is_nan (lvl_quantity l))"

definition side_map :: "PriceLevel list \<Rightarrow> int \<rightharpoonup> double" where
  "side_map ls = map_of (map (\<lambda>l. (d_key (lvl_price l), lvl_quantity l)) ls)"

definition pending_bids_of :: "RithmicOrderBook \<Rightarrow> PriceLevel list" where
  "pending_bids_of b = take (ob_pending_bid_count b) (ob_pending_bids b)"

definition pending_asks_of :: "RithmicOrderBook \<Rightarrow> PriceLevel list" where
  "pending_asks_of b = take (ob_pending_ask_count b) (ob_pending_asks b)"

text \<open>Arrays of the declared sizes, counts in range.\<close>
definition book_shape :: "RithmicOrderBook \<Rightarrow> bool" where
  "book_shape b \<longleftrightarrow>
     length (ob_bids b) = kMaxOrderbookLevels \<and> length (ob_asks b) = kMaxOrderbookLevels \<and>
     length (ob_pending_bids b) = kMaxOrderbookLevels \<and>
     length (ob_pending_asks b) = kMaxOrderbookLevels \<and>
     ob_bid_count b \<le> kMaxOrderbookLevels \<and> ob_ask_count b \<le> kMaxOrderbookLevels \<and>
     ob_pending_bid_count b \<le> kMaxOrderbookLevels \<and>
     ob_pending_ask_count b \<le> kMaxOrderbookLevels \<and> length (ob_symbol b) = 12"

definition book_inv :: "RithmicOrderBook \<Rightarrow> bool" where
  "book_inv b \<longleftrightarrow> book_shape b \<and> side_ok False (bids_of b) \<and> side_ok True (asks_of b) \<and>
     updates_ok (pending_bids_of b) \<and> updates_ok (pending_asks_of b)"

text \<open>A list of updates applied in order, on live levels and on the book.\<close>

definition update_levels :: "bool \<Rightarrow> PriceLevel list \<Rightarrow> PriceLevel list \<Rightarrow> PriceLevel list" where
  "update_levels is_ask us ls =
     fold (\<lambda>u. level_update is_ask (lvl_price u) (lvl_quantity u)) us ls"

definition apply_levels :: "bool \<Rightarrow> PriceLevel list \<Rightarrow> RithmicOrderBook \<Rightarrow> RithmicOrderBook" where
  "apply_levels is_ask us b =
     fold (\<lambda>u. ApplyLevel (lvl_price u) (lvl_quantity u) is_ask) us b"

definition buffer_levels :: "(PriceLevel \<times> bool) list \<Rightarrow> RithmicOrderBook \<Rightarrow> RithmicOrderBook" where
  "buffer_levels us b =
     fold (\<lambda>(u, is_ask). BufferLevel (lvl_price u) (lvl_quantity u) is_ask) us b"

text \<open>The levels of an image that \<open>ApplyImage\<close> keeps.\<close>
definition image_levels :: "(double \<times> int) list \<Rightarrow> PriceLevel list" where
  "image_levels quotes =
     map (\<lambda>(p, sz). \<lparr>lvl_price = p, lvl_quantity = double_of_int sz\<rparr>)
       (filter (\<lambda>(p, sz). 0 < sz) quotes)"

text \<open>What the API promises of an image: prices are numbers, best first, without duplicates.\<close>
definition image_ok :: "bool \<Rightarrow> (double \<times> int) list \<Rightarrow> bool" where
  "image_ok is_ask quotes \<longleftrightarrow>
     (\<forall>(p, sz)\<in>set quotes. \<not> is_nan p \<and> \<bar>sz\<bar> < 2 ^ 64) \<and>
     sorted_wrt (<) (map (side_key is_ask \<circ> fst) quotes)"

text \<open>States a book can reach; quantities and prices of updates are numbers.\<close>
inductive reach_book :: "RithmicOrderBook \<Rightarrow> bool" where
  start: "reach_book book_zero"
| init: "reach_book b \<Longrightarrow> Init channel_id symbol b = Some b' \<Longrightarrow> reach_book b'"
| lock: "reach_book b \<Longrightarrow> Lock b = Some b' \<Longrightarrow> reach_book b'"
| unlock: "reach_book b \<Longrightarrow> reach_book (Unlock b)"
| image: "reach_book b \<Longrightarrow> image_ok is_ask quotes \<Longrightarrow> reach_book (ApplyImage quotes is_ask b)"
| level: "reach_book b \<Longrightarrow> \<not> is_nan price \<Longrightarrow> \<not> is_nan qty \<Longrightarrow>
    reach_book (ApplyLevel price qty is_ask b)"
| begin_batch: "reach_book b \<Longrightarrow> reach_book (BeginBatch b)"
| buffer: "reach_book b \<Longrightarrow> \<not> is_nan price \<Longrightarrow> \<not> is_nan qty \<Longrightarrow>
    reach_book (BufferLevel price qty is_ask b)"
| commit: "reach_book b \<Longrightarrow> reach_book (CommitBatch b)"
| cancel: "reach_book b \<Longrightarrow> reach_book (CancelBatch b)"
| clear: "reach_book b \<Longrightarrow> reach_book (Clear b)"

section \<open>The loops compute the list update\<close>

lemma find_price_eq:
  "pos \<le> n \<Longrightarrow> n \<le> length levels \<Longrightarrow>
   find_price levels n price pos =
     pos + length (takeWhile (\<lambda>l. \<not> d_eq (lvl_price l) price) (drop pos (take n levels)))"
proof (induction levels n price pos rule: find_price.induct)
  case (1 levels n price pos)
  show ?case
  proof (cases "pos < n")
    case True
    then have "drop pos (take n levels) = levels ! pos # drop (Suc pos) (take n levels)"
      using 1(3) by (metis Cons_nth_drop_Suc length_take min.absorb2 nth_take)
    then show ?thesis
      using 1 True by (subst find_price.simps) auto
  next
    case False
    then show ?thesis
      using 1 by (subst find_price.simps) auto
  qed
qed

lemma find_insert_eq:
  "pos \<le> n \<Longrightarrow> n \<le> length levels \<Longrightarrow>
   find_insert is_ask levels n price pos =
     pos + length (takeWhile (comes_before is_ask price) (drop pos (take n levels)))"
proof (induction is_ask levels n price pos rule: find_insert.induct)
  case (1 is_ask levels n price pos)
  show ?case
  proof (cases "pos < n")
    case True
    then have "drop pos (take n levels) = levels ! pos # drop (Suc pos) (take n levels)"
      using 1(3) by (metis Cons_nth_drop_Suc length_take min.absorb2 nth_take)
    then show ?thesis
      using 1 True by (subst find_insert.simps) auto
  next
    case False
    then show ?thesis
      using 1 by (subst find_insert.simps) auto
  qed
qed

lemma length_shift_left [simp]: "length (shift_left levels j n) = length levels"
  by (induction levels j n rule: shift_left.induct) (subst shift_left.simps, simp)

lemma length_shift_right [simp]: "length (shift_right levels j i) = length levels"
  by (induction levels j i rule: shift_right.induct) (subst shift_right.simps, simp)

lemma nth_shift_left:
  "j < n \<Longrightarrow> n \<le> length levels \<Longrightarrow> i < n - 1 \<Longrightarrow>
   shift_left levels j n ! i = (if i < j then levels ! i else levels ! Suc i)"
proof (induction levels j n rule: shift_left.induct)
  case (1 levels j n)
  then show ?case
    by (subst shift_left.simps) (auto simp: nth_list_update not_less less_Suc_eq)
qed

lemma nth_shift_right:
  "p \<le> j \<Longrightarrow> j < length levels \<Longrightarrow> i \<le> j \<Longrightarrow> i \<noteq> p \<Longrightarrow>
   shift_right levels j p ! i = (if i < p then levels ! i else levels ! (i - 1))"
proof (induction levels j p rule: shift_right.induct)
  case (1 levels j p)
  show ?case
  proof (cases "p < j \<and> i = j")
    case True
    have frame: "shift_right xs k q ! m = xs ! m" if "k < m" for xs :: "PriceLevel list" and k q m
      using that
      by (induction xs k q rule: shift_right.induct) (subst shift_right.simps, auto)
    show ?thesis
      using True 1(3) by (subst shift_right.simps) (auto simp: frame)
  next
    case False
    then show ?thesis
      using 1 by (subst shift_right.simps) (auto simp: nth_list_update)
  qed
qed

lemma shift_left_live:
  assumes "p < n" "n \<le> length levels"
  shows "take (n - 1) (shift_left levels p n) = take p (take n levels) @ drop (Suc p) (take n levels)"
proof (intro nth_equalityI)
  show "length (take (n - 1) (shift_left levels p n))
          = length (take p (take n levels) @ drop (Suc p) (take n levels))"
    using assms by simp
next
  fix i assume "i < length (take (n - 1) (shift_left levels p n))"
  then have i: "i < n - 1" by simp
  then show "take (n - 1) (shift_left levels p n) ! i
          = (take p (take n levels) @ drop (Suc p) (take n levels)) ! i"
    using assms nth_shift_left [of p n levels i] by (auto simp: nth_append)
qed

lemma shift_right_live:
  assumes "p \<le> n" "n < length levels"
  shows "take (Suc n) ((shift_right levels n p)[p := x]) = take p (take n levels) @ x # drop p (take n levels)"
proof (intro nth_equalityI)
  show "length (take (Suc n) ((shift_right levels n p)[p := x]))
          = length (take p (take n levels) @ x # drop p (take n levels))"
    using assms by simp
next
  fix i assume "i < length (take (Suc n) ((shift_right levels n p)[p := x]))"
  then have i: "i \<le> n" using assms by simp
  show "take (Suc n) ((shift_right levels n p)[p := x]) ! i
          = (take p (take n levels) @ x # drop p (take n levels)) ! i"
  proof (cases "i = p")
    case True
    then show ?thesis using assms by (simp add: nth_append)
  next
    case False
    then show ?thesis
      using assms i nth_shift_right [of p n levels i]
      by (cases "i < p") (auto simp: nth_append nth_Cons' )
  qed
qed

lemma takeWhile_dropWhile_split:
  assumes "dropWhile P ls = l # post"
  shows "ls = takeWhile P ls @ l # post" "length (takeWhile P ls) < length ls"
    "ls ! length (takeWhile P ls) = l" "drop (Suc (length (takeWhile P ls))) ls = post"
    "take (length (takeWhile P ls)) ls = takeWhile P ls"
proof -
  show *: "ls = takeWhile P ls @ l # post"
    using assms by (metis takeWhile_dropWhile_id)
  show "length (takeWhile P ls) < length ls"
    by (subst (2) *) simp
  show "ls ! length (takeWhile P ls) = l"
    by (subst (1) *) (simp only: nth_append_length)
  show "drop (Suc (length (takeWhile P ls))) ls = post"
    by (subst (2) *) simp
  show "take (length (takeWhile P ls)) ls = takeWhile P ls"
    by (simp add: takeWhile_eq_take [symmetric])
qed

lemma dropWhile_Nil_length: "dropWhile P ls = [] \<Longrightarrow> length (takeWhile P ls) = length ls"
  by (metis append_Nil2 takeWhile_dropWhile_id)

lemma apply_level_side_live:
  assumes len: "length levels = kMaxOrderbookLevels" and n: "n \<le> kMaxOrderbookLevels"
  shows "live (apply_level_side is_ask price qty (levels, n))
           = level_update is_ask price qty (live (levels, n))" (is "?A = ?B")
    and "length (fst (apply_level_side is_ask price qty (levels, n))) = kMaxOrderbookLevels" (is ?L)
    and "snd (apply_level_side is_ask price qty (levels, n)) \<le> kMaxOrderbookLevels" (is ?C)
proof -
  define other where "other = (\<lambda>l :: PriceLevel. \<not> d_eq (lvl_price l) price)"
  let ?ls = "take n levels"
  let ?p = "length (takeWhile other ?ls)"
  let ?q = "length (takeWhile (comes_before is_ask price) ?ls)"
  have nl: "n \<le> length levels" using len n by simp
  then have ll: "length ?ls = n" by simp
  have fp: "find_price levels n price 0 = ?p"
    using find_price_eq [of 0 n levels price] nl by (simp add: other_def)
  have fi: "find_insert is_ask levels n price 0 = ?q"
    using find_insert_eq [of 0 n levels is_ask price] nl by simp
  have q: "?q \<le> n" using length_takeWhile_le [of "comes_before is_ask price" ?ls] ll by simp
  have "?A = ?B \<and> ?L \<and> ?C"
  proof (cases "dropWhile other ?ls")
    case Nil
    then have "\<not> ?p < n" using dropWhile_Nil_length [OF Nil] ll by simp
    moreover have "take (Suc n) ((shift_right levels n ?q)[?q := x])
        = takeWhile (comes_before is_ask price) ?ls @ x # dropWhile (comes_before is_ask price) ?ls"
      if "n < length levels" for x
      using shift_right_live [OF q that, of x]
      by (simp add: takeWhile_eq_take [symmetric] dropWhile_eq_drop [symmetric] del: take_take)
    ultimately show ?thesis
      using Nil len n ll
      by (auto simp: apply_level_side_def level_update_def live_def fp fi Let_def other_def [symmetric]
            simp del: dropWhile_eq_Nil_conv)
  next
    case (Cons l post)
    note sp = takeWhile_dropWhile_split [OF Cons]
    have p: "?p < n" using sp(2) ll by simp
    have lp: "levels ! ?p = l" using sp(3) p by simp
    have "take n (levels[?p := l']) = takeWhile other ?ls @ l' # post" for l'
      by (simp only: take_update_swap upd_conv_take_nth_drop [OF sp(2)] sp(4,5))
    moreover have "take (n - 1) (shift_left levels ?p n) = takeWhile other ?ls @ post"
      using shift_left_live [OF p nl] sp(4,5) by simp
    ultimately show ?thesis
      using Cons p lp len n
      by (auto simp: apply_level_side_def level_update_def live_def fp Let_def other_def [symmetric])
  qed
  then show "?A = ?B" "?L" "?C" by blast+
qed

section \<open>Sortedness and the price map\<close>

lemma comes_before_key:
  "\<not> is_nan price \<Longrightarrow> \<not> is_nan (lvl_price l) \<Longrightarrow>
   comes_before is_ask price l \<longleftrightarrow> side_key is_ask (lvl_price l) < side_key is_ask price"
  by (auto simp: comes_before_def side_key_def d_lt_def)

lemma side_key_inj [simp]: "side_key is_ask p = side_key is_ask q \<longleftrightarrow> d_key p = d_key q"
  by (simp add: side_key_def)

lemma side_ok_not_nan: "side_ok is_ask ls \<Longrightarrow> l \<in> set ls \<Longrightarrow> \<not> is_nan (lvl_price l)"
  by (simp add: side_ok_def)

text \<open>The three shapes a level update can take, for a price that is a number.\<close>

lemma level_update_cases:
  assumes ok: "side_ok is_ask ls" and price: "\<not> is_nan price"
  obtains (found) pre l post where "ls = pre @ l # post"
      "d_key (lvl_price l) = d_key price"
      "level_update is_ask price qty ls
         = (if d_lt d_zero qty then pre @ l\<lparr>lvl_quantity := qty\<rparr> # post else pre @ post)"
  | (absent) "d_key price \<notin> (d_key \<circ> lvl_price) ` set ls"
      "level_update is_ask price qty ls =
         (if d_le qty d_zero \<or> kMaxOrderbookLevels \<le> length ls then ls
          else takeWhile (\<lambda>l. side_key is_ask (lvl_price l) < side_key is_ask price) ls
                 @ \<lparr>lvl_price = price, lvl_quantity = qty\<rparr>
                 # dropWhile (\<lambda>l. side_key is_ask (lvl_price l) < side_key is_ask price) ls)"
proof (cases "dropWhile (\<lambda>l. \<not> d_eq (lvl_price l) price) ls")
  case Nil
  then have "d_key price \<notin> (d_key \<circ> lvl_price) ` set ls"
    using side_ok_not_nan [OF ok] price by (auto simp: d_eq_def)
  moreover have "takeWhile (comes_before is_ask price) ls
        = takeWhile (\<lambda>l. side_key is_ask (lvl_price l) < side_key is_ask price) ls"
    "dropWhile (comes_before is_ask price) ls
        = dropWhile (\<lambda>l. side_key is_ask (lvl_price l) < side_key is_ask price) ls"
    using side_ok_not_nan [OF ok] price
    by (auto intro!: takeWhile_cong dropWhile_cong simp: comes_before_key)
  ultimately show ?thesis
    using Nil absent by (simp add: level_update_def del: dropWhile_eq_Nil_conv)
next
  case (Cons l post)
  note sp = takeWhile_dropWhile_split [OF Cons]
  have "d_eq (lvl_price l) price"
    using Cons by (simp add: dropWhile_eq_Cons_conv)
  then have "d_key (lvl_price l) = d_key price"
    by (simp add: d_eq_def)
  then show ?thesis
    using found [OF sp(1)] Cons by (simp add: level_update_def)
qed

lemma level_update_ok:
  assumes ok: "side_ok is_ask ls" and price: "\<not> is_nan price" and qty: "\<not> is_nan qty"
  shows "side_ok is_ask (level_update is_ask price qty ls)"
proof (cases rule: level_update_cases [OF ok price, where qty = qty])
  case (1 pre l post)
  then show ?thesis
    using ok by (auto simp: side_ok_def sorted_wrt_append)
next
  case 2
  let ?k = "side_key is_ask" and ?x = "\<lparr>lvl_price = price, lvl_quantity = qty\<rparr>"
  let ?new = "takeWhile (\<lambda>l. ?k (lvl_price l) < ?k price) ls @ ?x
                # dropWhile (\<lambda>l. ?k (lvl_price l) < ?k price) ls"
  have "set ?new = insert ?x (set ls)" "length ?new = Suc (length ls)"
    by (simp_all add: set_takeWhile_dropWhile length_takeWhile_dropWhile)
  moreover have "sorted_wrt (<) (map (?k \<circ> lvl_price) ?new)"
  proof -
    have "(?k \<circ> lvl_price) ?x \<notin> (?k \<circ> lvl_price) ` set ls"
      using 2(1) by (auto simp: image_iff)
    from sorted_wrt_insert [OF _ this] ok show ?thesis by (simp add: side_ok_def comp_def)
  qed
  moreover have "\<not> d_le qty d_zero \<Longrightarrow> d_lt d_zero qty"
    using qty by (simp add: d_le_iff_not_lt)
  ultimately show ?thesis
    using ok price unfolding 2(2) by (simp add: side_ok_def)
qed

lemma side_map_update:
  assumes ok: "side_ok is_ask ls" and price: "\<not> is_nan price" and qty: "\<not> is_nan qty"
  shows "side_map (level_update is_ask price qty ls) =
           (if d_le qty d_zero then (side_map ls)(d_key price := None)
            else if d_key price \<in> dom (side_map ls) \<or> length ls < kMaxOrderbookLevels
            then (side_map ls)(d_key price \<mapsto> qty) else side_map ls)"
proof (cases rule: level_update_cases [OF ok price, where qty = qty])
  case (1 pre l post)
  let ?e = "\<lambda>l. (d_key (lvl_price l), lvl_quantity l)"
  have "d_key (lvl_price x) \<noteq> d_key price" if "x \<in> set pre \<union> set post" for x
    using sorted_wrt_mid_neq [of "side_key is_ask \<circ> lvl_price" pre l post, OF _ that] ok 1(1,2)
    by (simp add: side_ok_def)
  then have "\<forall>x\<in>set pre \<union> set post. d_key price \<noteq> d_key (lvl_price x)" by metis
  then have nin: "d_key price \<notin> dom (map_of (map ?e pre))" "d_key price \<notin> dom (map_of (map ?e post))"
    by (auto simp: dom_map_of_conv_image_fst)
  have m: "side_map ls = (map_of (map ?e post) ++ map_of (map ?e pre))(d_key price \<mapsto> lvl_quantity l)"
    using nin 1(1,2) by (simp add: side_map_def map_add_upd_left)
  have "side_map (pre @ l\<lparr>lvl_quantity := qty\<rparr> # post) = (side_map ls)(d_key price \<mapsto> qty)"
    using nin 1(2) by (simp add: m) (simp add: side_map_def map_add_upd_left)
  moreover have "side_map (pre @ post) = (side_map ls)(d_key price := None)"
    using nin by (simp add: m fun_upd_idem map_add_None domIff) (simp add: side_map_def)
  ultimately show ?thesis
    using qty unfolding 1(3) by (simp add: d_le_iff_not_lt m)
next
  case 2
  let ?P = "\<lambda>l. side_key is_ask (lvl_price l) < side_key is_ask price"
  let ?e = "\<lambda>l. (d_key (lvl_price l), lvl_quantity l)"
  have nin: "d_key price \<notin> dom (side_map ls)"
    using 2(1) by (auto simp: side_map_def dom_map_of_conv_image_fst)
  have sp: "side_map ls = map_of (map ?e (dropWhile ?P ls)) ++ map_of (map ?e (takeWhile ?P ls))"
    unfolding side_map_def by (metis map_append map_of_append takeWhile_dropWhile_id)
  then have "d_key price \<notin> dom (map_of (map ?e (takeWhile ?P ls)))"
    using nin by auto
  then have "side_map (takeWhile ?P ls @ \<lparr>lvl_price = price, lvl_quantity = qty\<rparr> # dropWhile ?P ls)
               = (side_map ls)(d_key price \<mapsto> qty)"
    by (simp add: sp map_add_upd_left) (simp add: side_map_def map_add_upd_left)
  moreover have "(side_map ls)(d_key price := None) = side_map ls"
    using nin by (intro fun_upd_idem) (simp add: domIff)
  ultimately show ?thesis
    using nin unfolding 2(2) by (simp add: not_le)
qed

section \<open>Operations on books\<close>

named_theorems book_simps "effect of the book operations on the live and pending levels"

lemmas book_defs = bids_of_def asks_of_def pending_bids_of_def pending_asks_of_def
  get_side_def set_side_def

lemma ApplyLevel_sides [book_simps]:
  assumes "book_shape b"
  shows "bids_of (ApplyLevel p q is_ask b)
           = (if is_ask then bids_of b else level_update False p q (bids_of b))"
    "asks_of (ApplyLevel p q is_ask b)
           = (if is_ask then level_update True p q (asks_of b) else asks_of b)"
    "book_shape (ApplyLevel p q is_ask b)"
  using apply_level_side_live [of "ob_bids b" "ob_bid_count b" False p q]
    apply_level_side_live [of "ob_asks b" "ob_ask_count b" True p q] assms
  by (auto simp: ApplyLevel_def book_defs book_shape_def live_def)

lemma ApplyLevel_frame [book_simps]:
  "pending_bids_of (ApplyLevel p q is_ask b) = pending_bids_of b"
  "pending_asks_of (ApplyLevel p q is_ask b) = pending_asks_of b"
  "ob_pending_bids (ApplyLevel p q is_ask b) = ob_pending_bids b"
  "ob_pending_asks (ApplyLevel p q is_ask b) = ob_pending_asks b"
  "ob_pending_bid_count (ApplyLevel p q is_ask b) = ob_pending_bid_count b"
  "ob_pending_ask_count (ApplyLevel p q is_ask b) = ob_pending_ask_count b"
  "ob_batch_active (ApplyLevel p q is_ask b) = ob_batch_active b"
  "ob_channel_id (ApplyLevel p q is_ask b) = ob_channel_id b"
  "ob_symbol (ApplyLevel p q is_ask b) = ob_symbol b"
  by (auto simp: ApplyLevel_def book_defs)

lemma update_levels_simps [simp]:
  "update_levels is_ask [] ls = ls"
  "update_levels is_ask (u # us) ls
     = update_levels is_ask us (level_update is_ask (lvl_price u) (lvl_quantity u) ls)"
  by (simp_all add: update_levels_def)

lemma apply_levels_simps [simp]:
  "apply_levels is_ask [] b = b"
  "apply_levels is_ask (u # us) b
     = apply_levels is_ask us (ApplyLevel (lvl_price u) (lvl_quantity u) is_ask b)"
  by (simp_all add: apply_levels_def)

lemma apply_levels_sides [book_simps]:
  assumes "book_shape b"
  shows "bids_of (apply_levels is_ask us b)
           = (if is_ask then bids_of b else update_levels False us (bids_of b))"
    "asks_of (apply_levels is_ask us b)
           = (if is_ask then update_levels True us (asks_of b) else asks_of b)"
    "book_shape (apply_levels is_ask us b)"
  using assms by (induction us arbitrary: b) (auto simp: book_simps)

lemma apply_levels_frame [book_simps]:
  "pending_bids_of (apply_levels is_ask us b) = pending_bids_of b"
  "pending_asks_of (apply_levels is_ask us b) = pending_asks_of b"
  "ob_pending_asks (apply_levels is_ask us b) = ob_pending_asks b"
  "ob_pending_ask_count (apply_levels is_ask us b) = ob_pending_ask_count b"
  "ob_channel_id (apply_levels is_ask us b) = ob_channel_id b"
  "ob_symbol (apply_levels is_ask us b) = ob_symbol b"
  by (induction us arbitrary: b) (auto simp: book_simps)

lemma commit_loop_eq:
  "cnt \<le> length pending \<Longrightarrow>
   commit_loop is_ask pending i cnt b = apply_levels is_ask (drop i (take cnt pending)) b"
proof (induction is_ask pending i cnt b rule: commit_loop.induct)
  case (1 is_ask pending i cnt b)
  show ?case
  proof (cases "i < cnt")
    case True
    then have "drop i (take cnt pending) = pending ! i # drop (Suc i) (take cnt pending)"
      using 1(2) by (metis Cons_nth_drop_Suc length_take min.absorb2 nth_take)
    then show ?thesis using 1 True by (subst commit_loop.simps) simp
  qed (subst commit_loop.simps, simp)
qed

lemma CommitBatch_eq:
  assumes "book_shape b"
  shows "CommitBatch b =
    (apply_levels True (pending_asks_of b) (apply_levels False (pending_bids_of b) b))
      \<lparr>ob_pending_bid_count := 0, ob_pending_ask_count := 0, ob_batch_active := False\<rparr>"
  using assms
  by (simp add: CommitBatch_def Let_def commit_loop_eq book_simps book_shape_def
      pending_bids_of_def [symmetric] pending_asks_of_def [symmetric])

lemma drop_pending [simp]:
  "bids_of (b\<lparr>ob_pending_bid_count := 0, ob_pending_ask_count := 0, ob_batch_active := f\<rparr>) = bids_of b"
  "asks_of (b\<lparr>ob_pending_bid_count := 0, ob_pending_ask_count := 0, ob_batch_active := f\<rparr>) = asks_of b"
  "pending_bids_of (b\<lparr>ob_pending_bid_count := 0, ob_pending_ask_count := 0, ob_batch_active := f\<rparr>) = []"
  "pending_asks_of (b\<lparr>ob_pending_bid_count := 0, ob_pending_ask_count := 0, ob_batch_active := f\<rparr>) = []"
  "book_shape b \<Longrightarrow>
   book_shape (b\<lparr>ob_pending_bid_count := 0, ob_pending_ask_count := 0, ob_batch_active := f\<rparr>)"
  by (auto simp: book_defs book_shape_def)

lemma CommitBatch_sides [book_simps]:
  assumes "book_shape b"
  shows "bids_of (CommitBatch b) = update_levels False (pending_bids_of b) (bids_of b)"
    "asks_of (CommitBatch b) = update_levels True (pending_asks_of b) (asks_of b)"
    "pending_bids_of (CommitBatch b) = []" "pending_asks_of (CommitBatch b) = []"
    "book_shape (CommitBatch b)" "\<not> ob_batch_active (CommitBatch b)"
    "ob_channel_id (CommitBatch b) = ob_channel_id b" "ob_symbol (CommitBatch b) = ob_symbol b"
  using assms by (simp_all add: CommitBatch_eq book_simps)

lemma BufferLevel_pending [book_simps]:
  assumes "book_shape b"
  shows "pending_bids_of (BufferLevel p q is_ask b) =
           (if is_ask then pending_bids_of b
            else take kMaxOrderbookLevels (pending_bids_of b @ [\<lparr>lvl_price = p, lvl_quantity = q\<rparr>]))"
    "pending_asks_of (BufferLevel p q is_ask b) =
           (if is_ask
            then take kMaxOrderbookLevels (pending_asks_of b @ [\<lparr>lvl_price = p, lvl_quantity = q\<rparr>])
            else pending_asks_of b)"
    "bids_of (BufferLevel p q is_ask b) = bids_of b" "asks_of (BufferLevel p q is_ask b) = asks_of b"
    "book_shape (BufferLevel p q is_ask b)"
    "ob_batch_active (BufferLevel p q is_ask b) = ob_batch_active b"
  using assms
  by (auto simp: BufferLevel_def book_defs book_shape_def Let_def take_Suc_conv_app_nth min_def)

lemma buffer_levels_simps [simp]:
  "buffer_levels [] b = b"
  "buffer_levels ((u, a) # us) b = buffer_levels us (BufferLevel (lvl_price u) (lvl_quantity u) a b)"
  by (simp_all add: buffer_levels_def)

lemma buffer_levels_pending:
  assumes "book_shape b"
  shows "pending_bids_of (buffer_levels us b)
           = take kMaxOrderbookLevels (pending_bids_of b @ [u. (u, a) \<leftarrow> us, \<not> a])" (is ?P)
    "pending_asks_of (buffer_levels us b)
           = take kMaxOrderbookLevels (pending_asks_of b @ [u. (u, a) \<leftarrow> us, a])" (is ?Q)
    "bids_of (buffer_levels us b) = bids_of b" (is ?B)
    "asks_of (buffer_levels us b) = asks_of b" (is ?A)
    "book_shape (buffer_levels us b)" (is ?S)
proof -
  have "?P \<and> ?Q \<and> ?B \<and> ?A \<and> ?S"
    using assms
  proof (induction us arbitrary: b)
    case Nil
    then show ?case by (simp add: pending_bids_of_def pending_asks_of_def book_shape_def)
  next
    case (Cons ua us)
    obtain u a where ua: "ua = (u, a)" by (cases ua)
    have len: "length (pending_bids_of b) \<le> kMaxOrderbookLevels"
      "length (pending_asks_of b) \<le> kMaxOrderbookLevels"
      using Cons.prems by (auto simp: pending_bids_of_def pending_asks_of_def book_shape_def)
    show ?case
      using Cons.IH [of "BufferLevel (lvl_price u) (lvl_quantity u) a b"] Cons.prems ua
      by (simp add: book_simps take_take_snoc len del: take_append)
  qed
  then show ?P ?Q ?B ?A ?S by blast+
qed

lemma BeginBatch_simps [book_simps]:
  "bids_of (BeginBatch b) = bids_of b" "asks_of (BeginBatch b) = asks_of b"
  "pending_bids_of (BeginBatch b) = []" "pending_asks_of (BeginBatch b) = []"
  "book_shape b \<Longrightarrow> book_shape (BeginBatch b)" "ob_batch_active (BeginBatch b)"
  by (simp_all add: BeginBatch_def)

section \<open>Images\<close>

lemma image_loop_live:
  assumes "length levels = kMaxOrderbookLevels" "n \<le> kMaxOrderbookLevels"
  shows "live (image_loop quotes levels n)
           = take kMaxOrderbookLevels (take n levels @ image_levels quotes)" (is ?P)
    "length (fst (image_loop quotes levels n)) = kMaxOrderbookLevels" (is ?Q)
    "snd (image_loop quotes levels n) \<le> kMaxOrderbookLevels" (is ?R)
proof -
  have "?P \<and> ?Q \<and> ?R"
    using assms
  proof (induction quotes levels n rule: image_loop.induct)
    case (1 levels n)
    then show ?case by (simp add: live_def image_levels_def)
  next
    case (2 p sz rest levels n)
    then show ?case
      by (auto simp: image_levels_def live_def take_Suc_conv_app_nth)
  qed
  then show ?P ?Q ?R by blast+
qed

lemma ApplyImage_sides [book_simps]:
  assumes "book_shape b"
  shows "bids_of (ApplyImage quotes is_ask b)
           = (if is_ask then bids_of b else take kMaxOrderbookLevels (image_levels quotes))"
    "asks_of (ApplyImage quotes is_ask b)
           = (if is_ask then take kMaxOrderbookLevels (image_levels quotes) else asks_of b)"
    "book_shape (ApplyImage quotes is_ask b)"
    "pending_bids_of (ApplyImage quotes is_ask b) = pending_bids_of b"
    "pending_asks_of (ApplyImage quotes is_ask b) = pending_asks_of b"
  using assms image_loop_live [of "ob_bids b" 0 quotes] image_loop_live [of "ob_asks b" 0 quotes]
  by (auto simp: ApplyImage_def book_defs book_shape_def live_def)

lemma sorted_map_filter:
  "sorted_wrt (<) (map f xs) \<Longrightarrow> sorted_wrt (<) (map f (filter P xs))"
  by (induction xs) auto

lemma image_levels_ok:
  assumes "image_ok is_ask quotes"
  shows "side_ok is_ask (take kMaxOrderbookLevels (image_levels quotes))"
proof -
  have "sorted_wrt (<) (map (side_key is_ask \<circ> lvl_price) (image_levels quotes))"
    using sorted_map_filter [of "side_key is_ask \<circ> fst" quotes "\<lambda>(p, sz). 0 < sz"] assms
    by (simp add: image_ok_def image_levels_def comp_def case_prod_unfold)
  then have "sorted_wrt (<) (map (side_key is_ask \<circ> lvl_price) (take kMaxOrderbookLevels (image_levels quotes)))"
    by (simp add: take_map [symmetric] sorted_wrt_take)
  moreover have "\<not> is_nan (lvl_price l) \<and> d_lt d_zero (lvl_quantity l)" if "l \<in> set (image_levels quotes)" for l
    using assms that by (auto simp: image_ok_def image_levels_def double_of_int_pos)
  ultimately show ?thesis
    by (auto simp: side_ok_def dest: in_set_takeD)
qed

text \<open>A quote worse than every level of a side that has room is appended.\<close>

lemma level_update_append:
  assumes "side_ok is_ask ls" "\<not> is_nan p" "d_lt d_zero q"
    and "\<forall>l\<in>set ls. side_key is_ask (lvl_price l) < side_key is_ask p"
  shows "level_update is_ask p q ls
           = take kMaxOrderbookLevels (ls @ [\<lparr>lvl_price = p, lvl_quantity = q\<rparr>])"
proof -
  have "d_key p \<notin> (d_key \<circ> lvl_price) ` set ls"
    using assms(4) by (fastforce simp: side_key_def split: if_splits)
  moreover have "takeWhile (\<lambda>l. side_key is_ask (lvl_price l) < side_key is_ask p) ls = ls"
    "dropWhile (\<lambda>l. side_key is_ask (lvl_price l) < side_key is_ask p) ls = []"
    using assms(4) by (simp_all add: takeWhile_eq_all_conv)
  moreover have "\<not> d_le q d_zero" using assms(3) by (simp add: d_le_def d_lt_def)
  ultimately show ?thesis
    using assms(1)
    by (cases rule: level_update_cases [OF assms(1,2), where qty = q]) (auto simp: side_ok_def)
qed

section \<open>Symbols and snapshots\<close>

lemma c_str_take_drop:
  assumes "NUL \<notin> set (take n src)"
  shows "c_str src = take n src @ c_str (drop n src)"
proof -
  have "takeWhile (\<lambda>c. c \<noteq> NUL) (take n src @ drop n src)
          = take n src @ takeWhile (\<lambda>c. c \<noteq> NUL) (drop n src)"
    by (rule takeWhile_append2) (use assms in auto)
  then show ?thesis by (simp only: c_str_def append_take_drop_id)
qed

lemma copy_symbol_loop_eq:
  "n \<le> 11 \<Longrightarrow> n \<le> length src \<Longrightarrow> length dst = 12 \<Longrightarrow> NUL \<notin> set (take n src) \<Longrightarrow>
   take n dst = take n src \<Longrightarrow>
   copy_symbol_loop src dst n =
     (let s = take 11 (c_str src) in
      if length s = 11 \<or> length s < length src then Some (s @ NUL # drop (Suc (length s)) dst) else None)"
proof (induction src dst n rule: copy_symbol_loop.induct)
  case (1 src dst n)
  note cs = c_str_take_drop [OF 1(5)]
  have upd: "dst[n := NUL] = take n src @ NUL # drop (Suc n) dst"
    using 1(2,4,6) by (simp add: upd_conv_take_nth_drop)
  consider "n = 11" | "n < 11" "n = length src" | "n < 11" "n < length src" "src ! n = NUL"
    | "n < 11" "n < length src" "src ! n \<noteq> NUL"
    using 1(2,3) by linarith
  then show ?case
  proof cases
    case 1
    then show ?thesis using cs upd \<open>n \<le> length src\<close>
      by (subst copy_symbol_loop.simps) (simp add: Let_def)
  next
    case 2
    then show ?thesis using cs by (subst copy_symbol_loop.simps) (simp add: Let_def)
  next
    case 3
    then have "c_str (drop n src) = []" by (simp add: c_str_def Cons_nth_drop_Suc [symmetric])
    then have "c_str src = take n src" using cs by simp
    then show ?thesis using 3 upd by (subst copy_symbol_loop.simps) (simp add: Let_def)
  next
    case 4
    then have "take (Suc n) src = take n src @ [src ! n]" by (simp add: take_Suc_conv_app_nth)
    moreover from this have "c_str src = (take n src @ [src ! n]) @ c_str (drop (Suc n) src)"
      using c_str_take_drop [of "Suc n" src] 4 1(5) by auto
    ultimately show ?thesis
      using 4 1 by (subst copy_symbol_loop.simps)
        (simp add: Let_def take_Suc_conv_app_nth nth_list_update drop_update_cancel)
  qed
qed

lemmas copy_symbol_loop_0 = copy_symbol_loop_eq [of 0, simplified]

lemma copy_symbol_loop_defined:
  assumes "length src = 12" "length dst = 12"
  shows "\<exists>s. copy_symbol_loop src dst 0 = Some s \<and> length s = 12 \<and> c_str s = take 11 (c_str src)"
proof -
  have "NUL \<notin> set (take 11 (c_str src))"
    using NUL_notin_c_str [of src] in_set_takeD by fast
  then show ?thesis
    using assms by (auto simp: copy_symbol_loop_0 Let_def c_str_append_NUL)
qed

lemma Init_length: "Init c s b = Some b' \<Longrightarrow> length (ob_symbol b) = 12 \<Longrightarrow> length (ob_symbol b') = 12"
  by (auto simp: Init_def copy_symbol_loop_0 Let_def split: if_splits)

lemma copy_levels_length [simp]: "length (copy_levels src n out) = length out"
  by (induction n) (simp_all add: copy_levels_def)

lemma copy_levels_eq:
  "n \<le> length src \<Longrightarrow> n \<le> length out \<Longrightarrow> copy_levels src n out = take n src @ drop n out"
proof (induction n)
  case (Suc n)
  then have "copy_levels src (Suc n) out = (take n src @ drop n out)[n := src ! n]"
    by (simp add: copy_levels_def)
  then show ?case
    using Suc.prems by (simp add: take_Suc_conv_app_nth Cons_nth_drop_Suc [symmetric] list_update_append)
qed (simp add: copy_levels_def)

section \<open>Invariant\<close>

lemma update_levels_ok:
  "side_ok is_ask ls \<Longrightarrow> updates_ok us \<Longrightarrow> side_ok is_ask (update_levels is_ask us ls)"
  by (induction us arbitrary: ls) (auto simp: updates_ok_def level_update_ok)

lemma updates_ok_take_snoc:
  "updates_ok us \<Longrightarrow> \<not> is_nan (lvl_price u) \<Longrightarrow> \<not> is_nan (lvl_quantity u) \<Longrightarrow>
   updates_ok (take k (us @ [u]))"
  by (auto simp: updates_ok_def dest!: in_set_takeD)

lemma book_inv_zero: "book_inv book_zero"
  by (simp add: book_inv_def book_zero_def book_shape_def bids_of_def asks_of_def
      pending_bids_of_def pending_asks_of_def side_ok_def updates_ok_def symbol_zero_def)

lemma book_inv_frame:
  assumes "book_inv b" "length (ob_symbol b') = 12"
    and "b' = b\<lparr>ob_channel_id := ob_channel_id b', ob_symbol := ob_symbol b', ob_lock := ob_lock b'\<rparr>"
  shows "book_inv b'"
  using assms(1,2) by (subst assms(3)) (simp add: book_inv_def book_shape_def bids_of_def asks_of_def
      pending_bids_of_def pending_asks_of_def)

lemma reach_book_inv: "reach_book b \<Longrightarrow> book_inv b"
proof (induction rule: reach_book.induct)
  case start
  then show ?case by (rule book_inv_zero)
next
  case (init b c s b')
  then have "length (ob_symbol b') = 12"
    using Init_length by (auto simp: book_inv_def book_shape_def)
  then show ?case
    using init by (intro book_inv_frame [OF init.IH]) (auto simp: Init_def)
next
  case (lock b b')
  then show ?case
    by (intro book_inv_frame [OF lock.IH]) (auto simp: Lock_def book_inv_def book_shape_def split: if_splits)
next
  case (unlock b)
  then show ?case
    by (intro book_inv_frame [OF unlock.IH]) (auto simp: Unlock_def book_inv_def book_shape_def)
next
  case (image b is_ask quotes)
  then show ?case
    using image_levels_ok [OF image.hyps(2)] by (cases is_ask) (simp_all add: book_inv_def book_simps)
next
  case (level b price qty is_ask)
  then show ?case by (simp add: book_inv_def book_simps level_update_ok)
next
  case (begin_batch b)
  then show ?case by (simp add: book_inv_def book_simps updates_ok_def)
next
  case (buffer b price qty is_ask)
  then show ?case by (simp add: book_inv_def book_simps updates_ok_take_snoc del: take_append)
next
  case (commit b)
  then show ?case by (simp add: book_inv_def book_simps update_levels_ok) (simp add: updates_ok_def)
next
  case (cancel b)
  then show ?case by (simp add: book_inv_def CancelBatch_def) (simp add: updates_ok_def)
next
  case (clear b)
  then show ?case
    by (simp add: book_inv_def Clear_def book_shape_def book_defs side_ok_def updates_ok_def)
qed

section \<open>Properties\<close>

lemma side_ok_nth:
  assumes "side_ok is_ask (take n ls)" "n \<le> length ls" "i < j" "j < n"
  shows "side_key is_ask (lvl_price (ls ! i)) < side_key is_ask (lvl_price (ls ! j))"
    "\<not> is_nan (lvl_price (ls ! i))" "\<not> is_nan (lvl_price (ls ! j))"
proof -
  have s: "sorted_wrt (<) (map (side_key is_ask \<circ> lvl_price) (take n ls))"
    using assms(1) by (simp add: side_ok_def)
  show "side_key is_ask (lvl_price (ls ! i)) < side_key is_ask (lvl_price (ls ! j))"
    using sorted_wrt_nth_less [OF s assms(3)] assms(2-4) by simp
  have "ls ! i \<in> set (take n ls)" "ls ! j \<in> set (take n ls)"
    using assms(2-4) by (auto intro: nth_in_set_take)
  then show "\<not> is_nan (lvl_price (ls ! i))" "\<not> is_nan (lvl_price (ls ! j))"
    using side_ok_not_nan [OF assms(1)] by blast+
qed

lemma side_ok_qty:
  "side_ok is_ask (take n ls) \<Longrightarrow> i < n \<Longrightarrow> n \<le> length ls \<Longrightarrow> d_lt d_zero (lvl_quantity (ls ! i))"
  using nth_in_set_take [of i n ls] by (auto simp: side_ok_def)

text \<open>
  C1: In every reachable state of a gateway order book the two arrays hold at most 100
  levels, bids are strictly descending and asks strictly ascending in price (so no price
  occurs twice and index 0 is the best quote), and every stored quantity is positive. The
  operations may come in any order, batches included, as long as the API delivers numbers
  and sorted images.
\<close>
theorem reachable_book_sorted:
  assumes "reach_book b"
  shows "ob_bid_count b \<le> kMaxOrderbookLevels \<and> ob_ask_count b \<le> kMaxOrderbookLevels \<and>
    (\<forall>i j. i < j \<and> j < ob_bid_count b \<longrightarrow>
       d_lt (lvl_price (ob_bids b ! j)) (lvl_price (ob_bids b ! i))) \<and>
    (\<forall>i j. i < j \<and> j < ob_ask_count b \<longrightarrow>
       d_lt (lvl_price (ob_asks b ! i)) (lvl_price (ob_asks b ! j))) \<and>
    (\<forall>i < ob_bid_count b. d_lt d_zero (lvl_quantity (ob_bids b ! i))) \<and>
    (\<forall>i < ob_ask_count b. d_lt d_zero (lvl_quantity (ob_asks b ! i)))"
proof -
  have inv: "book_shape b" "side_ok False (bids_of b)" "side_ok True (asks_of b)"
    using reach_book_inv [OF assms] by (auto simp: book_inv_def)
  have cnt: "ob_bid_count b \<le> length (ob_bids b)" "ob_ask_count b \<le> length (ob_asks b)"
    "ob_bid_count b \<le> kMaxOrderbookLevels" "ob_ask_count b \<le> kMaxOrderbookLevels"
    using inv(1) by (auto simp: book_shape_def)
  note bid = side_ok_nth [OF inv(2) [unfolded bids_of_def] cnt(1)]
    and ask = side_ok_nth [OF inv(3) [unfolded asks_of_def] cnt(2)]
  show ?thesis
    using bid ask cnt side_ok_qty [OF inv(2) [unfolded bids_of_def] _ cnt(1)]
      side_ok_qty [OF inv(3) [unfolded asks_of_def] _ cnt(2)]
    by (auto simp: d_lt_def [of "lvl_price _"] side_key_def)
qed

theorem reachable_book_sorted_witness:
  "ob_bid_count (ApplyLevel (double_of_int 101) (double_of_int 5) False
      (ApplyLevel (double_of_int 100) (double_of_int 7) False book_zero)) = 2 \<and>
   d_lt (double_of_int 100) (double_of_int 101) \<and>
   lvl_price (ob_bids (ApplyLevel (double_of_int 101) (double_of_int 5) False
      (ApplyLevel (double_of_int 100) (double_of_int 7) False book_zero)) ! 0) = double_of_int 101 \<and>
   ob_bid_count (ApplyLevel (double_of_int 101) (double_of_int 5) False
      (ApplyLevel (double_of_int 100) (double_of_int 7) False book_zero)) \<le> kMaxOrderbookLevels"
proof -
  let ?b = "ApplyLevel (double_of_int 101) (double_of_int 5) False
      (ApplyLevel (double_of_int 100) (double_of_int 7) False book_zero)"
  have nn: "\<not> is_nan (double_of_int 101)" "\<not> is_nan (double_of_int 100)"
    "\<not> is_nan (double_of_int 5)" "\<not> is_nan (double_of_int 7)"
    by (rule d_key_double_of_int(2), simp)+
  have r: "reach_book ?b"
    by (intro reach_book.level reach_book.start nn)
  have c: "ob_bid_count ?b = 2" by code_simp
  have p: "lvl_price (ob_bids ?b ! 0) = double_of_int 101"
    "lvl_price (ob_bids ?b ! 1) = double_of_int 100"
    by code_simp+
  have "d_lt (lvl_price (ob_bids ?b ! 1)) (lvl_price (ob_bids ?b ! 0))"
    using reachable_book_sorted [OF r] c by simp
  then show ?thesis
    using reachable_book_sorted [OF r] c p by (simp only: simp_thms)
qed

text \<open>
  C7: \<open>ApplyLevel\<close> refines a finite map from price to quantity: a positive quantity inserts
  or replaces the entry of that price (unless the price is new and the side already holds
  100 levels, when nothing changes), any other quantity removes the entry, and the other
  side of the book is left alone.
\<close>
theorem ApplyLevel_refines_map:
  assumes "book_inv b" "\<not> is_nan price" "\<not> is_nan qty"
  shows "side_map (bids_of (ApplyLevel price qty False b)) =
           (if d_le qty d_zero then (side_map (bids_of b))(d_key price := None)
            else if d_key price \<in> dom (side_map (bids_of b)) \<or> ob_bid_count b < kMaxOrderbookLevels
            then (side_map (bids_of b))(d_key price \<mapsto> qty) else side_map (bids_of b)) \<and>
         side_map (asks_of (ApplyLevel price qty True b)) =
           (if d_le qty d_zero then (side_map (asks_of b))(d_key price := None)
            else if d_key price \<in> dom (side_map (asks_of b)) \<or> ob_ask_count b < kMaxOrderbookLevels
            then (side_map (asks_of b))(d_key price \<mapsto> qty) else side_map (asks_of b)) \<and>
         asks_of (ApplyLevel price qty False b) = asks_of b \<and>
         bids_of (ApplyLevel price qty True b) = bids_of b"
proof -
  have inv: "book_shape b" "side_ok False (bids_of b)" "side_ok True (asks_of b)"
    using assms(1) by (auto simp: book_inv_def)
  have "length (bids_of b) = ob_bid_count b" "length (asks_of b) = ob_ask_count b"
    using inv(1) by (auto simp: bids_of_def asks_of_def book_shape_def)
  then show ?thesis
    using inv side_map_update [OF inv(2) assms(2,3)] side_map_update [OF inv(3) assms(2,3)]
    by (simp add: book_simps)
qed

theorem ApplyLevel_refines_map_witness:
  "side_map (bids_of (ApplyLevel (double_of_int 100) (double_of_int 7) False book_zero))
     = [d_key (double_of_int 100) \<mapsto> double_of_int 7]"
proof -
  have nn: "\<not> is_nan (double_of_int 100)" "\<not> is_nan (double_of_int 7)"
    by (rule d_key_double_of_int(2), simp)+
  have "\<not> d_le (double_of_int 7) d_zero" using double_of_int_pos(2) [of 7] by simp
  moreover have "side_map (bids_of book_zero) = Map.empty" "ob_bid_count book_zero < kMaxOrderbookLevels"
    by (simp_all add: side_map_def bids_of_def book_zero_def kMaxOrderbookLevels_def)
  ultimately show ?thesis
    using ApplyLevel_refines_map [OF book_inv_zero nn] by simp
qed

text \<open>
  C18: A multi-part update is atomic and complete. While levels are buffered after
  \<open>BeginBatch\<close> the published sides do not change; \<open>CommitBatch\<close> then applies, in arrival
  order, the first 100 buffered bids and the first 100 buffered asks, and ends the batch
  with empty buffers.
\<close>
theorem batch_commit_atomic:
  assumes "book_shape b"
  shows "bids_of (buffer_levels us (BeginBatch b)) = bids_of b \<and>
    asks_of (buffer_levels us (BeginBatch b)) = asks_of b \<and>
    bids_of (CommitBatch (buffer_levels us (BeginBatch b)))
      = update_levels False (take kMaxOrderbookLevels [u. (u, a) \<leftarrow> us, \<not> a]) (bids_of b) \<and>
    asks_of (CommitBatch (buffer_levels us (BeginBatch b)))
      = update_levels True (take kMaxOrderbookLevels [u. (u, a) \<leftarrow> us, a]) (asks_of b) \<and>
    \<not> ob_batch_active (CommitBatch (buffer_levels us (BeginBatch b))) \<and>
    pending_bids_of (CommitBatch (buffer_levels us (BeginBatch b))) = [] \<and>
    pending_asks_of (CommitBatch (buffer_levels us (BeginBatch b))) = []"
  using buffer_levels_pending [of "BeginBatch b" us] assms by (simp add: book_simps)

theorem batch_commit_atomic_witness:
  "bids_of (CommitBatch (buffer_levels
      [(\<lparr>lvl_price = double_of_int 100, lvl_quantity = double_of_int 7\<rparr>, False),
       (\<lparr>lvl_price = double_of_int 102, lvl_quantity = double_of_int 3\<rparr>, True),
       (\<lparr>lvl_price = double_of_int 100, lvl_quantity = double_of_int 0\<rparr>, False)]
      (BeginBatch book_zero))) = []"
  using batch_commit_atomic
    [of book_zero "[(\<lparr>lvl_price = double_of_int 100, lvl_quantity = double_of_int 7\<rparr>, False),
       (\<lparr>lvl_price = double_of_int 102, lvl_quantity = double_of_int 3\<rparr>, True),
       (\<lparr>lvl_price = double_of_int 100, lvl_quantity = double_of_int 0\<rparr>, False)]"]
    book_inv_zero [unfolded book_inv_def]
  by (simp add: kMaxOrderbookLevels_def) code_simp

lemma update_levels_image:
  assumes "side_ok is_ask ls" "updates_ok us" "\<forall>u\<in>set us. d_lt d_zero (lvl_quantity u)"
    and "sorted_wrt (<) (map (side_key is_ask \<circ> lvl_price) (ls @ us))"
  shows "update_levels is_ask us ls = take kMaxOrderbookLevels (ls @ us)"
  using assms
proof (induction us arbitrary: ls)
  case Nil
  then show ?case by (simp add: side_ok_def)
next
  case (Cons u us)
  let ?ls = "take kMaxOrderbookLevels (ls @ [u])"
  have len: "length ls \<le> kMaxOrderbookLevels" using Cons.prems(1) by (simp add: side_ok_def)
  have "\<forall>l\<in>set ls. side_key is_ask (lvl_price l) < side_key is_ask (lvl_price u)"
    using Cons.prems(4) by (simp add: sorted_wrt_append)
  then have step: "level_update is_ask (lvl_price u) (lvl_quantity u) ls = ?ls"
    using level_update_append [OF Cons.prems(1), of "lvl_price u" "lvl_quantity u"] Cons.prems(2,3)
    by (simp add: updates_ok_def del: take_append)
  have ok: "side_ok is_ask ?ls"
    unfolding step [symmetric] using Cons.prems(1,2) by (intro level_update_ok) (auto simp: updates_ok_def)
  have "sorted_wrt (<) (map (side_key is_ask \<circ> lvl_price) (?ls @ us))"
    using Cons.prems(4) ok
    by (auto simp: sorted_wrt_append side_ok_def comp_def dest!: in_set_takeD simp del: take_append)
  then show ?case
    using Cons.IH [OF ok] Cons.prems(2,3) step len
    by (simp add: updates_ok_def take_take_snoc comp_def del: take_append)
qed

text \<open>
  C19: A full image of one side replaces that side whatever it held before, keeping the first
  100 quotes with a positive size, and leaves the other side alone. For a sorted image
  the result is the same as feeding the positive quotes one by one through \<open>ApplyLevel\<close>
  into an empty side, although \<open>ApplyImage\<close> tests the integer size and \<open>ApplyLevel\<close> the
  converted double.
\<close>
theorem ApplyImage_replaces_side:
  assumes "book_shape b" "image_ok is_ask quotes"
  shows "(if is_ask then asks_of else bids_of) (ApplyImage quotes is_ask b)
           = take kMaxOrderbookLevels (image_levels quotes) \<and>
         (if is_ask then bids_of else asks_of) (ApplyImage quotes is_ask b)
           = (if is_ask then bids_of else asks_of) b \<and>
         (if is_ask then asks_of else bids_of) (ApplyImage quotes is_ask b)
           = (if is_ask then asks_of else bids_of)
               (apply_levels is_ask (image_levels quotes) (Clear b))"
proof -
  have clear: "bids_of (Clear b) = []" "asks_of (Clear b) = []" "book_shape (Clear b)"
    using assms(1) by (auto simp: Clear_def bids_of_def asks_of_def book_shape_def)
  have pos: "updates_ok (image_levels quotes)" "\<forall>u\<in>set (image_levels quotes). d_lt d_zero (lvl_quantity u)"
    using assms(2)
    by (auto simp: image_ok_def image_levels_def updates_ok_def double_of_int_pos d_key_double_of_int(2))
  have "sorted_wrt (<) (map (side_key is_ask \<circ> lvl_price) (image_levels quotes))"
    using sorted_map_filter [of "side_key is_ask \<circ> fst" quotes "\<lambda>(p, sz). 0 < sz"] assms(2)
    by (simp add: image_ok_def image_levels_def comp_def case_prod_unfold)
  then have "update_levels is_ask (image_levels quotes) [] = take kMaxOrderbookLevels (image_levels quotes)"
    using update_levels_image [OF _ pos, of is_ask "[]"] by (simp add: side_ok_def)
  then show ?thesis
    using assms(1) clear by (cases is_ask) (simp_all add: book_simps)
qed

theorem ApplyImage_replaces_side_witness:
  "bids_of (ApplyImage [(double_of_int 101, 4), (double_of_int 100, 0), (double_of_int 99, 2)] False
      (ApplyLevel (double_of_int 50) (double_of_int 7) False book_zero))
    = [\<lparr>lvl_price = double_of_int 101, lvl_quantity = double_of_int 4\<rparr>,
       \<lparr>lvl_price = double_of_int 99, lvl_quantity = double_of_int 2\<rparr>]"
proof -
  have "image_ok False [(double_of_int 101, 4), (double_of_int 100, 0), (double_of_int 99, 2)]"
    by code_simp
  moreover have "book_shape (ApplyLevel (double_of_int 50) (double_of_int 7) False book_zero)"
    using book_inv_zero by (intro ApplyLevel_sides) (simp add: book_inv_def)
  ultimately show ?thesis
    using ApplyImage_replaces_side
      [of "ApplyLevel (double_of_int 50) (double_of_int 7) False book_zero" False
        "[(double_of_int 101, 4), (double_of_int 100, 0), (double_of_int 99, 2)]"]
    by (simp add: image_levels_def kMaxOrderbookLevels_def)
qed

text \<open>
  C20: A snapshot taken into a fresh event carries the book exactly: the channel, the
  timestamp passed in, the symbol, both counts and, at every index below the count, the
  level of the book; the remaining slots of the event stay zero.
\<close>
theorem SnapshotTo_exact:
  assumes "book_shape b"
  shows "SnapshotTo b depth_zero ts =
    \<lparr>dep_last_update_id = 0, dep_channel_id = ob_channel_id b, dep_exchange_timestamp = ts,
     dep_local_diff = 0, dep_symbol = dep_symbol (SnapshotTo b depth_zero ts),
     dep_bids = bids_of b @ replicate (kMaxOrderbookLevels - ob_bid_count b) level_zero,
     dep_asks = asks_of b @ replicate (kMaxOrderbookLevels - ob_ask_count b) level_zero,
     dep_bid_count = length (bids_of b), dep_ask_count = length (asks_of b)\<rparr> \<and>
    c_str (dep_symbol (SnapshotTo b depth_zero ts)) = take 11 (c_str (ob_symbol b)) \<and>
    length (dep_symbol (SnapshotTo b depth_zero ts)) = 12"
proof -
  have len: "length (ob_symbol b) = 12" using assms by (simp add: book_shape_def)
  have "length symbol_zero = 12" by (simp add: symbol_zero_def)
  from copy_symbol_loop_defined [OF len this]
  obtain s where s: "copy_symbol_loop (ob_symbol b) symbol_zero 0 = Some s"
    "length s = 12" "c_str s = take 11 (c_str (ob_symbol b))" by blast
  then show ?thesis
    using assms
    by (simp add: SnapshotTo_def depth_zero_def copy_levels_eq bids_of_def asks_of_def book_shape_def)
qed

theorem SnapshotTo_exact_witness:
  "dep_bids (SnapshotTo book_zero depth_zero 5) = replicate 100 level_zero \<and>
   c_str (dep_symbol (SnapshotTo book_zero depth_zero 5)) = []"
  using SnapshotTo_exact [of book_zero 5] book_inv_zero [unfolded book_inv_def]
  by (simp add: SnapshotTo_def book_zero_def bids_of_def kMaxOrderbookLevels_def c_str_def
      symbol_zero_def copy_levels_def depth_zero_def)

end
