(* ===== verification/Fifo_Queue.thy ===== *)
theory Fifo_Queue
  imports Prelude
begin

text \<open>
  The contract of the queues that connect the threads of the collector, as two locales. A
  queue is abstracted to the list of its items. \<open>fifo_queue\<close> promises what happens when there
  is room and how items leave; \<open>bounded_fifo\<close> adds that pushing into a full queue is refused
  and changes nothing. The invariant carries a budget of further pushes, because one of the
  implementations compares its free-running counters and is only correct before they wrap.
  Histories of operations and draining loops are analysed once, here, and reused for every
  implementation.
\<close>

section \<open>Histories\<close>

datatype 'a queue_op = Enq 'a | Deq

text \<open>Runs a history; returns the accepted items, the popped items and the final queue.\<close>
fun queue_run ::
  "('a \<Rightarrow> 'q \<Rightarrow> bool \<times> 'q) \<Rightarrow> ('q \<Rightarrow> ('a \<times> 'q) option) \<Rightarrow> 'a queue_op list \<Rightarrow> 'q \<Rightarrow>
   'a list \<times> 'a list \<times> 'q" where
  "queue_run push pop [] q = ([], [], q)"
| "queue_run push pop (Enq x # ops) q =
     (let (ok, q') = push x q; (acc, out, q'') = queue_run push pop ops q'
      in (if ok then x # acc else acc, out, q''))"
| "queue_run push pop (Deq # ops) q =
     (case pop q of
        None \<Rightarrow> queue_run push pop ops q
      | Some (x, q') \<Rightarrow>
          (let (acc, out, q'') = queue_run push pop ops q' in (acc, x # out, q'')))"

fun pushes :: "'a queue_op list \<Rightarrow> nat" where
  "pushes [] = 0"
| "pushes (Enq x # ops) = Suc (pushes ops)"
| "pushes (Deq # ops) = pushes ops"

text \<open>Pops at most \<open>n\<close> items.\<close>
fun queue_drain :: "('q \<Rightarrow> ('a \<times> 'q) option) \<Rightarrow> nat \<Rightarrow> 'q \<Rightarrow> 'a list \<times> 'q" where
  "queue_drain pop 0 q = ([], q)"
| "queue_drain pop (Suc n) q =
     (case pop q of
        None \<Rightarrow> ([], q)
      | Some (x, q') \<Rightarrow> (let (xs, q'') = queue_drain pop n q' in (x # xs, q'')))"

section \<open>Interfaces\<close>

locale fifo_queue =
  fixes invar :: "nat \<Rightarrow> 'q \<Rightarrow> bool"
    and items :: "'q \<Rightarrow> 'a list"
    and cap :: "'q \<Rightarrow> nat"
    and push :: "'a \<Rightarrow> 'q \<Rightarrow> bool \<times> 'q"
    and pop :: "'q \<Rightarrow> ('a \<times> 'q) option"
  assumes items_bound: "invar n q \<Longrightarrow> length (items q) \<le> cap q"
    and invar_mono: "invar n q \<Longrightarrow> m \<le> n \<Longrightarrow> invar m q"
    and push_room: "invar (Suc n) q \<Longrightarrow> length (items q) < cap q \<Longrightarrow>
      \<exists>q'. push x q = (True, q') \<and> invar n q' \<and> items q' = items q @ [x] \<and> cap q' = cap q"
    and pop_empty: "invar n q \<Longrightarrow> items q = [] \<Longrightarrow> pop q = None"
    and pop_item: "invar n q \<Longrightarrow> items q = x # xs \<Longrightarrow>
      \<exists>q'. pop q = Some (x, q') \<and> invar n q' \<and> items q' = xs \<and> cap q' = cap q"
begin

lemma drain_items:
  "invar b q \<Longrightarrow> \<exists>q'. queue_drain pop n q = (take n (items q), q') \<and>
     items q' = drop n (items q) \<and> invar b q' \<and> cap q' = cap q"
proof (induction n arbitrary: q)
  case (Suc n)
  show ?case
  proof (cases "items q")
    case Nil
    then show ?thesis using Suc.prems pop_empty by simp
  next
    case (Cons x xs)
    then obtain q' where "pop q = Some (x, q')" "invar b q'" "items q' = xs" "cap q' = cap q"
      using Suc.prems pop_item by blast
    with Suc.IH [of q'] show ?thesis using Cons by auto
  qed
qed simp

lemma drain_all:
  "invar b q \<Longrightarrow> length (items q) \<le> n \<Longrightarrow>
   fst (queue_drain pop n q) = items q \<and> items (snd (queue_drain pop n q)) = []"
  using drain_items [of b q n] by auto

lemma pop_none_iff: "invar n q \<Longrightarrow> pop q = None \<longleftrightarrow> items q = []"
  using pop_empty pop_item by (cases "items q") fastforce+

end

locale bounded_fifo = fifo_queue invar items cap push pop
  for invar :: "nat \<Rightarrow> 'q \<Rightarrow> bool"
    and items :: "'q \<Rightarrow> 'a list"
    and cap :: "'q \<Rightarrow> nat"
    and push :: "'a \<Rightarrow> 'q \<Rightarrow> bool \<times> 'q"
    and pop :: "'q \<Rightarrow> ('a \<times> 'q) option" +
  assumes push_full: "invar n q \<Longrightarrow> length (items q) = cap q \<Longrightarrow> push x q = (False, q)"
begin

lemma push_iff: "invar (Suc n) q \<Longrightarrow> fst (push x q) \<longleftrightarrow> length (items q) < cap q"
  using push_room [of n q x] push_full [of "Suc n" q x] items_bound [of "Suc n" q]
  by (cases "length (items q) < cap q") auto

text \<open>Everything accepted leaves once, in order; nothing else leaves.\<close>

lemma run_fifo:
  assumes "invar b q" "pushes ops \<le> b" "queue_run push pop ops q = (acc, out, q')"
  shows "items q @ acc = out @ items q' \<and> invar (b - pushes ops) q' \<and> cap q' = cap q"
  using assms
proof (induction ops arbitrary: q acc out b)
  case (Cons op ops)
  show ?case
  proof (cases op)
    case (Enq x)
    obtain ok q1 where p: "push x q = (ok, q1)" by (cases "push x q")
    obtain acc1 where r: "queue_run push pop ops q1 = (acc1, out, q')"
      and acc: "acc = (if ok then x # acc1 else acc1)"
      using Cons.prems(3) Enq p by (auto simp: Let_def split: prod.splits)
    obtain c where c: "b = Suc c" using Cons.prems(2) Enq by (cases b) auto
    show ?thesis
    proof (cases "length (items q) < cap q")
      case True
      then have "ok" "invar c q1" "items q1 = items q @ [x]" "cap q1 = cap q"
        using push_room [of c q x] Cons.prems(1) c p by auto
      then show ?thesis
        using Cons.IH [of c q1 acc1 out] r acc Cons.prems(2) c Enq by auto
    next
      case False
      then have "\<not> ok" "q1 = q"
        using push_full [of b q x] items_bound [of b q] Cons.prems(1) p by auto
      then show ?thesis
        using Cons.IH [of b q acc1 out] r acc Cons.prems(1,2) Enq
        by (auto intro: invar_mono [of "b - pushes ops"])
    qed
  next
    case Deq
    show ?thesis
    proof (cases "items q")
      case Nil
      then show ?thesis
        using Cons.IH [of b q acc out] Cons.prems Deq pop_empty [of b q] by simp
    next
      case it: (Cons y ys)
      then obtain q1 where q1: "pop q = Some (y, q1)" "invar b q1" "items q1 = ys" "cap q1 = cap q"
        using pop_item Cons.prems(1) by blast
      obtain out1 where "queue_run push pop ops q1 = (acc, out1, q')" "out = y # out1"
        using Cons.prems(3) Deq q1(1) by (auto simp: Let_def split: prod.splits)
      then show ?thesis
        using Cons.IH [of b q1 acc out1] q1 Cons.prems(2) Deq it by simp
    qed
  qed
qed auto

end

end
