(* ===== verification/Spsc_Queue.thy ===== *)
theory Spsc_Queue
  imports Fifo_Queue
begin

text \<open>
  \<open>SPSCQueue\<close> of \<open>src/common/spsc_queue.h\<close>: a power-of-two ring whose 64-bit counters run
  freely and wrap. The operations are modelled twice: as the functions a single thread sees
  (\<open>try_push\<close>, \<open>try_pop\<close>), and as a step relation in which one producer and one consumer
  interleave at every load and store of the source. The acquire/release pairs of the source
  make these executions sequentially consistent for one producer and one consumer, so the
  relation interleaves on a single shared state.
\<close>

section \<open>Operations\<close>

record 'a SPSCQueue =
  spsc_slots :: "'a list"
  spsc_write_pos :: u64
  spsc_read_pos :: u64

definition spsc_new :: "'a \<Rightarrow> nat \<Rightarrow> 'a SPSCQueue" where
  "spsc_new d k = \<lparr>spsc_slots = replicate (2 ^ k) d, spsc_write_pos = 0, spsc_read_pos = 0\<rparr>"

definition kCapacity :: "'a SPSCQueue \<Rightarrow> u64" where
  "kCapacity q = of_nat (length (spsc_slots q))"

definition kMask :: "'a SPSCQueue \<Rightarrow> u64" where
  "kMask q = kCapacity q - 1"

definition try_push :: "'a \<Rightarrow> 'a SPSCQueue \<Rightarrow> bool \<times> 'a SPSCQueue" where
  "try_push item q =
     (let w = spsc_write_pos q; r = spsc_read_pos q in
      if kCapacity q \<le> w - r then (False, q)
      else (True, q\<lparr>spsc_slots := (spsc_slots q)[unat (w AND kMask q) := item],
                    spsc_write_pos := w + 1\<rparr>))"

definition try_pop :: "'a SPSCQueue \<Rightarrow> ('a \<times> 'a SPSCQueue) option" where
  "try_pop q =
     (let r = spsc_read_pos q; w = spsc_write_pos q in
      if r = w then None
      else Some (spsc_slots q ! unat (r AND kMask q), q\<lparr>spsc_read_pos := r + 1\<rparr>))"

section \<open>Abstraction\<close>

definition spsc_len :: "'a SPSCQueue \<Rightarrow> nat" where
  "spsc_len q = unat (spsc_write_pos q - spsc_read_pos q)"

definition spsc_items :: "'a SPSCQueue \<Rightarrow> 'a list" where
  "spsc_items q = ring_contents (spsc_slots q) (spsc_read_pos q) (spsc_len q)"

definition spsc_cap :: "'a SPSCQueue \<Rightarrow> nat" where
  "spsc_cap q = length (spsc_slots q)"

definition spsc_inv :: "'a SPSCQueue \<Rightarrow> bool" where
  "spsc_inv q \<longleftrightarrow> (\<exists>k<64. length (spsc_slots q) = 2 ^ k) \<and> spsc_len q \<le> spsc_cap q"

section \<open>The interleaved executions\<close>

text \<open>Program counters of the two threads, with the values they have read so far.\<close>

datatype 'a producer_pc =
  P_Idle
| P_LoadedW 'a u64
| P_LoadedR 'a u64 u64
| P_Stored 'a u64

datatype consumer_pc =
  C_Idle
| C_LoadedR u64
| C_LoadedW u64 u64

datatype 'a consumer_state = At consumer_pc | Got 'a u64

record 'a spsc_sys =
  sys_q :: "'a SPSCQueue"
  sys_prod :: "'a producer_pc"
  sys_cons :: "'a consumer_state"
  sys_pushed :: "'a list"
  sys_popped :: "'a list"

inductive spsc_step :: "'a spsc_sys \<Rightarrow> 'a spsc_sys \<Rightarrow> bool" where
  push_load_w: "sys_prod s = P_Idle \<Longrightarrow>
     spsc_step s (s\<lparr>sys_prod := P_LoadedW item (spsc_write_pos (sys_q s))\<rparr>)"
| push_load_r: "sys_prod s = P_LoadedW item w \<Longrightarrow>
     spsc_step s (s\<lparr>sys_prod := P_LoadedR item w (spsc_read_pos (sys_q s))\<rparr>)"
| push_full: "sys_prod s = P_LoadedR item w r \<Longrightarrow> kCapacity (sys_q s) \<le> w - r \<Longrightarrow>
     spsc_step s (s\<lparr>sys_prod := P_Idle\<rparr>)"
| push_store: "sys_prod s = P_LoadedR item w r \<Longrightarrow> \<not> kCapacity (sys_q s) \<le> w - r \<Longrightarrow>
     spsc_step s (s\<lparr>sys_prod := P_Stored item w,
       sys_q := (sys_q s)\<lparr>spsc_slots :=
         (spsc_slots (sys_q s))[unat (w AND kMask (sys_q s)) := item]\<rparr>\<rparr>)"
| push_publish: "sys_prod s = P_Stored item w \<Longrightarrow>
     spsc_step s (s\<lparr>sys_prod := P_Idle, sys_pushed := sys_pushed s @ [item],
       sys_q := (sys_q s)\<lparr>spsc_write_pos := w + 1\<rparr>\<rparr>)"
| pop_load_r: "sys_cons s = At C_Idle \<Longrightarrow>
     spsc_step s (s\<lparr>sys_cons := At (C_LoadedR (spsc_read_pos (sys_q s)))\<rparr>)"
| pop_load_w: "sys_cons s = At (C_LoadedR r) \<Longrightarrow>
     spsc_step s (s\<lparr>sys_cons := At (C_LoadedW r (spsc_write_pos (sys_q s)))\<rparr>)"
| pop_empty: "sys_cons s = At (C_LoadedW r w) \<Longrightarrow> r = w \<Longrightarrow>
     spsc_step s (s\<lparr>sys_cons := At C_Idle\<rparr>)"
| pop_read: "sys_cons s = At (C_LoadedW r w) \<Longrightarrow> r \<noteq> w \<Longrightarrow>
     spsc_step s (s\<lparr>sys_cons := Got (spsc_slots (sys_q s) ! unat (r AND kMask (sys_q s))) r\<rparr>)"
| pop_advance: "sys_cons s = Got x r \<Longrightarrow>
     spsc_step s (s\<lparr>sys_cons := At C_Idle, sys_popped := sys_popped s @ [x],
       sys_q := (sys_q s)\<lparr>spsc_read_pos := r + 1\<rparr>\<rparr>)"

definition spsc_start :: "'a \<Rightarrow> nat \<Rightarrow> 'a spsc_sys" where
  "spsc_start d k = \<lparr>sys_q = spsc_new d k, sys_prod = P_Idle, sys_cons = At C_Idle,
     sys_pushed = [], sys_popped = []\<rparr>"

text \<open>What each thread knows about the shared state at its program counter.\<close>

fun producer_ok :: "'a SPSCQueue \<Rightarrow> 'a producer_pc \<Rightarrow> bool" where
  "producer_ok q P_Idle = True"
| "producer_ok q (P_LoadedW x w) = (w = spsc_write_pos q)"
| "producer_ok q (P_LoadedR x w r) = (w = spsc_write_pos q \<and> spsc_len q \<le> unat (w - r))"
| "producer_ok q (P_Stored x w) =
     (w = spsc_write_pos q \<and> spsc_len q < spsc_cap q \<and> spsc_slots q ! unat (w AND kMask q) = x)"

fun consumer_ok :: "'a SPSCQueue \<Rightarrow> 'a consumer_state \<Rightarrow> bool" where
  "consumer_ok q (At C_Idle) = True"
| "consumer_ok q (At (C_LoadedR r)) = (r = spsc_read_pos q)"
| "consumer_ok q (At (C_LoadedW r w)) = (r = spsc_read_pos q \<and> unat (w - r) \<le> spsc_len q)"
| "consumer_ok q (Got x r) =
     (r = spsc_read_pos q \<and> spsc_len q \<noteq> 0 \<and> x = spsc_slots q ! unat (r AND kMask q))"

definition spsc_sys_inv :: "'a spsc_sys \<Rightarrow> bool" where
  "spsc_sys_inv s \<longleftrightarrow> spsc_inv (sys_q s) \<and>
     sys_pushed s = sys_popped s @ spsc_items (sys_q s) \<and>
     producer_ok (sys_q s) (sys_prod s) \<and> consumer_ok (sys_q s) (sys_cons s)"

section \<open>The sequential operations are a bounded FIFO queue\<close>

lemma spsc_mask_index:
  "k < 64 \<Longrightarrow> length (spsc_slots q) = 2 ^ k \<Longrightarrow>
   unat (w AND kMask q) = unat w mod length (spsc_slots q)"
  using word_mask_index [of k w] by (simp add: kMask_def kCapacity_def)

lemma spsc_full_iff:
  "k < 64 \<Longrightarrow> length (spsc_slots q) = 2 ^ k \<Longrightarrow>
   kCapacity q \<le> x \<longleftrightarrow> length (spsc_slots q) \<le> unat x"
proof -
  assume "k < 64" and len: "length (spsc_slots q) = 2 ^ k"
  then have "(2::nat) ^ k < 2 ^ 64" by (intro power_strict_increasing) auto
  then have "unat (of_nat (2 ^ k) :: u64) = 2 ^ k"
    by (subst unat_of_nat) simp
  then show ?thesis by (simp only: kCapacity_def len word_le_nat_alt)
qed

lemma unat_diff_Suc:
  fixes w r :: u64
  assumes "unat (w - r) < 2 ^ 63"
  shows "unat (w + 1 - r) = Suc (unat (w - r))"
proof -
  have "w + 1 - r = (w - r) + 1" by simp
  moreover have "unat ((w - r) + 1) = Suc (unat (w - r))"
    using assms by (subst unat_word_ariths) simp
  ultimately show ?thesis by (simp only:)
qed

lemma unat_diff_advance:
  fixes w r :: u64
  assumes "unat (w - r) = Suc n"
  shows "unat (w - (r + 1)) = n"
proof -
  have "w - (r + 1) = (w - r) - 1" by simp
  moreover have "unat ((w - r) - 1) = unat (w - r) - 1"
    using assms by (intro unat_minus_one) auto
  ultimately show ?thesis using assms by (simp only: diff_Suc_1)
qed

lemma word_pos_of_len: "(r :: u64) + of_nat (unat (w - r)) = w"
  by simp

lemma spsc_len_bound:
  assumes "spsc_inv q"
  shows "spsc_len q \<le> 2 ^ 63"
proof -
  obtain k where "k < 64" "length (spsc_slots q) = 2 ^ k" "spsc_len q \<le> 2 ^ k"
    using assms by (auto simp: spsc_inv_def spsc_cap_def)
  moreover from \<open>k < 64\<close> have "(2::nat) ^ k \<le> 2 ^ 63" by (intro power_increasing) auto
  ultimately show ?thesis by linarith
qed

lemma length_spsc_items [simp]: "length (spsc_items q) = spsc_len q"
  by (simp add: spsc_items_def)

text \<open>Writing the slot behind the last item and then advancing the counter appends.\<close>

lemma spsc_store_publish:
  assumes inv: "spsc_inv q" and room: "spsc_len q < spsc_cap q"
  shows "spsc_items (q\<lparr>spsc_slots := (spsc_slots q)[unat (spsc_write_pos q AND kMask q) := x],
                        spsc_write_pos := spsc_write_pos q + 1\<rparr>) = spsc_items q @ [x]"
    "spsc_inv (q\<lparr>spsc_slots := (spsc_slots q)[unat (spsc_write_pos q AND kMask q) := x],
                  spsc_write_pos := spsc_write_pos q + 1\<rparr>)"
proof -
  obtain k where k: "k < 64" "length (spsc_slots q) = 2 ^ k" using inv by (auto simp: spsc_inv_def)
  have "unat (spsc_write_pos q - spsc_read_pos q) < 2 ^ 63"
    using spsc_len_bound [OF inv] room power_increasing [of k 63 "2::nat"] k
    by (simp add: spsc_len_def spsc_cap_def)
  then have len: "spsc_len (q\<lparr>spsc_slots := ss, spsc_write_pos := spsc_write_pos q + 1\<rparr>)
      = Suc (spsc_len q)" for ss
    using unat_diff_Suc by (simp add: spsc_len_def)
  have w: "spsc_write_pos q = spsc_read_pos q + of_nat (spsc_len q)"
    by (simp add: spsc_len_def)
  show "spsc_items (q\<lparr>spsc_slots := (spsc_slots q)[unat (spsc_write_pos q AND kMask q) := x],
                        spsc_write_pos := spsc_write_pos q + 1\<rparr>) = spsc_items q @ [x]"
    using ring_contents_push [OF k(2,1), of "spsc_len q" "spsc_read_pos q" x] room len
      spsc_mask_index [OF k, of "spsc_write_pos q"] w
    by (simp add: spsc_items_def spsc_cap_def)
  show "spsc_inv (q\<lparr>spsc_slots := (spsc_slots q)[unat (spsc_write_pos q AND kMask q) := x],
                  spsc_write_pos := spsc_write_pos q + 1\<rparr>)"
    using k room len by (auto simp: spsc_inv_def spsc_cap_def)
qed

text \<open>The slot behind the last item is not part of the contents.\<close>

lemma spsc_store_invisible:
  assumes inv: "spsc_inv q" and room: "spsc_len q < spsc_cap q" and i: "i < spsc_len q"
  shows "(spsc_slots q)[unat (spsc_write_pos q AND kMask q) := x]
           ! (unat (spsc_read_pos q + of_nat i) mod length (spsc_slots q))
         = spsc_slots q ! (unat (spsc_read_pos q + of_nat i) mod length (spsc_slots q))"
proof -
  obtain k where k: "k < 64" "length (spsc_slots q) = 2 ^ k" using inv by (auto simp: spsc_inv_def)
  have w: "spsc_write_pos q = spsc_read_pos q + of_nat (spsc_len q)"
    by (simp add: spsc_len_def)
  have "unat (spsc_write_pos q AND kMask q) = (unat (spsc_read_pos q) + spsc_len q) mod 2 ^ k"
    using spsc_mask_index [OF k] unat_add_of_nat_mod [OF k(1)] k(2) w by metis
  moreover have "unat (spsc_read_pos q + of_nat i) mod length (spsc_slots q)
      = (unat (spsc_read_pos q) + i) mod 2 ^ k"
    using unat_add_of_nat_mod [OF k(1)] k(2) by simp
  ultimately show ?thesis
    using mod_neq_of_lt [OF i, of "2 ^ k" "unat (spsc_read_pos q)"] room k
    by (simp add: spsc_cap_def nth_list_update_neq)
qed

lemma spsc_store_items:
  assumes "spsc_inv q" "spsc_len q < spsc_cap q"
  shows "spsc_items (q\<lparr>spsc_slots := (spsc_slots q)[unat (spsc_write_pos q AND kMask q) := x]\<rparr>)
           = spsc_items q"
  using spsc_store_invisible [OF assms, of _ x]
  by (simp add: spsc_items_def ring_contents_def spsc_len_def)

lemma spsc_advance:
  assumes inv: "spsc_inv q" and ne: "spsc_len q \<noteq> 0"
  shows "spsc_items q = spsc_slots q ! unat (spsc_read_pos q AND kMask q)
           # spsc_items (q\<lparr>spsc_read_pos := spsc_read_pos q + 1\<rparr>)"
    "spsc_inv (q\<lparr>spsc_read_pos := spsc_read_pos q + 1\<rparr>)"
proof -
  obtain k where k: "k < 64" "length (spsc_slots q) = 2 ^ k" using inv by (auto simp: spsc_inv_def)
  obtain n where n: "spsc_len q = Suc n" using ne by (cases "spsc_len q") auto
  then have len: "spsc_len (q\<lparr>spsc_read_pos := spsc_read_pos q + 1\<rparr>) = n"
    using unat_diff_advance by (simp add: spsc_len_def)
  show "spsc_items q = spsc_slots q ! unat (spsc_read_pos q AND kMask q)
           # spsc_items (q\<lparr>spsc_read_pos := spsc_read_pos q + 1\<rparr>)"
    using n len spsc_mask_index [OF k] by (simp add: spsc_items_def ring_simps)
  show "spsc_inv (q\<lparr>spsc_read_pos := spsc_read_pos q + 1\<rparr>)"
    using inv n len by (auto simp: spsc_inv_def spsc_cap_def)
qed

lemma spsc_len_0_iff: "spsc_len q = 0 \<longleftrightarrow> spsc_read_pos q = spsc_write_pos q"
  by (auto simp: spsc_len_def unat_eq_0)

interpretation spsc: bounded_fifo "\<lambda>_. spsc_inv" spsc_items spsc_cap try_push try_pop
proof unfold_locales
  fix q :: "'a SPSCQueue" and x n
  assume inv: "spsc_inv q" and room: "length (spsc_items q) < spsc_cap q"
  obtain k where "k < 64" "length (spsc_slots q) = 2 ^ k" using inv by (auto simp: spsc_inv_def)
  from spsc_full_iff [OF this] room
  have "\<not> kCapacity q \<le> spsc_write_pos q - spsc_read_pos q"
    by (simp add: spsc_len_def spsc_cap_def)
  then show "\<exists>q'. try_push x q = (True, q') \<and> spsc_inv q' \<and> spsc_items q' = spsc_items q @ [x] \<and> spsc_cap q' = spsc_cap q"
    using spsc_store_publish [OF inv, of x] room by (simp add: try_push_def Let_def spsc_cap_def)
next
  fix q :: "'a SPSCQueue" and x n
  assume inv: "spsc_inv q" and full: "length (spsc_items q) = spsc_cap q"
  obtain k where "k < 64" "length (spsc_slots q) = 2 ^ k" using inv by (auto simp: spsc_inv_def)
  from spsc_full_iff [OF this] full
  show "try_push x q = (False, q)"
    by (simp add: try_push_def Let_def spsc_len_def spsc_cap_def)
next
  fix q :: "'a SPSCQueue" and x xs n
  assume inv: "spsc_inv q" and it: "spsc_items q = x # xs"
  then have "spsc_len q \<noteq> 0" by (metis length_spsc_items list.size(3) neq_Nil_conv length_0_conv)
  then show "\<exists>q'. try_pop q = Some (x, q') \<and> spsc_inv q' \<and> spsc_items q' = xs \<and> spsc_cap q' = spsc_cap q"
    using spsc_advance [OF inv] it spsc_len_0_iff [of q]
    by (auto simp: try_pop_def Let_def spsc_cap_def)
next
  fix q :: "'a SPSCQueue" and n
  assume "spsc_items q = []"
  then have "spsc_len q = 0" by (metis length_spsc_items list.size(3))
  then show "try_pop q = None" by (simp add: try_pop_def spsc_len_0_iff)
qed (auto simp: spsc_inv_def)

section \<open>Invariant of the interleaved executions\<close>

lemma kMask_simps [simp]:
  "kMask (q\<lparr>spsc_write_pos := w\<rparr>) = kMask q" "kMask (q\<lparr>spsc_read_pos := r\<rparr>) = kMask q"
  "length ss = length (spsc_slots q) \<Longrightarrow> kMask (q\<lparr>spsc_slots := ss\<rparr>) = kMask q"
  by (simp_all add: kMask_def kCapacity_def)

lemma spsc_mask_less:
  assumes "spsc_inv q"
  shows "unat (w AND kMask q) < length (spsc_slots q)"
proof -
  obtain k where "k < 64" "length (spsc_slots q) = 2 ^ k" using assms by (auto simp: spsc_inv_def)
  then show ?thesis using spsc_mask_index [of k q w] by simp
qed

lemma spsc_publish:
  assumes "spsc_inv q" "spsc_len q < spsc_cap q" "spsc_slots q ! unat (spsc_write_pos q AND kMask q) = x"
  shows "spsc_items (q\<lparr>spsc_write_pos := spsc_write_pos q + 1\<rparr>) = spsc_items q @ [x]"
    "spsc_inv (q\<lparr>spsc_write_pos := spsc_write_pos q + 1\<rparr>)"
proof -
  have "(spsc_slots q)[unat (spsc_write_pos q AND kMask q) := x] = spsc_slots q"
    using assms(3) by (simp add: list_update_same_conv spsc_mask_less [OF assms(1)])
  then have "q\<lparr>spsc_slots := (spsc_slots q)[unat (spsc_write_pos q AND kMask q) := x],
      spsc_write_pos := spsc_write_pos q + 1\<rparr> = q\<lparr>spsc_write_pos := spsc_write_pos q + 1\<rparr>"
    by simp
  then show "spsc_items (q\<lparr>spsc_write_pos := spsc_write_pos q + 1\<rparr>) = spsc_items q @ [x]"
    "spsc_inv (q\<lparr>spsc_write_pos := spsc_write_pos q + 1\<rparr>)"
    using spsc_store_publish [OF assms(1,2), of x] by simp_all
qed

lemma consumer_ok_store:
  assumes "spsc_inv q" "spsc_len q < spsc_cap q" "consumer_ok q c"
  shows "consumer_ok (q\<lparr>spsc_slots := (spsc_slots q)[unat (spsc_write_pos q AND kMask q) := x]\<rparr>) c"
proof -
  obtain k where k: "k < 64" "length (spsc_slots q) = 2 ^ k"
    using assms(1) by (auto simp: spsc_inv_def)
  have "spsc_len q \<noteq> 0 \<Longrightarrow> (spsc_slots q)[unat (spsc_write_pos q AND kMask q) := x]
      ! unat (spsc_read_pos q AND kMask q) = spsc_slots q ! unat (spsc_read_pos q AND kMask q)"
    using spsc_store_invisible [OF assms(1,2), of 0 x] spsc_mask_index [OF k] by simp
  then show ?thesis
    using assms(3) by (cases "(q, c)" rule: consumer_ok.cases) (auto simp: spsc_len_def)
qed

lemma consumer_ok_publish:
  assumes "spsc_inv q" "spsc_len q < spsc_cap q" "consumer_ok q c"
    and "spsc_slots q ! unat (spsc_write_pos q AND kMask q) = x"
  shows "consumer_ok (q\<lparr>spsc_write_pos := spsc_write_pos q + 1\<rparr>) c"
proof -
  have "spsc_len (q\<lparr>spsc_write_pos := spsc_write_pos q + 1\<rparr>) = Suc (spsc_len q)"
    using arg_cong [OF spsc_publish(1) [OF assms(1,2,4)], of length] by simp
  then show ?thesis
    using assms(3) by (cases "(q, c)" rule: consumer_ok.cases) auto
qed

lemma producer_ok_advance:
  assumes "spsc_inv q" "spsc_len q \<noteq> 0" "producer_ok q p"
  shows "producer_ok (q\<lparr>spsc_read_pos := spsc_read_pos q + 1\<rparr>) p"
proof -
  have "Suc (spsc_len (q\<lparr>spsc_read_pos := spsc_read_pos q + 1\<rparr>)) = spsc_len q"
    using arg_cong [OF spsc_advance(1) [OF assms(1,2)], of length] by simp
  then show ?thesis
    using assms(3) by (cases "(q, p)" rule: producer_ok.cases) (auto simp: spsc_cap_def)
qed

lemma spsc_step_inv: "spsc_step s s' \<Longrightarrow> spsc_sys_inv s \<Longrightarrow> spsc_sys_inv s'"
proof (induction rule: spsc_step.induct)
  case (push_store s item w r)
  let ?q = "sys_q s"
  have inv: "spsc_inv ?q" and w: "w = spsc_write_pos ?q" and c: "consumer_ok ?q (sys_cons s)"
    using push_store by (auto simp: spsc_sys_inv_def)
  obtain k where k: "k < 64" "length (spsc_slots ?q) = 2 ^ k" using inv by (auto simp: spsc_inv_def)
  have room: "spsc_len ?q < spsc_cap ?q"
    using push_store spsc_full_iff [OF k, of "w - r"] by (auto simp: spsc_sys_inv_def spsc_cap_def)
  show ?case
    using push_store.prems spsc_store_items [OF inv room, of item] consumer_ok_store [OF inv room c]
      spsc_mask_less [OF inv] room inv w
    by (auto simp: spsc_sys_inv_def spsc_inv_def spsc_cap_def spsc_len_def)
next
  case (push_publish s item w)
  then have h: "spsc_inv (sys_q s)" "spsc_len (sys_q s) < spsc_cap (sys_q s)"
    "spsc_slots (sys_q s) ! unat (spsc_write_pos (sys_q s) AND kMask (sys_q s)) = item"
    "consumer_ok (sys_q s) (sys_cons s)" "w = spsc_write_pos (sys_q s)"
    by (auto simp: spsc_sys_inv_def)
  then show ?case
    using push_publish.prems spsc_publish [OF h(1-3)] consumer_ok_publish [OF h(1,2,4,3)]
    by (simp add: spsc_sys_inv_def)
next
  case (pop_advance s x r)
  then have h: "spsc_inv (sys_q s)" "spsc_len (sys_q s) \<noteq> 0" "producer_ok (sys_q s) (sys_prod s)"
    "r = spsc_read_pos (sys_q s)" "x = spsc_slots (sys_q s) ! unat (r AND kMask (sys_q s))"
    by (auto simp: spsc_sys_inv_def)
  then show ?case
    using pop_advance.prems spsc_advance [OF h(1,2)] producer_ok_advance [OF h(1-3)]
    by (simp add: spsc_sys_inv_def)
qed (auto simp: spsc_sys_inv_def spsc_len_def unat_eq_0 intro: ccontr)

lemma spsc_start_inv: "k < 64 \<Longrightarrow> spsc_sys_inv (spsc_start d k)"
  by (auto simp: spsc_sys_inv_def spsc_start_def spsc_new_def spsc_inv_def spsc_len_def spsc_items_def)

lemma spsc_reach_inv: "spsc_step\<^sup>*\<^sup>* (spsc_start d k) s \<Longrightarrow> k < 64 \<Longrightarrow> spsc_sys_inv s"
  by (induction rule: rtranclp_induct) (auto simp: spsc_start_inv intro: spsc_step_inv)

lemma spsc_step_cap: "spsc_step s s' \<Longrightarrow> spsc_cap (sys_q s') = spsc_cap (sys_q s)"
  by (induction rule: spsc_step.induct) (auto simp: spsc_cap_def)

lemma spsc_reach_cap: "spsc_step\<^sup>*\<^sup>* s s' \<Longrightarrow> spsc_cap (sys_q s') = spsc_cap (sys_q s)"
  by (induction rule: rtranclp_induct) (auto dest: spsc_step_cap)

text \<open>An uninterrupted call is a run of steps.\<close>

lemma try_push_run:
  assumes "sys_prod s = P_Idle"
  shows "spsc_step\<^sup>*\<^sup>* s (s\<lparr>sys_q := snd (try_push x (sys_q s)),
           sys_pushed := (if fst (try_push x (sys_q s)) then sys_pushed s @ [x] else sys_pushed s)\<rparr>)"
proof -
  let ?q = "sys_q s" let ?w = "spsc_write_pos ?q" and ?r = "spsc_read_pos ?q"
  define s1 where "s1 = s\<lparr>sys_prod := P_LoadedW x ?w\<rparr>"
  define s2 where "s2 = s1\<lparr>sys_prod := P_LoadedR x ?w ?r\<rparr>"
  have pre: "spsc_step s s1" "spsc_step s1 s2"
    using spsc_step.push_load_w [OF assms, of x] spsc_step.push_load_r [of s1 x ?w]
    by (simp_all add: s1_def s2_def)
  then have run: "spsc_step\<^sup>*\<^sup>* s s2" by (meson converse_rtranclp_into_rtranclp r_into_rtranclp)
  show ?thesis
  proof (cases "kCapacity ?q \<le> ?w - ?r")
    case True
    then have "spsc_step s2 (s2\<lparr>sys_prod := P_Idle\<rparr>)"
      by (intro spsc_step.push_full [of _ x ?w ?r]) (simp_all add: s1_def s2_def)
    moreover have "s2\<lparr>sys_prod := P_Idle\<rparr> = s" using assms by (simp add: s1_def s2_def)
    ultimately show ?thesis using run True by (simp add: try_push_def Let_def)
  next
    case False
    define s3 where "s3 = s2\<lparr>sys_prod := P_Stored x ?w,
      sys_q := ?q\<lparr>spsc_slots := (spsc_slots ?q)[unat (?w AND kMask ?q) := x]\<rparr>\<rparr>"
    have "spsc_step s2 s3"
      using spsc_step.push_store [of s2 x ?w ?r] False by (simp add: s1_def s2_def s3_def)
    moreover have "spsc_step s3 (s3\<lparr>sys_prod := P_Idle, sys_pushed := sys_pushed s3 @ [x],
        sys_q := (sys_q s3)\<lparr>spsc_write_pos := ?w + 1\<rparr>\<rparr>)"
      by (rule spsc_step.push_publish) (simp add: s3_def)
    moreover have "s3\<lparr>sys_prod := P_Idle, sys_pushed := sys_pushed s3 @ [x],
        sys_q := (sys_q s3)\<lparr>spsc_write_pos := ?w + 1\<rparr>\<rparr>
      = s\<lparr>sys_q := snd (try_push x ?q), sys_pushed := sys_pushed s @ [x]\<rparr>"
      using assms False by (simp add: s1_def s2_def s3_def try_push_def Let_def)
    ultimately show ?thesis
      using run False by (simp add: try_push_def Let_def)
  qed
qed

section \<open>Properties\<close>

text \<open>
  C9: The single-producer single-consumer ring is linearisable at its counter updates: in
  every interleaving of one producer and one consumer, at the granularity of the individual
  loads and stores, the items published are the items consumed followed by the items still
  in the ring, and the ring never holds more than its capacity. No item is lost, duplicated,
  reordered or read before it is fully written, also when the 64-bit counters wrap.
\<close>
theorem spsc_interleaving_fifo:
  assumes "k < 64" "spsc_step\<^sup>*\<^sup>* (spsc_start d k) s"
  shows "sys_pushed s = sys_popped s @ spsc_items (sys_q s) \<and> length (spsc_items (sys_q s)) \<le> 2 ^ k"
  using spsc_reach_inv [OF assms(2,1)] spsc_reach_cap [OF assms(2)]
  by (simp add: spsc_sys_inv_def spsc_inv_def spsc_start_def spsc_new_def spsc_cap_def)

theorem spsc_interleaving_fifo_witness:
  "\<exists>s. spsc_step\<^sup>*\<^sup>* (spsc_start (0::nat) 1) s \<and> sys_pushed s = [7] \<and> sys_popped s @ spsc_items (sys_q s) = [7]
     \<and> length (spsc_items (sys_q s)) \<le> 2"
proof -
  let ?s = "(spsc_start (0::nat) 1)\<lparr>sys_q := snd (try_push 7 (sys_q (spsc_start 0 1))), sys_pushed := [7]\<rparr>"
  have "fst (try_push (7::nat) (sys_q (spsc_start 0 1)))" by code_simp
  then have "spsc_step\<^sup>*\<^sup>* (spsc_start (0::nat) 1) ?s"
    using try_push_run [of "spsc_start (0::nat) 1" 7] by (simp add: spsc_start_def)
  then show ?thesis using spsc_interleaving_fifo [of 1 "0::nat" ?s] by (intro exI [of _ ?s]) simp
qed

text \<open>
  C21: Seen by a single thread, the ring is a bounded FIFO queue over any history of pushes
  and pops, started in any well-formed state: what was inside followed by what was accepted
  equals what came out followed by what is left. A push is accepted exactly when fewer
  items than slots are inside.
\<close>
theorem spsc_history_fifo:
  assumes "spsc_inv q" "queue_run try_push try_pop ops q = (acc, out, q')"
  shows "spsc_items q @ acc = out @ spsc_items q' \<and> spsc_inv q' \<and>
         (\<forall>x. fst (try_push x q') \<longleftrightarrow> length (spsc_items q') < length (spsc_slots q))"
proof -
  have "spsc_items q @ acc = out @ spsc_items q' \<and> spsc_inv q' \<and> spsc_cap q' = spsc_cap q"
    using spsc.run_fifo [OF assms(1) order_refl assms(2)] by blast
  then show ?thesis
    using spsc.push_iff [of q'] by (simp add: spsc_cap_def)
qed

theorem spsc_history_fifo_witness:
  "fst (snd (queue_run try_push try_pop [Enq 5, Deq, Enq 6, Deq, Enq (9::nat), Deq]
     \<lparr>spsc_slots = [1, 2, 3, 4], spsc_write_pos = 1, spsc_read_pos = - 1\<rparr>)) = [4, 1, 5]"
proof -
  let ?q = "\<lparr>spsc_slots = [1, 2, 3, 4], spsc_write_pos = 1, spsc_read_pos = - 1\<rparr> :: nat SPSCQueue"
  have inv: "spsc_inv ?q"
    unfolding spsc_inv_def by (intro conjI exI [of _ 2]) (simp_all add: spsc_len_def spsc_cap_def)
  obtain acc out q' where r: "queue_run try_push try_pop [Enq 5, Deq, Enq 6, Deq, Enq 9, Deq] ?q = (acc, out, q')"
    by (rule prod_cases3)
  have "fst (queue_run try_push try_pop [Enq 5, Deq, Enq 6, Deq, Enq 9, Deq] ?q) = [5, 6, 9]"
    "length (fst (snd (queue_run try_push try_pop [Enq 5, Deq, Enq 6, Deq, Enq 9, Deq] ?q))) = 3"
    by (simp_all add: try_push_def try_pop_def kMask_def kCapacity_def)
  then have "acc = [5, 6, 9]" "length out = 3" by (simp_all only: r fst_conv snd_conv)
  moreover have "spsc_items ?q = [4, 1]"
    by (simp add: spsc_items_def spsc_len_def ring_contents_def upt_rec [of _ "numeral _"]
        unsigned_minus_1_eq_mask mask_eq_exp_minus_1)
  ultimately have "out @ spsc_items q' = [4, 1, 5] @ [6, 9]" "length out = length [4, 1, 5 :: nat]"
    using spsc_history_fifo [OF inv r] by simp_all
  then have "out = [4, 1, 5]" using append_eq_append_conv by blast
  then show ?thesis by (simp only: r fst_conv snd_conv)
qed

end
