(* ===== verification/Shard_Queue.thy ===== *)
theory Shard_Queue
  imports Fifo_Queue Events
begin

text \<open>
  \<open>RawMessage\<close> and \<open>ShardQueue\<close> of \<open>src/exchange/shard_queue.h\<close> and \<open>shard_queue.cpp\<close>, the
  ring between the network thread and a parser worker. Messages own a heap buffer through a
  \<open>std::unique_ptr\<close>, so passing one by value moves that buffer out of the source object; the
  model keeps the moved-from state explicit (\<open>moved_from\<close>). The number of padding bytes that
  the JSON parser requires is a parameter of \<open>allocate\<close>.
\<close>

section \<open>Messages\<close>

definition kInlineSize :: nat where
  "kInlineSize = 16384"

record 'f RawMessage =
  rm_inline :: "char list"
  rm_heap :: "char list option"
  rm_heap_size :: nat
  rm_size :: nat
  rm_channel_id :: u32
  rm_recv_timestamp :: u64
  rm_symbol :: char_array
  rm_event_type :: EventType
  rm_parse_fn :: "'f option"

definition raw_message_zero :: "'f RawMessage" where
  "raw_message_zero = \<lparr>rm_inline = replicate kInlineSize NUL, rm_heap = None, rm_heap_size = 0,
     rm_size = 0, rm_channel_id = 0, rm_recv_timestamp = 0, rm_symbol = replicate 32 NUL,
     rm_event_type = ET_TICK, rm_parse_fn = None\<rparr>"

definition rm_buffer :: "'f RawMessage \<Rightarrow> char list" where
  "rm_buffer m = (case rm_heap m of Some h \<Rightarrow> h | None \<Rightarrow> rm_inline m)"

definition rm_capacity :: "'f RawMessage \<Rightarrow> nat" where
  "rm_capacity m = (case rm_heap m of Some _ \<Rightarrow> rm_heap_size m | None \<Rightarrow> kInlineSize)"

text \<open>\<open>alloc_ok\<close> is false when the allocation throws \<open>std::bad_alloc\<close>.\<close>
definition allocate :: "nat \<Rightarrow> bool \<Rightarrow> nat \<Rightarrow> 'f RawMessage \<Rightarrow> bool \<times> 'f RawMessage" where
  "allocate padding alloc_ok needed m =
     (let total = needed + padding in
      if total \<le> kInlineSize then (True, m\<lparr>rm_heap := None, rm_heap_size := 0\<rparr>)
      else if alloc_ok then (True, m\<lparr>rm_heap := Some (replicate total NUL), rm_heap_size := total\<rparr>)
      else (False, m))"

text \<open>What a move leaves behind: the pointer is taken, every other member is copied.\<close>
definition moved_from :: "'f RawMessage \<Rightarrow> 'f RawMessage" where
  "moved_from m = m\<lparr>rm_heap := None\<rparr>"

text \<open>The bytes \<open>[0, size)\<close> lie inside the active buffer.\<close>
definition rm_readable :: "'f RawMessage \<Rightarrow> bool" where
  "rm_readable m = (rm_size m \<le> length (rm_buffer m))"

section \<open>Queue\<close>

text \<open>The doubling loop wraps to zero above \<open>2^63\<close> and then never ends: \<open>None\<close>.\<close>
partial_function (option) NextPowerOf2_loop :: "u64 \<Rightarrow> u64 \<Rightarrow> u64 option" where
  "NextPowerOf2_loop n p = (if p < n then NextPowerOf2_loop n (push_bit 1 p) else Some p)"

definition NextPowerOf2 :: "u64 \<Rightarrow> u64 option" where
  "NextPowerOf2 n = NextPowerOf2_loop n 1"

record 'f ShardQueue =
  shq_write_pos :: u64
  shq_capacity :: u64
  shq_mask :: u64
  shq_slots :: "'f RawMessage list"
  shq_read_pos :: u64

definition ShardQueue_new :: "u64 \<Rightarrow> 'f ShardQueue option" where
  "ShardQueue_new capacity =
     map_option (\<lambda>c. \<lparr>shq_write_pos = 0, shq_capacity = c, shq_mask = c - 1,
                      shq_slots = replicate (unat c) raw_message_zero, shq_read_pos = 0\<rparr>)
       (NextPowerOf2 capacity)"

definition TryPush :: "'f RawMessage \<Rightarrow> 'f ShardQueue \<Rightarrow> bool \<times> 'f ShardQueue" where
  "TryPush msg q =
     (let w = shq_write_pos q; r = shq_read_pos q in
      if shq_capacity q \<le> w - r then (False, q)
      else (True, q\<lparr>shq_slots := (shq_slots q)[unat (w AND shq_mask q) := msg],
                    shq_write_pos := w + 1\<rparr>))"

text \<open>
  \<open>Push\<close> retries until there is room. Each attempt constructs the parameter of \<open>TryPush\<close> by
  moving from the local message, so a refused attempt destroys the heap buffer. The list
  holds the queue as the consumer has left it at each attempt; \<open>None\<close>: still retrying.
\<close>
fun Push :: "'f RawMessage \<Rightarrow> 'f ShardQueue list \<Rightarrow> 'f ShardQueue option" where
  "Push msg [] = None"
| "Push msg (q # qs) =
     (case TryPush msg q of
        (True, q') \<Rightarrow> Some q'
      | (False, _) \<Rightarrow> Push (moved_from msg) qs)"

definition PushPoisonPill :: "'f ShardQueue list \<Rightarrow> 'f ShardQueue option" where
  "PushPoisonPill qs = Push raw_message_zero qs"

definition TryPop :: "'f ShardQueue \<Rightarrow> ('f RawMessage \<times> 'f ShardQueue) option" where
  "TryPop q =
     (let r = shq_read_pos q; w = shq_write_pos q in
      if w \<le> r then None
      else (let i = unat (r AND shq_mask q); m = shq_slots q ! i
            in Some (m, q\<lparr>shq_slots := (shq_slots q)[i := moved_from m], shq_read_pos := r + 1\<rparr>)))"

text \<open>\<open>PopBlocking\<close> spins on \<open>TryPop\<close>; the list holds the queue at each attempt.\<close>
fun PopBlocking :: "'f ShardQueue list \<Rightarrow> ('f RawMessage \<times> 'f ShardQueue) option" where
  "PopBlocking [] = None"
| "PopBlocking (q # qs) = (case TryPop q of Some r \<Rightarrow> Some r | None \<Rightarrow> PopBlocking qs)"

definition shq_size :: "'f ShardQueue \<Rightarrow> u64" where
  "shq_size q = shq_write_pos q - shq_read_pos q"

section \<open>Abstraction\<close>

definition shq_items :: "'f ShardQueue \<Rightarrow> 'f RawMessage list" where
  "shq_items q = ring_contents (shq_slots q) (shq_read_pos q) (unat (shq_size q))"

definition shq_cap :: "'f ShardQueue \<Rightarrow> nat" where
  "shq_cap q = length (shq_slots q)"

text \<open>\<open>n\<close> more pushes do not wrap the write counter.\<close>
definition shq_inv :: "nat \<Rightarrow> 'f ShardQueue \<Rightarrow> bool" where
  "shq_inv n q \<longleftrightarrow>
     (\<exists>k<64. length (shq_slots q) = 2 ^ k \<and> shq_capacity q = 2 ^ k \<and> shq_mask q = 2 ^ k - 1) \<and>
     unat (shq_read_pos q) \<le> unat (shq_write_pos q) \<and>
     unat (shq_write_pos q) - unat (shq_read_pos q) \<le> length (shq_slots q) \<and>
     unat (shq_write_pos q) + n < 2 ^ 64"

section \<open>Capacity\<close>

lemma push_bit_1_pow: "k < 63 \<Longrightarrow> push_bit 1 (2 ^ k :: u64) = 2 ^ Suc k"
  by (simp add: push_bit_eq_mult)

lemma unat_pow: "k < 64 \<Longrightarrow> unat (2 ^ k :: u64) = 2 ^ k"
proof -
  assume "k < 64"
  then have "(2::nat) ^ k < 2 ^ 64" by (intro power_strict_increasing) auto
  moreover have "(2 ^ k :: u64) = of_nat (2 ^ k)" by simp
  ultimately show ?thesis by (simp only: unat_of_nat) simp
qed

lemma NextPowerOf2_loop_returns:
  assumes "unat n \<le> 2 ^ 63" "j \<le> 63" "j = 0 \<or> 2 ^ (j - 1) < unat n"
  shows "\<exists>k\<le>63. NextPowerOf2_loop n (2 ^ j) = Some (2 ^ k) \<and> unat n \<le> 2 ^ k \<and>
           (k = 0 \<or> 2 ^ (k - 1) < unat n)"
  using assms(2,3)
proof (induction "63 - j" arbitrary: j)
  case 0
  then have "j = 63" by simp
  then have "\<not> (2 ^ j :: u64) < n" using assms(1) unat_pow [of 63] by (simp add: word_less_nat_alt)
  then show ?case
    using 0 \<open>j = 63\<close> assms(1) by (subst NextPowerOf2_loop.simps) auto
next
  case (Suc m)
  show ?case
  proof (cases "(2 ^ j :: u64) < n")
    case True
    then have "2 ^ j < unat n" using unat_pow [of j] Suc by (simp add: word_less_nat_alt)
    moreover have "NextPowerOf2_loop n (2 ^ j) = NextPowerOf2_loop n (2 ^ Suc j)"
      using True Suc.hyps(2) push_bit_1_pow [of j]
      by (subst NextPowerOf2_loop.simps) (simp add: mult.commute)
    ultimately show ?thesis
      using Suc.hyps(1) [of "Suc j"] Suc.hyps(2) by (simp del: power_Suc)
  next
    case False
    then have "unat n \<le> 2 ^ j" using unat_pow [of j] Suc by (simp add: word_less_nat_alt)
    then show ?thesis
      using False Suc.prems by (subst NextPowerOf2_loop.simps) auto
  qed
qed

section \<open>The queue is a bounded FIFO while its counters do not wrap\<close>

lemma shq_size_unat: "shq_inv n q \<Longrightarrow> unat (shq_size q) = unat (shq_write_pos q) - unat (shq_read_pos q)"
  by (simp add: shq_inv_def shq_size_def unat_sub word_le_nat_alt)

lemma length_shq_items [simp]: "length (shq_items q) = unat (shq_size q)"
  by (simp add: shq_items_def)

lemma shq_empty_iff: "shq_inv n q \<Longrightarrow> shq_write_pos q \<le> shq_read_pos q \<longleftrightarrow> unat (shq_size q) = 0"
  by (auto simp: shq_size_unat word_le_nat_alt)

lemma unat_Suc: "unat (w :: u64) + 1 < 2 ^ 64 \<Longrightarrow> unat (w + 1) = Suc (unat w)"
  by (subst unat_word_ariths) simp

lemma TryPush_room:
  assumes inv: "shq_inv (Suc n) q" and room: "length (shq_items q) < shq_cap q"
  shows "\<exists>q'. TryPush x q = (True, q') \<and> shq_inv n q' \<and> shq_items q' = shq_items q @ [x] \<and>
           shq_cap q' = shq_cap q"
proof -
  obtain k where k: "k < 64" "length (shq_slots q) = 2 ^ k" "shq_capacity q = 2 ^ k" "shq_mask q = 2 ^ k - 1"
    using inv by (auto simp: shq_inv_def)
  let ?w = "shq_write_pos q" and ?r = "shq_read_pos q"
  let ?q' = "q\<lparr>shq_slots := (shq_slots q)[unat (?w AND shq_mask q) := x], shq_write_pos := ?w + 1\<rparr>"
  have size: "unat (shq_size q) < 2 ^ k" using room k by (simp add: shq_cap_def)
  then have "\<not> shq_capacity q \<le> ?w - ?r"
    using unat_pow [OF k(1)] k(3) by (simp add: word_le_nat_alt shq_size_def)
  then have push: "TryPush x q = (True, ?q')" by (simp add: TryPush_def Let_def)
  have w1: "unat (?w + 1) = Suc (unat ?w)"
    using inv by (intro unat_Suc) (simp add: shq_inv_def)
  have inv': "shq_inv n ?q'"
    using inv k size w1 shq_size_unat [OF inv] by (auto simp: shq_inv_def)
  have sz': "unat (shq_size ?q') = Suc (unat (shq_size q))"
    using inv w1 shq_size_unat [OF inv] shq_size_unat [OF inv']
    by (simp add: shq_inv_def Suc_diff_le)
  have "?w = ?r + of_nat (unat (shq_size q))" by (simp add: shq_size_def)
  then have "shq_items ?q' = shq_items q @ [x]"
    using ring_contents_push [OF k(2,1), of "unat (shq_size q)" ?r x] size sz'
      word_mask_index [OF k(1), of ?w] k(2,4)
    by (simp add: shq_items_def)
  then show ?thesis using push inv' by (simp add: shq_cap_def)
qed

lemma TryPop_item:
  assumes inv: "shq_inv n q" and it: "shq_items q = x # xs"
  shows "\<exists>q'. TryPop q = Some (x, q') \<and> shq_inv n q' \<and> shq_items q' = xs \<and> shq_cap q' = shq_cap q"
proof -
  obtain k where k: "k < 64" "length (shq_slots q) = 2 ^ k" "shq_mask q = 2 ^ k - 1"
    using inv by (auto simp: shq_inv_def)
  let ?r = "shq_read_pos q" let ?i = "unat (?r AND shq_mask q)"
  let ?q' = "q\<lparr>shq_slots := (shq_slots q)[?i := moved_from (shq_slots q ! ?i)], shq_read_pos := ?r + 1\<rparr>"
  obtain m where m: "unat (shq_size q) = Suc m"
    using it length_shq_items [of q] by (metis length_Cons)
  have i: "?i = unat ?r mod length (shq_slots q)" using word_mask_index [OF k(1), of ?r] k by simp
  have x: "shq_slots q ! ?i = x" and xs: "ring_contents (shq_slots q) (?r + 1) m = xs"
    using it m i by (simp_all add: shq_items_def ring_simps)
  have pop: "TryPop q = Some (x, ?q')"
    using shq_empty_iff [OF inv] m x by (simp add: TryPop_def Let_def)
  have r1: "unat (?r + 1) = Suc (unat ?r)"
    using m shq_size_unat [OF inv] unsigned_less [of "shq_write_pos q", where ?'a = nat] by (intro unat_Suc) simp
  have inv': "shq_inv n ?q'"
    using inv m r1 shq_size_unat [OF inv] by (auto simp: shq_inv_def)
  have "unat (shq_size ?q') = m"
    using shq_size_unat [OF inv'] shq_size_unat [OF inv] m r1 by simp
  moreover have "m < length (shq_slots q)"
    using inv m shq_size_unat [OF inv] by (simp add: shq_inv_def)
  ultimately have "shq_items ?q' = xs"
    using ring_contents_clear_head [OF k(2,1), of m ?r] xs i by (simp add: shq_items_def)
  then show ?thesis using pop inv' by (simp add: shq_cap_def)
qed

interpretation shard: bounded_fifo shq_inv shq_items shq_cap TryPush TryPop
proof unfold_locales
  fix n m :: nat and q :: "'f ShardQueue" and x
  show "shq_inv n q \<Longrightarrow> length (shq_items q) \<le> shq_cap q"
    using shq_size_unat [of n q] by (simp add: shq_inv_def shq_cap_def)
  show "shq_inv n q \<Longrightarrow> m \<le> n \<Longrightarrow> shq_inv m q" by (auto simp: shq_inv_def)
  show "shq_inv n q \<Longrightarrow> shq_items q = [] \<Longrightarrow> TryPop q = None"
    using shq_empty_iff [of n q] length_shq_items [of q] by (simp add: TryPop_def)
  show "TryPush x q = (False, q)" if inv: "shq_inv n q" and full: "length (shq_items q) = shq_cap q"
  proof -
    obtain k where k: "k < 64" "length (shq_slots q) = 2 ^ k" "shq_capacity q = 2 ^ k"
      using inv by (auto simp: shq_inv_def)
    then have "shq_capacity q \<le> shq_write_pos q - shq_read_pos q"
      using full unat_pow [OF k(1)] by (simp add: word_le_nat_alt shq_cap_def shq_size_def)
    then show ?thesis by (simp add: TryPush_def Let_def)
  qed
qed (fact TryPush_room TryPop_item)+

section \<open>Properties\<close>

text \<open>
  C23: \<open>NextPowerOf2\<close> returns for every requested capacity up to \<open>2^63\<close>, and its result is the
  least power of two that is not smaller than the request, so the mask \<open>capacity - 1\<close> of a
  \<open>ShardQueue\<close> selects a slot of the vector.
\<close>
theorem NextPowerOf2_least:
  assumes "unat n \<le> 2 ^ 63"
  shows "\<exists>k\<le>63. NextPowerOf2 n = Some (2 ^ k) \<and> unat n \<le> 2 ^ k \<and> (\<forall>j. unat n \<le> 2 ^ j \<longrightarrow> k \<le> j)"
proof -
  obtain k where k: "k \<le> 63" "NextPowerOf2 n = Some (2 ^ k)" "unat n \<le> 2 ^ k" "k = 0 \<or> 2 ^ (k - 1) < unat n"
    using NextPowerOf2_loop_returns [OF assms, of 0] by (auto simp: NextPowerOf2_def)
  have "k \<le> j" if "unat n \<le> 2 ^ j" for j
  proof (rule ccontr)
    assume "\<not> k \<le> j"
    then have "(2::nat) ^ j \<le> 2 ^ (k - 1)" by (intro power_increasing) auto
    then show False using that k(4) \<open>\<not> k \<le> j\<close> by linarith
  qed
  then show ?thesis using k by blast
qed

theorem NextPowerOf2_least_witness: "\<exists>k\<le>63. NextPowerOf2 4096 = Some (2 ^ k) \<and> k = 12"
proof -
  have "unat (4096 :: u64) \<le> 2 ^ 63" by simp
  from NextPowerOf2_least [OF this] obtain k where k: "k \<le> 63" "NextPowerOf2 4096 = Some (2 ^ k)"
    "4096 \<le> (2::nat) ^ k" "\<forall>j. 4096 \<le> (2::nat) ^ j \<longrightarrow> k \<le> j" by auto
  have "k \<le> 12" using k(4) by simp
  moreover have "(2::nat) ^ 12 \<le> 2 ^ k" using k(3) by simp
  then have "12 \<le> k" by (simp only: power_increasing_iff one_less_numeral_iff semiring_norm)
  ultimately have "k = 12" by linarith
  then show ?thesis using k(1,2) by blast
qed

text \<open>
  C22: \<open>ShardQueue\<close> delivers messages in order, without loss or duplication, over any history
  of pushes and pops that does not push \<open>2^64\<close> messages in total.
\<close>
theorem shard_history_fifo:
  assumes "shq_inv (pushes ops) q" "queue_run TryPush TryPop ops q = (acc, out, q')"
  shows "shq_items q @ acc = out @ shq_items q' \<and> length (shq_items q') \<le> length (shq_slots q)"
proof -
  have "shq_items q @ acc = out @ shq_items q'" "shq_inv 0 q'" "shq_cap q' = shq_cap q"
    using shard.run_fifo [OF assms(1) order_refl assms(2)] by auto
  then show ?thesis using shard.items_bound [of 0 q'] by (simp add: shq_cap_def)
qed

theorem shard_history_fifo_witness:
  "shq_items \<lparr>shq_write_pos = 3, shq_capacity = 2, shq_mask = 1,
       shq_slots = [raw_message_zero\<lparr>rm_size := 5\<rparr>, raw_message_zero], shq_read_pos = 2\<rparr>
     @ [(raw_message_zero :: unit RawMessage)\<lparr>rm_size := 6\<rparr>]
   = [raw_message_zero\<lparr>rm_size := 5\<rparr>, raw_message_zero\<lparr>rm_size := 6\<rparr>]"
proof -
  let ?q = "\<lparr>shq_write_pos = 3, shq_capacity = 2, shq_mask = 1,
       shq_slots = [raw_message_zero\<lparr>rm_size := 5\<rparr>, raw_message_zero], shq_read_pos = 2\<rparr> :: unit ShardQueue"
  let ?ops = "[Enq (raw_message_zero\<lparr>rm_size := 6\<rparr>), Deq, Deq, Deq] :: unit RawMessage queue_op list"
  have inv: "shq_inv (pushes ?ops) ?q"
    unfolding shq_inv_def by (intro conjI exI [of _ 1]) simp_all
  have run: "fst (queue_run TryPush TryPop ?ops ?q) = [raw_message_zero\<lparr>rm_size := 6\<rparr>]"
    "fst (snd (queue_run TryPush TryPop ?ops ?q)) = [raw_message_zero\<lparr>rm_size := 5\<rparr>, raw_message_zero\<lparr>rm_size := 6\<rparr>]"
    "shq_items (snd (snd (queue_run TryPush TryPop ?ops ?q))) = []"
    by (simp_all add: TryPush_def TryPop_def shq_items_def shq_size_def Let_def word_le_nat_alt)
  have "queue_run TryPush TryPop ?ops ?q = (fst (queue_run TryPush TryPop ?ops ?q),
      fst (snd (queue_run TryPush TryPop ?ops ?q)), snd (snd (queue_run TryPush TryPop ?ops ?q)))"
    by (simp only: prod.collapse)
  from shard_history_fifo [OF inv this] show ?thesis unfolding run by simp
qed

text \<open>
  \<open>Push\<close> hands over the message it was given only if the first attempt finds room. After a
  refused attempt it enqueues the moved-from message: for a message in the inline buffer
  that is the same message, but one that needed a heap buffer arrives without it, with a
  size that exceeds the buffer the parser worker will read.
\<close>
theorem Push_retry_drops_heap_buffer:
  assumes full: "shq_inv n q1" "length (shq_items q1) = shq_cap q1"
    and room: "shq_inv (Suc m) q2" "length (shq_items q2) < shq_cap q2"
    and msg: "length (rm_inline msg) = kInlineSize" "kInlineSize < rm_size msg"
  shows "\<exists>q'. Push msg [q1, q2] = Some q' \<and> shq_items q' = shq_items q2 @ [moved_from msg] \<and>
           \<not> rm_readable (moved_from msg)"
proof -
  obtain q' where "TryPush (moved_from msg) q2 = (True, q')" "shq_items q' = shq_items q2 @ [moved_from msg]"
    using shard.push_room [OF room, of "moved_from msg"] by blast
  then show ?thesis
    using shard.push_full [OF full] msg
    by (simp add: rm_readable_def rm_buffer_def moved_from_def)
qed

theorem Push_retry_drops_heap_buffer_witness:
  "\<exists>q'. Push ((raw_message_zero :: unit RawMessage)\<lparr>rm_size := 20000, rm_heap := Some (replicate 20064 NUL)\<rparr>)
     [\<lparr>shq_write_pos = 1, shq_capacity = 1, shq_mask = 0, shq_slots = [raw_message_zero], shq_read_pos = 0\<rparr>,
      \<lparr>shq_write_pos = 1, shq_capacity = 1, shq_mask = 0, shq_slots = [raw_message_zero], shq_read_pos = 1\<rparr>]
     = Some q' \<and> map rm_heap (shq_items q') = [None] \<and> map rm_size (shq_items q') = [20000]"
proof -
  let ?m = "(raw_message_zero :: unit RawMessage)\<lparr>rm_size := 20000, rm_heap := Some (replicate 20064 NUL)\<rparr>"
  let ?q = "\<lambda>r. \<lparr>shq_write_pos = 1, shq_capacity = 1, shq_mask = 0, shq_slots = [raw_message_zero],
                 shq_read_pos = r\<rparr> :: unit ShardQueue"
  have "shq_inv 0 (?q 0)"
    unfolding shq_inv_def by (rule conjI, rule exI [of _ 0]) simp_all
  moreover have "shq_inv (Suc 0) (?q 1)"
    unfolding shq_inv_def by (rule conjI, rule exI [of _ 0]) simp_all
  moreover have "length (shq_items (?q 0)) = shq_cap (?q 0)" "length (shq_items (?q 1)) < shq_cap (?q 1)"
    "shq_items (?q 1) = []"
    by (simp_all add: shq_size_def shq_cap_def shq_items_def)
  moreover have "length (rm_inline ?m) = kInlineSize" "kInlineSize < rm_size ?m"
    by (simp_all add: raw_message_zero_def kInlineSize_def)
  ultimately show ?thesis
    using Push_retry_drops_heap_buffer [of 0 "?q 0" 0 "?q 1" ?m] by (auto simp: moved_from_def)
qed

end
