(* ===== verification/Mpsc_Queue.thy ===== *)
theory Mpsc_Queue
  imports Fifo_Queue
begin

text \<open>
  \<open>MpscRithmicQueue\<close> of \<open>src/exchange/rithmic/rithmic_queue.h\<close>: the shared-memory queue from
  the callback threads of the gateway to the collector. Each slot carries a sequence number
  that says for which position it is free or published. Positions and sequence numbers are
  naturals: the model is exact for the first \<open>2^64\<close> positions, and \<open>pos & kMask\<close> is
  \<open>pos mod Capacity\<close> because the capacity is a power of two.

  The operations are modelled as functions of one caller (\<open>MTryPush\<close>, \<open>MTryPop\<close>) and as a
  step relation in which any number of producers and one consumer interleave at every
  access to a shared atomic. The lemmas show that without drops the consumer receives
  exactly the events of positions 0, 1, 2, \<dots> in the order of their reservation, and that
  the drop path of \<open>TryPush\<close>, which overwrites a slot the consumer has not yet read, stops
  the consumer for good.
\<close>

section \<open>State\<close>

record 'a MpscQueue =
  mq_write_pos :: nat
  mq_dropped_count :: nat
  mq_seq :: "nat list"
  mq_data :: "'a list"
  mq_read_pos :: nat

definition kMaxSpin :: nat where
  "kMaxSpin = 10000"

definition mq_capacity :: "'a MpscQueue \<Rightarrow> nat" where
  "mq_capacity q = length (mq_seq q)"

definition slot_of :: "'a MpscQueue \<Rightarrow> nat \<Rightarrow> nat" where
  "slot_of q pos = pos mod mq_capacity q"

text \<open>The constructor stores \<open>sequence = i\<close> in every slot; \<open>d\<close> is the value-initialised element.\<close>
definition MpscQueue_new :: "'a \<Rightarrow> nat \<Rightarrow> 'a MpscQueue" where
  "MpscQueue_new d capacity = \<lparr>mq_write_pos = 0, mq_dropped_count = 0,
     mq_seq = [0..<capacity], mq_data = replicate capacity d, mq_read_pos = 0\<rparr>"

definition mq_size :: "'a MpscQueue \<Rightarrow> nat" where
  "mq_size q = mq_write_pos q - mq_read_pos q"

section \<open>Operations of one caller\<close>

text \<open>Write the data, then publish the slot for position \<open>pos\<close>.\<close>
definition publish :: "'a \<Rightarrow> nat \<Rightarrow> 'a MpscQueue \<Rightarrow> 'a MpscQueue" where
  "publish x pos q = q\<lparr>mq_data := (mq_data q)[slot_of q pos := x],
                       mq_seq := (mq_seq q)[slot_of q pos := pos + 1]\<rparr>"

text \<open>
  \<open>TryPush\<close> without interference: the sequence number does not change while it spins, so the
  slow path always ends in the drop branch.
\<close>
definition MTryPush :: "'a \<Rightarrow> 'a \<Rightarrow> 'a MpscQueue \<Rightarrow> bool \<times> 'a MpscQueue" where
  "MTryPush d event q =
     (let pos = mq_write_pos q; q1 = q\<lparr>mq_write_pos := pos + 1\<rparr> in
      if mq_seq q ! slot_of q pos = pos then (True, publish event pos q1)
      else (False, (publish d pos q1)\<lparr>mq_dropped_count := mq_dropped_count q + 1\<rparr>))"

definition MTryPop :: "'a MpscQueue \<Rightarrow> ('a \<times> 'a MpscQueue) option" where
  "MTryPop q =
     (let pos = mq_read_pos q in
      if mq_seq q ! slot_of q pos \<noteq> pos + 1 then None
      else Some (mq_data q ! slot_of q pos,
                 q\<lparr>mq_read_pos := pos + 1,
                   mq_seq := (mq_seq q)[slot_of q pos := pos + mq_capacity q]\<rparr>))"

section \<open>Interleaved executions\<close>

text \<open>
  Program counter of a producer. \<open>Reserved\<close> counts the loads that found the slot busy; a
  blocking \<open>Push\<close> (\<open>block\<close>) spins without a limit.
\<close>
datatype 'a mp_pc =
  MP_Idle
| MP_Reserved (mp_block: bool) 'a nat nat
| MP_Claimed 'a nat
| MP_Written 'a nat
| MP_Drop nat
| MP_DropWritten nat

datatype 'a mc_pc =
  MC_Idle
| MC_Loaded nat
| MC_Checked nat
| MC_Got 'a nat
| MC_Advanced nat

record 'a mpsc_sys =
  ms_q :: "'a MpscQueue"
  ms_prod :: "nat \<Rightarrow> 'a mp_pc"
  ms_cons :: "'a mc_pc"
  ms_event :: "nat \<Rightarrow> 'a"
  ms_popped :: "'a list"

definition mpsc_start :: "'a \<Rightarrow> nat \<Rightarrow> 'a mpsc_sys" where
  "mpsc_start d capacity = \<lparr>ms_q = MpscQueue_new d capacity, ms_prod = (\<lambda>_. MP_Idle),
     ms_cons = MC_Idle, ms_event = (\<lambda>_. d), ms_popped = []\<rparr>"

text \<open>
  One access to a shared atomic or to the slot data per step; \<open>drops\<close> says whether the drop
  branch of \<open>TryPush\<close> may be taken.
\<close>
inductive mpsc_step :: "'a \<Rightarrow> bool \<Rightarrow> 'a mpsc_sys \<Rightarrow> 'a mpsc_sys \<Rightarrow> bool" for d :: 'a and drops :: bool where
  reserve: "ms_prod s p = MP_Idle \<Longrightarrow> pos = mq_write_pos (ms_q s) \<Longrightarrow>
    mpsc_step d drops s (s\<lparr>ms_prod := (ms_prod s)(p := MP_Reserved block x pos 0),
      ms_event := (ms_event s)(pos := x),
      ms_q := (ms_q s)\<lparr>mq_write_pos := pos + 1\<rparr>\<rparr>)"
| load_free: "ms_prod s p = MP_Reserved block x pos n \<Longrightarrow>
    mq_seq (ms_q s) ! slot_of (ms_q s) pos = pos \<Longrightarrow>
    mpsc_step d drops s (s\<lparr>ms_prod := (ms_prod s)(p := MP_Claimed x pos)\<rparr>)"
| load_busy: "ms_prod s p = MP_Reserved block x pos n \<Longrightarrow>
    mq_seq (ms_q s) ! slot_of (ms_q s) pos \<noteq> pos \<Longrightarrow> block \<or> n \<le> kMaxSpin \<Longrightarrow>
    mpsc_step d drops s (s\<lparr>ms_prod := (ms_prod s)(p := MP_Reserved block x pos (n + 1))\<rparr>)"
| give_up: "ms_prod s p = MP_Reserved block x pos n \<Longrightarrow>
    mq_seq (ms_q s) ! slot_of (ms_q s) pos \<noteq> pos \<Longrightarrow> \<not> block \<Longrightarrow> kMaxSpin < n \<Longrightarrow> drops \<Longrightarrow>
    mpsc_step d drops s (s\<lparr>ms_prod := (ms_prod s)(p := MP_Drop pos)\<rparr>)"
| store_data: "ms_prod s p = MP_Claimed x pos \<Longrightarrow>
    mpsc_step d drops s (s\<lparr>ms_prod := (ms_prod s)(p := MP_Written x pos),
      ms_q := (ms_q s)\<lparr>mq_data := (mq_data (ms_q s))[slot_of (ms_q s) pos := x]\<rparr>\<rparr>)"
| store_seq: "ms_prod s p = MP_Written x pos \<Longrightarrow>
    mpsc_step d drops s (s\<lparr>ms_prod := (ms_prod s)(p := MP_Idle),
      ms_q := (ms_q s)\<lparr>mq_seq := (mq_seq (ms_q s))[slot_of (ms_q s) pos := pos + 1]\<rparr>\<rparr>)"
| drop_data: "ms_prod s p = MP_Drop pos \<Longrightarrow>
    mpsc_step d drops s (s\<lparr>ms_prod := (ms_prod s)(p := MP_DropWritten pos),
      ms_q := (ms_q s)\<lparr>mq_data := (mq_data (ms_q s))[slot_of (ms_q s) pos := d]\<rparr>\<rparr>)"
| drop_seq: "ms_prod s p = MP_DropWritten pos \<Longrightarrow>
    mpsc_step d drops s (s\<lparr>ms_prod := (ms_prod s)(p := MP_Idle),
      ms_q := (ms_q s)\<lparr>mq_seq := (mq_seq (ms_q s))[slot_of (ms_q s) pos := pos + 1],
                       mq_dropped_count := mq_dropped_count (ms_q s) + 1\<rparr>\<rparr>)"
| pop_load: "ms_cons s = MC_Idle \<Longrightarrow>
    mpsc_step d drops s (s\<lparr>ms_cons := MC_Loaded (mq_read_pos (ms_q s))\<rparr>)"
| pop_none: "ms_cons s = MC_Loaded pos \<Longrightarrow> mq_seq (ms_q s) ! slot_of (ms_q s) pos \<noteq> pos + 1 \<Longrightarrow>
    mpsc_step d drops s (s\<lparr>ms_cons := MC_Idle\<rparr>)"
| pop_check: "ms_cons s = MC_Loaded pos \<Longrightarrow> mq_seq (ms_q s) ! slot_of (ms_q s) pos = pos + 1 \<Longrightarrow>
    mpsc_step d drops s (s\<lparr>ms_cons := MC_Checked pos\<rparr>)"
| pop_read: "ms_cons s = MC_Checked pos \<Longrightarrow>
    mpsc_step d drops s (s\<lparr>ms_cons := MC_Got (mq_data (ms_q s) ! slot_of (ms_q s) pos) pos\<rparr>)"
| pop_advance: "ms_cons s = MC_Got x pos \<Longrightarrow>
    mpsc_step d drops s (s\<lparr>ms_cons := MC_Advanced pos, ms_popped := ms_popped s @ [x],
      ms_q := (ms_q s)\<lparr>mq_read_pos := pos + 1\<rparr>\<rparr>)"
| pop_free: "ms_cons s = MC_Advanced pos \<Longrightarrow>
    mpsc_step d drops s (s\<lparr>ms_cons := MC_Idle,
      ms_q := (ms_q s)\<lparr>mq_seq :=
        (mq_seq (ms_q s))[slot_of (ms_q s) pos := pos + mq_capacity (ms_q s)]\<rparr>\<rparr>)"

section \<open>Invariants\<close>

fun mp_pos :: "'a mp_pc \<Rightarrow> nat option" where
  "mp_pos MP_Idle = None"
| "mp_pos (MP_Reserved b x pos n) = Some pos"
| "mp_pos (MP_Claimed x pos) = Some pos"
| "mp_pos (MP_Written x pos) = Some pos"
| "mp_pos (MP_Drop pos) = Some pos"
| "mp_pos (MP_DropWritten pos) = Some pos"

abbreviation seq_at :: "'a MpscQueue \<Rightarrow> nat \<Rightarrow> nat" where
  "seq_at q pos \<equiv> mq_seq q ! slot_of q pos"

abbreviation data_at :: "'a MpscQueue \<Rightarrow> nat \<Rightarrow> 'a" where
  "data_at q pos \<equiv> mq_data q ! slot_of q pos"

text \<open>First position whose slot the consumer has not yet released.\<close>
definition first_unfreed :: "'a MpscQueue \<Rightarrow> 'a mc_pc \<Rightarrow> nat" where
  "first_unfreed q c = (case c of MC_Advanced pos \<Rightarrow> pos | _ \<Rightarrow> mq_read_pos q)"

definition holds_pos :: "nat \<Rightarrow> 'a MpscQueue \<Rightarrow> (nat \<Rightarrow> 'a) \<Rightarrow> 'a \<Rightarrow> nat \<Rightarrow> bool" where
  "holds_pos f q ev x pos \<longleftrightarrow> f \<le> pos \<and> pos < mq_write_pos q \<and> ev pos = x \<and>
     (pos < f + mq_capacity q \<longrightarrow> seq_at q pos = pos)"

fun prod_ok :: "nat \<Rightarrow> 'a MpscQueue \<Rightarrow> (nat \<Rightarrow> 'a) \<Rightarrow> 'a mp_pc \<Rightarrow> bool" where
  "prod_ok f q ev MP_Idle = True"
| "prod_ok f q ev (MP_Reserved b x pos n) = holds_pos f q ev x pos"
| "prod_ok f q ev (MP_Claimed x pos) = (holds_pos f q ev x pos \<and> pos < f + mq_capacity q)"
| "prod_ok f q ev (MP_Written x pos) =
     (holds_pos f q ev x pos \<and> pos < f + mq_capacity q \<and> data_at q pos = x)"
| "prod_ok f q ev (MP_Drop pos) = False"
| "prod_ok f q ev (MP_DropWritten pos) = False"

fun cons_ok :: "'a MpscQueue \<Rightarrow> (nat \<Rightarrow> 'a) \<Rightarrow> 'a mc_pc \<Rightarrow> bool" where
  "cons_ok q ev MC_Idle = True"
| "cons_ok q ev (MC_Loaded pos) = (pos = mq_read_pos q)"
| "cons_ok q ev (MC_Checked pos) = (pos = mq_read_pos q \<and> seq_at q pos = pos + 1)"
| "cons_ok q ev (MC_Got x pos) = (pos = mq_read_pos q \<and> seq_at q pos = pos + 1 \<and> x = ev pos)"
| "cons_ok q ev (MC_Advanced pos) = (mq_read_pos q = pos + 1 \<and> seq_at q pos = pos + 1)"

definition window_ok :: "nat \<Rightarrow> 'a MpscQueue \<Rightarrow> (nat \<Rightarrow> 'a) \<Rightarrow> bool" where
  "window_ok f q ev \<longleftrightarrow> (\<forall>p. f \<le> p \<and> p < f + mq_capacity q \<longrightarrow>
     seq_at q p = p \<or> seq_at q p = p + 1 \<and> p < mq_write_pos q \<and> data_at q p = ev p)"

definition mpsc_inv :: "'a mpsc_sys \<Rightarrow> bool" where
  "mpsc_inv s \<longleftrightarrow>
     2 \<le> mq_capacity (ms_q s) \<and> length (mq_data (ms_q s)) = mq_capacity (ms_q s) \<and>
     mq_read_pos (ms_q s) \<le> mq_write_pos (ms_q s) \<and>
     ms_popped s = map (ms_event s) [0..<mq_read_pos (ms_q s)] \<and>
     cons_ok (ms_q s) (ms_event s) (ms_cons s) \<and>
     window_ok (first_unfreed (ms_q s) (ms_cons s)) (ms_q s) (ms_event s) \<and>
     (\<forall>i. prod_ok (first_unfreed (ms_q s) (ms_cons s)) (ms_q s) (ms_event s) (ms_prod s i)) \<and>
     (\<forall>i j x. i \<noteq> j \<longrightarrow> mp_pos (ms_prod s i) = Some x \<longrightarrow> mp_pos (ms_prod s j) \<noteq> Some x)"

text \<open>
  The consumer waits at a slot whose sequence number has moved past it, and nobody is left
  who could bring it back.
\<close>
definition mpsc_wedged :: "'a mpsc_sys \<Rightarrow> bool" where
  "mpsc_wedged s \<longleftrightarrow>
     (let q = ms_q s; r = mq_read_pos q in
      0 < mq_capacity q \<and> r < mq_write_pos q \<and> r + 1 < seq_at q r \<and>
      (ms_cons s = MC_Idle \<or> ms_cons s = MC_Loaded r) \<and>
      (\<forall>i pos. mp_pos (ms_prod s i) = Some pos \<longrightarrow> r < pos \<or> slot_of q pos \<noteq> slot_of q r))"

text \<open>Well-formed states of the queue between calls of a single thread, and their contents.\<close>

definition mq_inv :: "'a MpscQueue \<Rightarrow> bool" where
  "mq_inv q \<longleftrightarrow> 2 \<le> mq_capacity q \<and> length (mq_data q) = mq_capacity q \<and>
     mq_read_pos q \<le> mq_write_pos q \<and> mq_write_pos q \<le> mq_read_pos q + mq_capacity q \<and>
     (\<forall>p. mq_read_pos q \<le> p \<and> p < mq_read_pos q + mq_capacity q \<longrightarrow>
        seq_at q p = (if p < mq_write_pos q then p + 1 else p))"

definition mq_items :: "'a MpscQueue \<Rightarrow> 'a list" where
  "mq_items q = map (data_at q) [mq_read_pos q..<mq_write_pos q]"

definition mq_wedged :: "'a MpscQueue \<Rightarrow> bool" where
  "mq_wedged q \<longleftrightarrow> 0 < mq_capacity q \<and> mq_read_pos q < mq_write_pos q \<and>
     mq_read_pos q + 1 < seq_at q (mq_read_pos q)"

section \<open>A wedged queue stays wedged\<close>

lemma mq_update_simps [simp]:
  "mq_capacity (q\<lparr>mq_write_pos := w\<rparr>) = mq_capacity q"
  "mq_capacity (q\<lparr>mq_read_pos := r\<rparr>) = mq_capacity q"
  "mq_capacity (q\<lparr>mq_data := da\<rparr>) = mq_capacity q"
  "mq_capacity (q\<lparr>mq_dropped_count := dc\<rparr>) = mq_capacity q"
  "length sq = mq_capacity q \<Longrightarrow> mq_capacity (q\<lparr>mq_seq := sq\<rparr>) = mq_capacity q"
  "slot_of (q\<lparr>mq_write_pos := w\<rparr>) pos = slot_of q pos"
  "slot_of (q\<lparr>mq_read_pos := r\<rparr>) pos = slot_of q pos"
  "slot_of (q\<lparr>mq_data := da\<rparr>) pos = slot_of q pos"
  "slot_of (q\<lparr>mq_dropped_count := dc\<rparr>) pos = slot_of q pos"
  "length sq = mq_capacity q \<Longrightarrow> slot_of (q\<lparr>mq_seq := sq\<rparr>) pos = slot_of q pos"
  by (simp_all add: mq_capacity_def slot_of_def)

lemma length_mq_seq [simp]: "length (mq_seq q) = mq_capacity q"
  by (simp add: mq_capacity_def)

lemma slot_of_less [simp]: "0 < mq_capacity q \<Longrightarrow> slot_of q pos < mq_capacity q"
  by (simp add: slot_of_def)

lemma wedged_pos:
  "mpsc_wedged s \<Longrightarrow> mp_pos (ms_prod s i) = Some pos \<Longrightarrow>
   mq_read_pos (ms_q s) < pos \<or> slot_of (ms_q s) pos \<noteq> slot_of (ms_q s) (mq_read_pos (ms_q s))"
  unfolding mpsc_wedged_def Let_def by blast

lemma wedged_prod:
  assumes "mpsc_wedged s" "mp_pos pc = None \<or> mp_pos pc = mp_pos (ms_prod s p)"
  shows "mpsc_wedged (s\<lparr>ms_prod := (ms_prod s)(p := pc)\<rparr>)"
proof -
  have "mp_pos pc = Some pos \<Longrightarrow>
      mq_read_pos (ms_q s) < pos \<or> slot_of (ms_q s) pos \<noteq> slot_of (ms_q s) (mq_read_pos (ms_q s))" for pos
    using wedged_pos [OF assms(1), of p pos] assms(2) by auto
  then show ?thesis using assms(1) by (simp add: mpsc_wedged_def Let_def)
qed

lemma wedged_queue:
  "mpsc_wedged s \<Longrightarrow> mq_read_pos q' = mq_read_pos (ms_q s) \<Longrightarrow> mq_capacity q' = mq_capacity (ms_q s) \<Longrightarrow>
   mq_write_pos (ms_q s) \<le> mq_write_pos q' \<Longrightarrow> mq_read_pos q' + 1 < seq_at q' (mq_read_pos q') \<Longrightarrow>
   mpsc_wedged (s\<lparr>ms_q := q'\<rparr>)"
  by (simp add: mpsc_wedged_def Let_def slot_of_def)

lemma wedged_seq: "mpsc_wedged s \<Longrightarrow> mq_read_pos (ms_q s) + 1 < seq_at (ms_q s) (mq_read_pos (ms_q s))"
  by (simp add: mpsc_wedged_def Let_def)

text \<open>Whoever publishes on the consumer's slot publishes a later position.\<close>

lemma wedged_publish:
  assumes "mpsc_wedged s" "mp_pos (ms_prod s p) = Some pos"
  shows "mq_read_pos (ms_q s) + 1
    < (mq_seq (ms_q s))[slot_of (ms_q s) pos := pos + 1] ! slot_of (ms_q s) (mq_read_pos (ms_q s))"
  using wedged_pos [OF assms] wedged_seq [OF assms(1)] assms(1)
  by (auto simp: nth_list_update mpsc_wedged_def Let_def)

lemma wedged_step:
  "mpsc_step d drops s s' \<Longrightarrow> mpsc_wedged s \<Longrightarrow> mpsc_wedged s' \<and> ms_popped s' = ms_popped s"
proof (induction rule: mpsc_step.induct)
  case (reserve s p pos block x)
  then have "0 < mq_capacity (ms_q s)" "mq_read_pos (ms_q s) < pos" by (auto simp: mpsc_wedged_def Let_def)
  then show ?case using reserve by (auto simp: mpsc_wedged_def Let_def)
next
  case (store_data s p x pos)
  then show ?case
    using wedged_seq [OF store_data.prems]
    by (auto intro!: wedged_queue wedged_prod)
next
  case (store_seq s p x pos)
  then show ?case
    using wedged_publish [of s p pos] by (auto intro!: wedged_queue wedged_prod)
next
  case (drop_data s p pos)
  then show ?case
    using wedged_seq [OF drop_data.prems]
    by (auto intro!: wedged_queue wedged_prod)
next
  case (drop_seq s p pos)
  then show ?case
    using wedged_publish [of s p pos] by (auto intro!: wedged_queue wedged_prod)
qed (auto intro!: wedged_prod, auto simp: mpsc_wedged_def Let_def)

lemma wedged_forever:
  "(mpsc_step d drops)\<^sup>*\<^sup>* s s' \<Longrightarrow> mpsc_wedged s \<Longrightarrow>
   mpsc_wedged s' \<and> ms_popped s' = ms_popped s"
  by (induction rule: rtranclp_induct) (auto dest: wedged_step)

section \<open>Without drops the consumer sees the events in reservation order\<close>

lemma slot_of_window:
  "f \<le> p \<Longrightarrow> p < f + mq_capacity q \<Longrightarrow> f \<le> p' \<Longrightarrow> p' < f + mq_capacity q \<Longrightarrow>
   slot_of q p = slot_of q p' \<longleftrightarrow> p = p'"
  unfolding slot_of_def by (rule window_mod_inj)

lemma free_slot_in_window:
  assumes "window_ok f q ev" "f \<le> pos" "seq_at q pos = pos" "2 \<le> mq_capacity q"
  shows "pos < f + mq_capacity q"
proof (rule ccontr)
  assume out: "\<not> pos < f + mq_capacity q"
  let ?c = "mq_capacity q"
  let ?p = "f + (pos - f) mod ?c"
  have p: "f \<le> ?p" "?p < f + ?c" using assms(4) by auto
  have "?p mod ?c = pos mod ?c"
    using assms(2) by (simp add: mod_add_right_eq)
  then have slot: "slot_of q ?p = slot_of q pos" by (simp add: slot_of_def)
  moreover have "seq_at q ?p = ?p \<or> seq_at q ?p = ?p + 1"
    using assms(1) p unfolding window_ok_def by blast
  ultimately have "pos = ?p \<or> pos = ?p + 1"
    using assms(3) by simp
  then have "pos = ?p + 1" using out p by auto
  then have "Suc ?p mod ?c = ?p mod ?c" using slot by (simp add: slot_of_def)
  then show False using assms(4) by (simp add: mod_Suc split: if_splits)
qed

lemma mpsc_invD:
  assumes "mpsc_inv s"
  shows "0 < mq_capacity (ms_q s)" "2 \<le> mq_capacity (ms_q s)"
    "length (mq_data (ms_q s)) = mq_capacity (ms_q s)"
    "mq_read_pos (ms_q s) \<le> mq_write_pos (ms_q s)"
    "ms_popped s = map (ms_event s) [0..<mq_read_pos (ms_q s)]"
    "cons_ok (ms_q s) (ms_event s) (ms_cons s)"
    "window_ok (first_unfreed (ms_q s) (ms_cons s)) (ms_q s) (ms_event s)"
    "prod_ok (first_unfreed (ms_q s) (ms_cons s)) (ms_q s) (ms_event s) (ms_prod s i)"
    "i \<noteq> j \<Longrightarrow> mp_pos (ms_prod s i) = Some x \<Longrightarrow> mp_pos (ms_prod s j) \<noteq> Some x"
  using assms by (auto simp: mpsc_inv_def)

lemma first_unfreed_le: "cons_ok q ev c \<Longrightarrow> first_unfreed q c \<le> mq_read_pos q"
  by (cases c) (auto simp: first_unfreed_def)

lemma mpsc_invI:
  assumes "2 \<le> mq_capacity (ms_q s)" "length (mq_data (ms_q s)) = mq_capacity (ms_q s)"
    "mq_read_pos (ms_q s) \<le> mq_write_pos (ms_q s)"
    "ms_popped s = map (ms_event s) [0..<mq_read_pos (ms_q s)]"
    "cons_ok (ms_q s) (ms_event s) (ms_cons s)"
    "first_unfreed (ms_q s) (ms_cons s) = f"
    "window_ok f (ms_q s) (ms_event s)"
    "\<And>i. prod_ok f (ms_q s) (ms_event s) (ms_prod s i)"
    "\<And>i j x. i \<noteq> j \<Longrightarrow> mp_pos (ms_prod s i) = Some x \<Longrightarrow> mp_pos (ms_prod s j) \<noteq> Some x"
  shows "mpsc_inv s"
  using assms unfolding mpsc_inv_def by blast

lemma inv_reserve:
  assumes inv: "mpsc_inv s" and pos: "pos = mq_write_pos (ms_q s)"
  shows "mpsc_inv (s\<lparr>ms_prod := (ms_prod s)(p := MP_Reserved block x pos 0),
      ms_event := (ms_event s)(pos := x), ms_q := (ms_q s)\<lparr>mq_write_pos := pos + 1\<rparr>\<rparr>)"
proof -
  note I = mpsc_invD [OF inv]
  define f where "f = first_unfreed (ms_q s) (ms_cons s)"
  define q where "q = (ms_q s)\<lparr>mq_write_pos := pos + 1\<rparr>"
  define ev where "ev = (ms_event s)(pos := x)"
  have f: "f \<le> pos" using first_unfreed_le [OF I(6)] I(4) pos by (simp add: f_def)
  have lt: "mp_pos (ms_prod s i) = Some y \<Longrightarrow> y < pos" for i y
    using I(8) [of i] pos by (cases "ms_prod s i") (simp_all add: holds_pos_def)
  have others: "prod_ok f q ev (ms_prod s i)" for i
    using I(8) [of i] lt [of i] pos
    by (cases "ms_prod s i") (simp_all add: holds_pos_def f_def q_def ev_def)
  have "pos < f + mq_capacity (ms_q s) \<Longrightarrow> seq_at (ms_q s) pos = pos"
    using I(7) f pos unfolding window_ok_def f_def by blast
  then have new: "prod_ok f q ev (MP_Reserved block x pos 0)"
    using f by (simp add: holds_pos_def q_def ev_def)
  have w: "window_ok f q ev"
    using I(7) pos by (auto simp: window_ok_def f_def q_def ev_def)
  have c: "cons_ok q ev (ms_cons s)"
    using I(1,4,6,7) pos
    by (cases "ms_cons s") (simp_all add: q_def ev_def, auto simp: window_ok_def first_unfreed_def)
  have pop: "ms_popped s = map ev [0..<mq_read_pos (ms_q s)]" using I(4,5) pos by (simp add: ev_def)
  have dist: "mp_pos (((ms_prod s)(p := MP_Reserved block x pos 0)) i) = Some y \<Longrightarrow>
      mp_pos (((ms_prod s)(p := MP_Reserved block x pos 0)) j) \<noteq> Some y" if "i \<noteq> j" for i j y
    using I(9) [OF that] lt [of i] lt [of j] that by (cases "i = p"; cases "j = p") auto
  show ?thesis
    unfolding q_def [symmetric] ev_def [symmetric]
  proof (rule mpsc_invI [where f = f], goal_cases)
    case (8 i)
    then show ?case using others new by simp
  next
    case (9 i j y)
    then show ?case using dist by simp
  qed (use I(1-4) w c pop pos in \<open>simp_all add: q_def f_def first_unfreed_def split: mc_pc.split\<close>)
qed

lemma inv_producer:
  assumes inv: "mpsc_inv s"
    and q: "mq_read_pos q' = mq_read_pos (ms_q s)" "mq_write_pos q' = mq_write_pos (ms_q s)"
      "mq_capacity q' = mq_capacity (ms_q s)" "length (mq_data q') = mq_capacity (ms_q s)"
    and f: "f = first_unfreed (ms_q s) (ms_cons s)"
    and c: "cons_ok q' (ms_event s) (ms_cons s)" and w: "window_ok f q' (ms_event s)"
    and others: "\<And>i. i \<noteq> p \<Longrightarrow> prod_ok f q' (ms_event s) (ms_prod s i)"
    and new: "prod_ok f q' (ms_event s) pc" "mp_pos pc = None \<or> mp_pos pc = mp_pos (ms_prod s p)"
  shows "mpsc_inv (s\<lparr>ms_prod := (ms_prod s)(p := pc), ms_q := q'\<rparr>)"
proof -
  note I = mpsc_invD [OF inv]
  have dist: "mp_pos (((ms_prod s)(p := pc)) i) = Some y \<Longrightarrow> mp_pos (((ms_prod s)(p := pc)) j) \<noteq> Some y"
    if "i \<noteq> j" for i j y
    using I(9) [OF that, of y] I(9) [OF that [symmetric], of y] that new(2)
    by (cases "i = p"; cases "j = p") auto
  show ?thesis
  proof (rule mpsc_invI [where f = f], goal_cases)
    case (8 i)
    then show ?case using others new by simp
  next
    case (9 i j y)
    then show ?case using dist by simp
  qed (use I(1-5) w c q f in \<open>simp_all add: first_unfreed_def split: mc_pc.split\<close>)
qed

lemmas inv_producer_pc = inv_producer [where q' = "ms_q s" for s, OF _ refl refl refl _ refl]

lemma seq_upd: "0 < mq_capacity q \<Longrightarrow>
  seq_at (q\<lparr>mq_seq := (mq_seq q)[slot_of q pos := v]\<rparr>) p = (if slot_of q p = slot_of q pos then v else seq_at q p)"
  by (auto simp: nth_list_update)

lemma data_upd: "0 < mq_capacity q \<Longrightarrow> length (mq_data q) = mq_capacity q \<Longrightarrow>
  data_at (q\<lparr>mq_data := (mq_data q)[slot_of q pos := v]\<rparr>) p = (if slot_of q p = slot_of q pos then v else data_at q p)"
  by (auto simp: nth_list_update)

text \<open>A producer that owns a free slot of the window shares it with nobody.\<close>

lemma owner_slot:
  assumes inv: "mpsc_inv s" and f: "f = first_unfreed (ms_q s) (ms_cons s)"
    and own: "mp_pos (ms_prod s p) = Some pos" "f \<le> pos" "pos < f + mq_capacity (ms_q s)"
      "seq_at (ms_q s) pos = pos"
  shows "f \<le> y \<Longrightarrow> y < f + mq_capacity (ms_q s) \<Longrightarrow> slot_of (ms_q s) y = slot_of (ms_q s) pos \<longleftrightarrow> y = pos"
    and "i \<noteq> p \<Longrightarrow> mp_pos (ms_prod s i) = Some y \<Longrightarrow> y \<noteq> pos"
    and "ms_cons s = MC_Checked y \<or> ms_cons s = MC_Got z y \<or> ms_cons s = MC_Advanced y \<Longrightarrow>
         slot_of (ms_q s) y \<noteq> slot_of (ms_q s) pos"
proof -
  note I = mpsc_invD [OF inv]
  show "f \<le> y \<Longrightarrow> y < f + mq_capacity (ms_q s) \<Longrightarrow> slot_of (ms_q s) y = slot_of (ms_q s) pos \<longleftrightarrow> y = pos"
    using slot_of_window own(2,3) by blast
  show "i \<noteq> p \<Longrightarrow> mp_pos (ms_prod s i) = Some y \<Longrightarrow> y \<noteq> pos"
    using I(9) own(1) by blast
  show "ms_cons s = MC_Checked y \<or> ms_cons s = MC_Got z y \<or> ms_cons s = MC_Advanced y \<Longrightarrow>
         slot_of (ms_q s) y \<noteq> slot_of (ms_q s) pos"
    using I(1,6) own slot_of_window [of f y "ms_q s" pos] by (auto simp: f first_unfreed_def)
qed

lemma inv_load_free:
  assumes inv: "mpsc_inv s" and pc: "ms_prod s p = MP_Reserved block x pos n"
    and free: "seq_at (ms_q s) pos = pos"
  shows "mpsc_inv (s\<lparr>ms_prod := (ms_prod s)(p := MP_Claimed x pos)\<rparr>)"
proof -
  note I = mpsc_invD [OF inv]
  have h: "holds_pos (first_unfreed (ms_q s) (ms_cons s)) (ms_q s) (ms_event s) x pos"
    using I(8) [of p] pc by simp
  then have "pos < first_unfreed (ms_q s) (ms_cons s) + mq_capacity (ms_q s)"
    using free_slot_in_window [OF I(7) _ free I(2)] by (simp add: holds_pos_def)
  then show ?thesis
    using inv_producer_pc [OF inv I(3,6,7,8), of "MP_Claimed x pos" p] h pc by simp
qed

lemma inv_load_busy:
  assumes inv: "mpsc_inv s" and pc: "ms_prod s p = MP_Reserved block x pos n"
  shows "mpsc_inv (s\<lparr>ms_prod := (ms_prod s)(p := MP_Reserved block x pos m)\<rparr>)"
proof -
  note I = mpsc_invD [OF inv]
  show ?thesis
    using inv_producer_pc [OF inv I(3,6,7,8), of "MP_Reserved block x pos m" p] I(8) [of p] pc by simp
qed

lemma inv_store_data:
  assumes inv: "mpsc_inv s" and pc: "ms_prod s p = MP_Claimed x pos"
  shows "mpsc_inv (s\<lparr>ms_prod := (ms_prod s)(p := MP_Written x pos),
      ms_q := (ms_q s)\<lparr>mq_data := (mq_data (ms_q s))[slot_of (ms_q s) pos := x]\<rparr>\<rparr>)"
proof -
  note I = mpsc_invD [OF inv]
  define f where "f = first_unfreed (ms_q s) (ms_cons s)"
  define q where "q = (ms_q s)\<lparr>mq_data := (mq_data (ms_q s))[slot_of (ms_q s) pos := x]\<rparr>"
  have own: "mp_pos (ms_prod s p) = Some pos" "f \<le> pos" "pos < f + mq_capacity (ms_q s)"
    "seq_at (ms_q s) pos = pos" and h: "holds_pos f (ms_q s) (ms_event s) x pos"
    using I(8) [of p] pc by (simp_all add: f_def holds_pos_def)
  note o = owner_slot [OF inv f_def own]
  have data: "data_at q y = (if slot_of (ms_q s) y = slot_of (ms_q s) pos then x else data_at (ms_q s) y)" for y
    using data_upd [OF I(1,3), of pos x y] by (simp add: q_def)
  have "mpsc_inv (s\<lparr>ms_prod := (ms_prod s)(p := MP_Written x pos), ms_q := q\<rparr>)"
  proof (rule inv_producer [OF inv _ _ _ _ f_def], goal_cases)
    case 5
    show ?case using I(6) by (cases "ms_cons s") (simp_all add: q_def)
  next
    case 6
    show ?case
      using I(7) own o(1) unfolding window_ok_def f_def [symmetric]
      by (auto simp: data) (auto simp: q_def)
  next
    case (7 i)
    have "prod_ok f (ms_q s) (ms_event s) (ms_prod s i)" using I(8) by (simp add: f_def)
    then show ?case
      using o(1) o(2) [OF 7] by (cases "ms_prod s i") (auto simp: data holds_pos_def, auto simp: q_def)
  next
    case 8
    show ?case using h own by (simp add: data) (simp add: q_def holds_pos_def)
  qed (use pc I(3) in \<open>simp_all add: q_def\<close>)
  then show ?thesis by (simp add: q_def)
qed

lemma inv_store_seq:
  assumes inv: "mpsc_inv s" and pc: "ms_prod s p = MP_Written x pos"
  shows "mpsc_inv (s\<lparr>ms_prod := (ms_prod s)(p := MP_Idle),
      ms_q := (ms_q s)\<lparr>mq_seq := (mq_seq (ms_q s))[slot_of (ms_q s) pos := pos + 1]\<rparr>\<rparr>)"
proof -
  note I = mpsc_invD [OF inv]
  define f where "f = first_unfreed (ms_q s) (ms_cons s)"
  define q where "q = (ms_q s)\<lparr>mq_seq := (mq_seq (ms_q s))[slot_of (ms_q s) pos := pos + 1]\<rparr>"
  have own: "mp_pos (ms_prod s p) = Some pos" "f \<le> pos" "pos < f + mq_capacity (ms_q s)"
    "seq_at (ms_q s) pos = pos"
    and h: "pos < mq_write_pos (ms_q s)" "data_at (ms_q s) pos = ms_event s pos"
    using I(8) [of p] pc by (auto simp: f_def holds_pos_def)
  note o = owner_slot [OF inv f_def own]
  have seq: "seq_at q y = (if slot_of (ms_q s) y = slot_of (ms_q s) pos then pos + 1 else seq_at (ms_q s) y)" for y
    using seq_upd [OF I(1), of pos "pos + 1" y] by (simp add: q_def)
  have "mpsc_inv (s\<lparr>ms_prod := (ms_prod s)(p := MP_Idle), ms_q := q\<rparr>)"
  proof (rule inv_producer [OF inv _ _ _ _ f_def], goal_cases)
    case 5
    show ?case using I(6) o(3) by (cases "ms_cons s") (auto simp: seq, auto simp: q_def)
  next
    case 6
    show ?case
      using I(7) h o(1) unfolding window_ok_def f_def [symmetric]
      by (auto simp: seq) (auto simp: q_def)
  next
    case (7 i)
    have "prod_ok f (ms_q s) (ms_event s) (ms_prod s i)" using I(8) by (simp add: f_def)
    then show ?case
      using o(1) o(2) [OF 7] by (cases "ms_prod s i") (auto simp: seq holds_pos_def, auto simp: q_def)
  qed (use I(3) in \<open>simp_all add: q_def\<close>)
  then show ?thesis by (simp add: q_def)
qed

lemma inv_consumer:
  assumes inv: "mpsc_inv s" and c: "cons_ok (ms_q s) (ms_event s) c"
    and f: "first_unfreed (ms_q s) c = first_unfreed (ms_q s) (ms_cons s)"
  shows "mpsc_inv (s\<lparr>ms_cons := c\<rparr>)"
  using mpsc_invD [OF inv] c f
  by (intro mpsc_invI [where f = "first_unfreed (ms_q s) (ms_cons s)"]) simp_all

lemma published_event:
  assumes inv: "mpsc_inv s" and c: "ms_cons s = MC_Loaded pos \<or> ms_cons s = MC_Checked pos \<or> ms_cons s = MC_Got x pos"
    and "seq_at (ms_q s) pos = pos + 1"
  shows "pos = mq_read_pos (ms_q s)" "first_unfreed (ms_q s) (ms_cons s) = pos"
    "pos < mq_write_pos (ms_q s)" "data_at (ms_q s) pos = ms_event s pos"
proof -
  note I = mpsc_invD [OF inv]
  show r: "pos = mq_read_pos (ms_q s)" using I(6) c by auto
  then show f: "first_unfreed (ms_q s) (ms_cons s) = pos" using c by (auto simp: first_unfreed_def)
  have "pos \<le> pos \<and> pos < pos + mq_capacity (ms_q s)" using I(1) by simp
  then have "seq_at (ms_q s) pos = pos \<or>
      seq_at (ms_q s) pos = pos + 1 \<and> pos < mq_write_pos (ms_q s) \<and> data_at (ms_q s) pos = ms_event s pos"
    using I(7) f unfolding window_ok_def by blast
  then show "pos < mq_write_pos (ms_q s)" "data_at (ms_q s) pos = ms_event s pos"
    using assms(3) by auto
qed

lemma inv_pop_advance:
  assumes inv: "mpsc_inv s" and c: "ms_cons s = MC_Got x pos"
  shows "mpsc_inv (s\<lparr>ms_cons := MC_Advanced pos, ms_popped := ms_popped s @ [x],
      ms_q := (ms_q s)\<lparr>mq_read_pos := pos + 1\<rparr>\<rparr>)"
proof -
  note I = mpsc_invD [OF inv]
  have seq: "seq_at (ms_q s) pos = pos + 1" and x: "x = ms_event s pos" using I(6) c by auto
  note e = published_event [OF inv _ seq, of x]
  have f: "first_unfreed (ms_q s) (ms_cons s) = pos" and r: "pos = mq_read_pos (ms_q s)"
    and w: "pos < mq_write_pos (ms_q s)"
    using e c by auto
  have "prod_ok pos ((ms_q s)\<lparr>mq_read_pos := pos + 1\<rparr>) (ms_event s) (ms_prod s i)" for i
    using I(8) [of i] f by (cases "ms_prod s i") (simp_all add: holds_pos_def)
  moreover have "window_ok pos ((ms_q s)\<lparr>mq_read_pos := pos + 1\<rparr>) (ms_event s)"
    using I(7) f by (simp add: window_ok_def)
  moreover have "ms_popped s @ [x] = map (ms_event s) [0..<Suc pos]" using I(5) x r by simp
  ultimately show ?thesis
    using I(2,3) I(9) seq w
    by (intro mpsc_invI [where f = pos]) (simp_all add: first_unfreed_def)
qed

lemma inv_pop_free:
  assumes inv: "mpsc_inv s" and c: "ms_cons s = MC_Advanced pos"
  shows "mpsc_inv (s\<lparr>ms_cons := MC_Idle,
      ms_q := (ms_q s)\<lparr>mq_seq := (mq_seq (ms_q s))[slot_of (ms_q s) pos := pos + mq_capacity (ms_q s)]\<rparr>\<rparr>)"
proof -
  note I = mpsc_invD [OF inv]
  let ?c = "mq_capacity (ms_q s)"
  define q where "q = (ms_q s)\<lparr>mq_seq := (mq_seq (ms_q s))[slot_of (ms_q s) pos := pos + ?c]\<rparr>"
  have r: "mq_read_pos (ms_q s) = pos + 1" and sp: "seq_at (ms_q s) pos = pos + 1" using I(6) c by auto
  have f: "first_unfreed (ms_q s) (ms_cons s) = pos" using c by (simp add: first_unfreed_def)
  have seq: "seq_at q y = (if slot_of (ms_q s) y = slot_of (ms_q s) pos then pos + ?c else seq_at (ms_q s) y)" for y
    using seq_upd [OF I(1), of pos "pos + ?c" y] by (simp add: q_def)
  have other: "slot_of (ms_q s) y \<noteq> slot_of (ms_q s) pos" if "pos < y" "y < pos + ?c" for y
    using slot_of_window [of pos y "ms_q s" pos] that I(1) by auto
  have wrap: "slot_of (ms_q s) (pos + ?c) = slot_of (ms_q s) pos" by (simp add: slot_of_def)
  have w: "window_ok (pos + 1) q (ms_event s)"
    unfolding window_ok_def
  proof (intro allI impI)
    fix y assume y: "pos + 1 \<le> y \<and> y < pos + 1 + mq_capacity q"
    then have "y = pos + ?c \<or> pos < y \<and> y < pos + ?c" by (auto simp: q_def)
    then show "seq_at q y = y \<or> seq_at q y = y + 1 \<and> y < mq_write_pos q \<and> data_at q y = ms_event s y"
    proof
      assume "y = pos + ?c"
      then show ?thesis using wrap by (simp add: seq)
    next
      assume "pos < y \<and> y < pos + ?c"
      then show ?thesis using I(7) f other [of y] unfolding window_ok_def by (simp add: seq) (simp add: q_def)
    qed
  qed
  have h: "holds_pos (pos + 1) q (ms_event s) x y" if "holds_pos pos (ms_q s) (ms_event s) x y" for x y
  proof -
    have "y \<noteq> pos" using that sp I(1) by (auto simp: holds_pos_def)
    then show ?thesis
      using that other [of y] wrap by (auto simp: holds_pos_def seq less_Suc_eq) (auto simp: q_def)
  qed
  have "prod_ok (pos + 1) q (ms_event s) (ms_prod s i)" for i
    using I(8) [of i] f h by (cases "ms_prod s i") (auto simp: q_def)
  then have "mpsc_inv (s\<lparr>ms_cons := MC_Idle, ms_q := q\<rparr>)"
    using I(2-5) I(9) w r by (intro mpsc_invI [where f = "pos + 1"]) (simp_all add: q_def first_unfreed_def)
  then show ?thesis by (simp add: q_def)
qed

lemma mpsc_step_inv: "mpsc_step d False s s' \<Longrightarrow> mpsc_inv s \<Longrightarrow> mpsc_inv s'"
proof (induction rule: mpsc_step.induct)
  case (reserve s p pos block x)
  then show ?case by (intro inv_reserve)
next
  case (load_free s p block x pos n)
  then show ?case by (intro inv_load_free)
next
  case (load_busy s p block x pos n)
  then show ?case by (intro inv_load_busy)
next
  case (drop_data s p pos)
  then show ?case using mpsc_invD(8) [of s p] by simp
next
  case (drop_seq s p pos)
  then show ?case using mpsc_invD(8) [of s p] by simp
next
  case (pop_load s)
  then show ?case by (intro inv_consumer) (simp_all add: first_unfreed_def)
next
  case (pop_none s pos)
  then show ?case by (intro inv_consumer) (simp_all add: first_unfreed_def)
next
  case (pop_check s pos)
  then show ?case
    using mpsc_invD(6) [of s] by (intro inv_consumer) (simp_all add: first_unfreed_def)
next
  case (pop_read s pos)
  then have seq: "seq_at (ms_q s) pos = pos + 1" "pos = mq_read_pos (ms_q s)"
    using mpsc_invD(6) [of s] by auto
  have "data_at (ms_q s) pos = ms_event s pos"
    using published_event(4) [OF pop_read.prems _ seq(1)] pop_read.hyps by blast
  then show ?case
    using pop_read seq
    by (intro inv_consumer) (auto simp: first_unfreed_def simp del: One_nat_def)
qed (blast intro: inv_store_data inv_store_seq inv_pop_advance inv_pop_free)+

lemma mpsc_start_inv: "2 \<le> capacity \<Longrightarrow> mpsc_inv (mpsc_start d capacity)"
  by (auto simp: mpsc_inv_def mpsc_start_def MpscQueue_new_def mq_capacity_def slot_of_def
      first_unfreed_def window_ok_def)

lemma mpsc_reach_inv:
  "(mpsc_step d False)\<^sup>*\<^sup>* (mpsc_start e capacity) s \<Longrightarrow> 2 \<le> capacity \<Longrightarrow> mpsc_inv s"
  by (induction rule: rtranclp_induct) (auto intro: mpsc_start_inv mpsc_step_inv)

section \<open>The operations of one caller\<close>

lemma publish_simps [simp]:
  "mq_capacity (publish x pos q) = mq_capacity q" "slot_of (publish x pos q) p = slot_of q p"
  "mq_read_pos (publish x pos q) = mq_read_pos q" "mq_write_pos (publish x pos q) = mq_write_pos q"
  "length (mq_data (publish x pos q)) = length (mq_data q)"
  by (simp_all add: publish_def)

lemma publish_at:
  "0 < mq_capacity q \<Longrightarrow>
   seq_at (publish x pos q) p = (if slot_of q p = slot_of q pos then pos + 1 else seq_at q p)"
  "0 < mq_capacity q \<Longrightarrow> length (mq_data q) = mq_capacity q \<Longrightarrow>
   data_at (publish x pos q) p = (if slot_of q p = slot_of q pos then x else data_at q p)"
  by (simp_all add: publish_def nth_list_update)

lemma MTryPush_room:
  assumes inv: "mq_inv q" and room: "length (mq_items q) < mq_capacity q"
  shows "\<exists>q'. MTryPush d x q = (True, q') \<and> mq_inv q' \<and> mq_items q' = mq_items q @ [x] \<and>
           mq_capacity q' = mq_capacity q"
proof -
  let ?w = "mq_write_pos q" and ?r = "mq_read_pos q" and ?c = "mq_capacity q"
  have b: "2 \<le> ?c" "length (mq_data q) = ?c" "?r \<le> ?w" "?w < ?r + ?c"
    using inv room by (auto simp: mq_inv_def mq_items_def)
  then have c: "0 < ?c" by simp
  define q1 where "q1 = publish x ?w (q\<lparr>mq_write_pos := ?w + 1\<rparr>)"
  have "seq_at q ?w = ?w" using inv b by (simp add: mq_inv_def)
  then have push: "MTryPush d x q = (True, q1)" by (simp add: MTryPush_def Let_def q1_def)
  have slot: "slot_of q p = slot_of q ?w \<longleftrightarrow> p = ?w" if "?r \<le> p" "p < ?r + ?c" for p
    using slot_of_window [of ?r p q ?w] that b by simp
  have q1: "mq_read_pos q1 = ?r" "mq_write_pos q1 = ?w + 1" "mq_capacity q1 = ?c"
    "length (mq_data q1) = ?c"
    using b(2) by (simp_all add: q1_def)
  have at: "seq_at q1 p = (if slot_of q p = slot_of q ?w then ?w + 1 else seq_at q p)"
    "data_at q1 p = (if slot_of q p = slot_of q ?w then x else data_at q p)" for p
    using publish_at [of "q\<lparr>mq_write_pos := ?w + 1\<rparr>" x ?w p] c b(2) by (simp_all add: q1_def)
  have "mq_inv q1"
    unfolding mq_inv_def q1
  proof (intro conjI allI impI)
    fix p assume p: "?r \<le> p \<and> p < ?r + ?c"
    then show "seq_at q1 p = (if p < ?w + 1 then p + 1 else p)"
      using inv slot [of p] unfolding at mq_inv_def by auto
  qed (use b in simp_all)
  moreover have "mq_items q1 = mq_items q @ [x]"
  proof -
    have "map (data_at q1) [?r..<?w] = map (data_at q) [?r..<?w]"
      using slot b unfolding at by auto
    then show ?thesis using b(3) at(2) [of ?w] by (simp add: mq_items_def q1)
  qed
  ultimately show ?thesis using push by (simp add: q1_def)
qed

lemma MTryPop_item:
  assumes inv: "mq_inv q" and it: "mq_items q = x # xs"
  shows "\<exists>q'. MTryPop q = Some (x, q') \<and> mq_inv q' \<and> mq_items q' = xs \<and> mq_capacity q' = mq_capacity q"
proof -
  let ?w = "mq_write_pos q" and ?r = "mq_read_pos q" and ?c = "mq_capacity q"
  have b: "2 \<le> ?c" "length (mq_data q) = ?c" "?r < ?w" "?w \<le> ?r + ?c"
    using inv it by (auto simp: mq_inv_def mq_items_def upt_rec split: if_splits)
  then have c: "0 < ?c" by simp
  define q1 where "q1 = q\<lparr>mq_read_pos := ?r + 1, mq_seq := (mq_seq q)[slot_of q ?r := ?r + ?c]\<rparr>"
  have x: "x = data_at q ?r" and xs: "xs = map (data_at q) [?r + 1..<?w]"
    using it b by (auto simp: mq_items_def upt_conv_Cons)
  have "seq_at q ?r = ?r + 1" using inv b by (simp add: mq_inv_def)
  then have pop: "MTryPop q = Some (x, q1)" using x by (simp add: MTryPop_def Let_def q1_def)
  have seq: "seq_at q1 p = (if slot_of q p = slot_of q ?r then ?r + ?c else seq_at q p)" for p
    using seq_upd [OF c, of ?r "?r + ?c" p] by (simp add: q1_def)
  have slot: "slot_of q p = slot_of q ?r \<longleftrightarrow> p = ?r + ?c" if "?r < p" "p < ?r + 1 + ?c" for p
    using slot_of_window [of ?r p q ?r] that c by (cases "p = ?r + ?c") (auto simp: slot_of_def)
  have "mq_inv q1"
    unfolding mq_inv_def
  proof (intro conjI allI impI)
    fix p assume "mq_read_pos q1 \<le> p \<and> p < mq_read_pos q1 + mq_capacity q1"
    then have p: "?r < p" "p < ?r + 1 + ?c" by (auto simp: q1_def)
    show "seq_at q1 p = (if p < mq_write_pos q1 then p + 1 else p)"
      using inv b p slot [OF p] by (auto simp: seq mq_inv_def) (simp_all add: q1_def)
  qed (use b in \<open>simp_all add: q1_def\<close>)
  moreover have "mq_items q1 = xs" using xs by (simp add: mq_items_def q1_def)
  ultimately show ?thesis using pop by (simp add: q1_def)
qed

interpretation mpsc: fifo_queue "\<lambda>_. mq_inv" mq_items mq_capacity "MTryPush d" MTryPop for d
proof unfold_locales
  fix q :: "'a MpscQueue" and n :: nat
  show "mq_inv q \<Longrightarrow> length (mq_items q) \<le> mq_capacity q" by (auto simp: mq_inv_def mq_items_def)
  show "MTryPop q = None" if "mq_inv q" "mq_items q = []"
  proof -
    have "mq_read_pos q = mq_write_pos q" using that by (auto simp: mq_inv_def mq_items_def)
    then have "seq_at q (mq_read_pos q) = mq_read_pos q" using that(1) by (simp add: mq_inv_def)
    then show ?thesis by (simp add: MTryPop_def Let_def)
  qed
qed (auto intro: MTryPush_room MTryPop_item)

text \<open>A push into a full queue takes the drop branch and overwrites the slot being read.\<close>

lemma MTryPush_full:
  assumes inv: "mq_inv q" and full: "length (mq_items q) = mq_capacity q"
  shows "\<not> fst (MTryPush d x q)" "mq_wedged (snd (MTryPush d x q))"
proof -
  let ?w = "mq_write_pos q" and ?r = "mq_read_pos q" and ?c = "mq_capacity q"
  have b: "2 \<le> ?c" "?w = ?r + ?c" using inv full by (auto simp: mq_inv_def mq_items_def)
  then have c: "0 < ?c" by simp
  have slot: "slot_of q ?w = slot_of q ?r" using b by (simp add: slot_of_def)
  have "seq_at q ?r = ?r + 1" using inv b by (simp add: mq_inv_def)
  then have busy: "seq_at q ?w \<noteq> ?w" using slot b by simp
  then show "\<not> fst (MTryPush d x q)" by (simp add: MTryPush_def Let_def)
  have "seq_at (publish d ?w (q\<lparr>mq_write_pos := ?w + 1\<rparr>)) ?r = ?w + 1"
    using publish_at(1) [of "q\<lparr>mq_write_pos := ?w + 1\<rparr>" d ?w ?r] c slot by simp
  then show "mq_wedged (snd (MTryPush d x q))"
    using busy b c by (simp add: MTryPush_def Let_def mq_wedged_def)
qed

lemma mq_wedged_ops:
  assumes "mq_wedged q"
  shows "MTryPop q = None" "mq_wedged (snd (MTryPush d x q))"
proof -
  let ?w = "mq_write_pos q" and ?r = "mq_read_pos q"
  have b: "0 < mq_capacity q" "?r < ?w" "?r + 1 < seq_at q ?r" using assms by (auto simp: mq_wedged_def)
  then show "MTryPop q = None" by (simp add: MTryPop_def Let_def)
  have "?r + 1 < seq_at (publish y ?w (q\<lparr>mq_write_pos := ?w + 1\<rparr>)) ?r" for y
    using publish_at(1) [of "q\<lparr>mq_write_pos := ?w + 1\<rparr>" y ?w ?r] b by simp
  then show "mq_wedged (snd (MTryPush d x q))"
    using b by (simp add: MTryPush_def Let_def mq_wedged_def)
qed

lemma mq_wedged_run: "mq_wedged q \<Longrightarrow> fst (snd (queue_run (MTryPush d) MTryPop ops q)) = []"
proof (induction ops arbitrary: q)
  case (Cons op ops)
  then show ?case
    using mq_wedged_ops [OF Cons.prems] by (cases op) (auto simp: Let_def case_prod_unfold)
qed simp

section \<open>Properties\<close>



text \<open>
  One dropped event stops the queue. When all slots hold unread events, \<open>TryPush\<close> reports
  the drop, but the sentinel it publishes replaces the oldest unread event with a sequence
  number the consumer does not accept: whatever is pushed and popped afterwards, no event
  is ever delivered again.
\<close>
theorem mpsc_drop_stops_delivery:
  assumes "mq_inv q" "length (mq_items q) = mq_capacity q"
  shows "\<not> fst (MTryPush d x q) \<and>
         (\<forall>ops. fst (snd (queue_run (MTryPush d) MTryPop ops (snd (MTryPush d x q)))) = [])"
  using MTryPush_full [OF assms, of d x] mq_wedged_run [of "snd (MTryPush d x q)" d] by simp

theorem mpsc_drop_stops_delivery_witness:
  "mq_items \<lparr>mq_write_pos = 2, mq_dropped_count = 0, mq_seq = [1, 2], mq_data = [5, 6::nat], mq_read_pos = 0\<rparr>
     = [5, 6] \<and>
   fst (snd (queue_run (MTryPush 0) MTryPop [Deq, Deq, Deq]
     (snd (MTryPush 0 7 \<lparr>mq_write_pos = 2, mq_dropped_count = 0, mq_seq = [1, 2], mq_data = [5, 6::nat], mq_read_pos = 0\<rparr>))))
     = []"
proof -
  let ?q = "\<lparr>mq_write_pos = 2, mq_dropped_count = 0, mq_seq = [1, 2], mq_data = [5, 6], mq_read_pos = 0\<rparr> :: nat MpscQueue"
  have "mq_items ?q = [5, 6]" by code_simp
  moreover have "mq_capacity ?q = 2" by code_simp
  moreover have "mq_inv ?q"
    unfolding mq_inv_def by (auto simp: mq_capacity_def slot_of_def less_2_cases_iff simp del: length_mq_seq)
  ultimately show ?thesis
    using mpsc_drop_stops_delivery [of ?q 0 7] by (simp del: queue_run.simps)
qed

text \<open>
  The same in concurrent executions: when the consumer is idle in front of a published,
  unread event and a non-blocking producer has used up its spin budget on the position one
  lap ahead, the producer may drop, and from then on no execution of any producers and the
  consumer delivers a further event.
\<close>
theorem mpsc_concurrent_drop_stops_delivery:
  assumes inv: "mpsc_inv s" and idle: "ms_cons s = MC_Idle"
    and unread: "mq_seq (ms_q s) ! slot_of (ms_q s) (mq_read_pos (ms_q s)) = mq_read_pos (ms_q s) + 1"
    and pc: "ms_prod s p = MP_Reserved False x pos n" "kMaxSpin < n"
    and lap: "pos = mq_read_pos (ms_q s) + mq_capacity (ms_q s)"
  shows "\<exists>s1. (mpsc_step d True)\<^sup>*\<^sup>* s s1 \<and> ms_popped s1 = ms_popped s \<and>
    (\<forall>s2. (mpsc_step d True)\<^sup>*\<^sup>* s1 s2 \<longrightarrow> ms_popped s2 = ms_popped s)"
proof -
  note I = mpsc_invD [OF inv]
  let ?r = "mq_read_pos (ms_q s)" and ?c = "mq_capacity (ms_q s)"
  define sa where "sa = s\<lparr>ms_prod := (ms_prod s)(p := MP_Drop pos)\<rparr>"
  define sb where "sb = sa\<lparr>ms_prod := (ms_prod sa)(p := MP_DropWritten pos),
    ms_q := (ms_q sa)\<lparr>mq_data := (mq_data (ms_q sa))[slot_of (ms_q sa) pos := d]\<rparr>\<rparr>"
  define sc where "sc = sb\<lparr>ms_prod := (ms_prod sb)(p := MP_Idle),
    ms_q := (ms_q sb)\<lparr>mq_seq := (mq_seq (ms_q sb))[slot_of (ms_q sb) pos := pos + 1],
      mq_dropped_count := mq_dropped_count (ms_q sb) + 1\<rparr>\<rparr>"
  have slot: "slot_of (ms_q s) pos = slot_of (ms_q s) ?r" using lap by (simp add: slot_of_def)
  have "seq_at (ms_q s) pos \<noteq> pos" using unread lap slot I(2) by simp
  then have "mpsc_step d True s sa"
    unfolding sa_def by (intro mpsc_step.give_up [OF pc(1)]) (use pc in simp_all)
  moreover have "mpsc_step d True sa sb"
    unfolding sb_def by (rule mpsc_step.drop_data) (simp add: sa_def)
  moreover have "mpsc_step d True sb sc"
    unfolding sc_def by (rule mpsc_step.drop_seq) (simp add: sb_def)
  ultimately have run: "(mpsc_step d True)\<^sup>*\<^sup>* s sc"
    by (meson converse_rtranclp_into_rtranclp r_into_rtranclp)
  have f: "first_unfreed (ms_q s) (ms_cons s) = ?r" using idle by (simp add: first_unfreed_def)
  have "?r < y" if "mp_pos (ms_prod s i) = Some y" for i y
    using I(8) [of i] that unread f I(1) by (cases "ms_prod s i") (auto simp: holds_pos_def le_less)
  moreover have "?r < mq_write_pos (ms_q s)"
    using I(8) [of p] pc(1) lap by (simp add: holds_pos_def)
  ultimately have "mpsc_wedged sc"
    using idle slot lap I(1,2) by (auto simp: mpsc_wedged_def Let_def sa_def sb_def sc_def)
  moreover have "ms_popped sc = ms_popped s" by (simp add: sa_def sb_def sc_def)
  ultimately show ?thesis using run wedged_forever by metis
qed

theorem mpsc_concurrent_drop_stops_delivery_witness:
  "\<exists>s1. (mpsc_step (0::nat) True)\<^sup>*\<^sup>*
     \<lparr>ms_q = \<lparr>mq_write_pos = 3, mq_dropped_count = 0, mq_seq = [1, 2], mq_data = [5, 6], mq_read_pos = 0\<rparr>,
      ms_prod = (\<lambda>_. MP_Idle)(0 := MP_Reserved False 7 2 10001), ms_cons = MC_Idle,
      ms_event = (\<lambda>p. p + 5), ms_popped = []\<rparr> s1 \<and>
     (\<forall>s2. (mpsc_step 0 True)\<^sup>*\<^sup>* s1 s2 \<longrightarrow> ms_popped s2 = [])"
proof -
  let ?q = "\<lparr>mq_write_pos = 3, mq_dropped_count = 0, mq_seq = [1, 2], mq_data = [5, 6], mq_read_pos = 0\<rparr> :: nat MpscQueue"
  let ?s = "\<lparr>ms_q = ?q, ms_prod = (\<lambda>_. MP_Idle)(0 := MP_Reserved False 7 2 10001), ms_cons = MC_Idle,
      ms_event = (\<lambda>p. p + 5), ms_popped = []\<rparr> :: nat mpsc_sys"
  have inv: "mpsc_inv ?s"
    by (rule mpsc_invI [where f = 0])
      (auto simp: mq_capacity_def slot_of_def first_unfreed_def window_ok_def less_Suc_eq
        holds_pos_def simp del: length_mq_seq)
  show ?thesis
    using mpsc_concurrent_drop_stops_delivery [OF inv, of 0 7 2 10001 0]
    by (simp add: mq_capacity_def slot_of_def kMaxSpin_def del: length_mq_seq) blast
qed

end
