(* ===== verification/Config.thy ===== *)
theory Config
  imports Events
begin

text \<open>
  The configuration of the collector (\<open>src/config/config_struct.h\<close>) and its loader
  (\<open>src/config/config_loader.cpp\<close>). The YAML library is a parameter: a record of the accessors
  the loader calls (\<open>node[key]\<close>, \<open>as<T>()\<close>, \<open>IsSequence()\<close>, iteration), each of which may throw.
  Every optional field is read by the same \<open>if(node[key]) field = node[key].as<T>()\<close> pattern
  (\<open>opt_field\<close>); the fields are listed in the order of the source, since the first exception
  ends the load.
\<close>

section \<open>Configuration records\<close>

record GlobalConfig =
  gc_environment :: string
  gc_log_level :: string
  gc_cpu_affinity :: bool
  gc_log_file_path :: string

record ThreadingConfig =
  tc_network_core :: u32
  tc_parser_cores :: "u32 list"
  tc_storage_core :: u32
  tc_pub_core :: u32
  tc_telemetry_core :: u32

record TelemetryConfig =
  tl_prometheus_enabled :: bool
  tl_listen_port :: u16
  tl_report_interval_ms :: u32

record PubConfig =
  pc_tcp_endpoint :: string
  pc_ipc_endpoint :: string

record DolphinDBConfig =
  dc_host :: string
  dc_port :: u16
  dc_user :: string
  dc_password :: string
  dc_buffer_size :: u32
  dc_flush_interval_ms :: u32
  dc_mtw_batch_size :: int
  dc_mtw_throttle_sec :: "32 word"
  dc_mtw_thread_count :: int
  dc_auto_init_schema :: bool
  dc_health_check_interval_ms :: u32
  dc_dfs_db_path :: string
  dc_hash_buckets :: int
  dc_partition_granularity :: string

record MmapConfig =
  mc_output_path :: string
  mc_sync_interval_records :: u32

record CsvConfig =
  cc_output_path :: string

record StorageConfig =
  sc_use_engine :: string
  sc_persist_to_disk :: bool
  sc_dolphindb :: DolphinDBConfig
  sc_mmap :: MmapConfig
  sc_csv :: CsvConfig

record SymbolConfig =
  sym_name :: string
  sym_enabled :: bool
  sym_depth_level :: u32
  sym_record_tick :: bool
  sym_persist_to_disk :: bool

record ChannelConfig =
  ch_type :: string
  ch_symbols :: "SymbolConfig list"

record RithmicConfig =
  rc_user :: string
  rc_password :: string
  rc_shm_name :: string
  rc_engine_core :: u32
  rc_forwarder_core :: u32
  rc_ssl_cert_file :: string
  rc_domain_servers :: string
  rc_domain_name :: string
  rc_license_servers :: string
  rc_local_broker :: string
  rc_logger_servers :: string
  rc_app_name :: string
  rc_app_version :: string
  rc_repository_connect_pt :: string
  rc_md_connect_pt :: string
  rc_md_connect_pt_agg :: string
  rc_use_aggregated_md :: bool
  rc_ih_connect_pt :: string
  rc_ts_connect_pt :: string
  rc_pnl_connect_pt :: string

record ExchangeConfig =
  ex_name :: string
  ex_enabled :: bool
  ex_channels :: "ChannelConfig list"

record RootConfig =
  cfg_global :: GlobalConfig
  cfg_threading_matrix :: ThreadingConfig
  cfg_telemetry :: TelemetryConfig
  cfg_pub :: PubConfig
  cfg_storage :: StorageConfig
  cfg_rithmic :: RithmicConfig
  cfg_exchanges :: "ExchangeConfig list"

section \<open>Defaults\<close>

definition default_global :: GlobalConfig where
  "default_global = \<lparr>gc_environment = ''production'', gc_log_level = ''info'',
     gc_cpu_affinity = True, gc_log_file_path = ''./log/collector.log''\<rparr>"

definition default_threading :: ThreadingConfig where
  "default_threading = \<lparr>tc_network_core = 2, tc_parser_cores = [3, 4], tc_storage_core = 5,
     tc_pub_core = 6, tc_telemetry_core = 7\<rparr>"

definition default_telemetry :: TelemetryConfig where
  "default_telemetry = \<lparr>tl_prometheus_enabled = True, tl_listen_port = 8080,
     tl_report_interval_ms = 1000\<rparr>"

definition default_pub :: PubConfig where
  "default_pub = \<lparr>pc_tcp_endpoint = ''tcp://*:5555'',
     pc_ipc_endpoint = ''ipc:///tmp/collector_pub.ipc''\<rparr>"

text \<open>\<open>mtw_throttle_sec = 1.0f\<close> as its binary32 pattern.\<close>
definition default_dolphindb :: DolphinDBConfig where
  "default_dolphindb = \<lparr>dc_host = ''127.0.0.1'', dc_port = 8848, dc_user = ''admin'',
     dc_password = '''', dc_buffer_size = 2000, dc_flush_interval_ms = 10,
     dc_mtw_batch_size = 20000, dc_mtw_throttle_sec = 0x3F800000, dc_mtw_thread_count = 4,
     dc_auto_init_schema = True, dc_health_check_interval_ms = 5000,
     dc_dfs_db_path = ''dfs://trade_db'', dc_hash_buckets = 20,
     dc_partition_granularity = ''day''\<rparr>"

definition default_mmap :: MmapConfig where
  "default_mmap = \<lparr>mc_output_path = ''./mmap_cache/'', mc_sync_interval_records = 10000\<rparr>"

definition default_csv :: CsvConfig where
  "default_csv = \<lparr>cc_output_path = ''./trade_data/''\<rparr>"

definition default_storage :: StorageConfig where
  "default_storage = \<lparr>sc_use_engine = ''csv'', sc_persist_to_disk = True,
     sc_dolphindb = default_dolphindb, sc_mmap = default_mmap, sc_csv = default_csv\<rparr>"

definition default_symbol :: SymbolConfig where
  "default_symbol = \<lparr>sym_name = '''', sym_enabled = True, sym_depth_level = 5,
     sym_record_tick = True, sym_persist_to_disk = True\<rparr>"

definition default_rithmic :: RithmicConfig where
  "default_rithmic = \<lparr>rc_user = '''', rc_password = '''', rc_shm_name = ''/sqc_rithmic'',
     rc_engine_core = 8, rc_forwarder_core = 9,
     rc_ssl_cert_file = ''etc/rithmic_ssl_cert_auth_params'',
     rc_domain_servers = '''', rc_domain_name = '''', rc_license_servers = '''',
     rc_local_broker = '''', rc_logger_servers = '''',
     rc_app_name = ''jewa:SmartQuant'', rc_app_version = ''1.0.0.0'',
     rc_repository_connect_pt = ''login_agent_repositoryc'',
     rc_md_connect_pt = ''login_agent_tpc'', rc_md_connect_pt_agg = '''',
     rc_use_aggregated_md = False, rc_ih_connect_pt = '''',
     rc_ts_connect_pt = ''login_agent_opc'', rc_pnl_connect_pt = ''''\<rparr>"

definition default_exchange :: ExchangeConfig where
  "default_exchange = \<lparr>ex_name = '''', ex_enabled = False, ex_channels = []\<rparr>"

definition default_root :: RootConfig where
  "default_root = \<lparr>cfg_global = default_global, cfg_threading_matrix = default_threading,
     cfg_telemetry = default_telemetry, cfg_pub = default_pub, cfg_storage = default_storage,
     cfg_rithmic = default_rithmic, cfg_exchanges = []\<rparr>"

section \<open>Reading YAML\<close>

datatype config_error =
  YamlError string
| SymbolTooLong string nat
| DepthTooLarge string u32
| ExitFailure string

text \<open>
  What the loader uses of a YAML node: the lookup gives \<open>None\<close> for an undefined key, and any
  accessor may throw (\<open>Inl\<close>).
\<close>
record 'n yaml =
  y_get :: "'n \<Rightarrow> string \<Rightarrow> config_error + 'n option"
  y_string :: "'n \<Rightarrow> config_error + string"
  y_bool :: "'n \<Rightarrow> config_error + bool"
  y_u16 :: "'n \<Rightarrow> config_error + u16"
  y_u32 :: "'n \<Rightarrow> config_error + u32"
  y_int :: "'n \<Rightarrow> config_error + int"
  y_float :: "'n \<Rightarrow> config_error + 32 word"
  y_is_seq :: "'n \<Rightarrow> bool"
  y_elems :: "'n \<Rightarrow> 'n list"
  y_remove :: "'n \<Rightarrow> string \<Rightarrow> 'n"

definition bind_res :: "'e + 'a \<Rightarrow> ('a \<Rightarrow> 'e + 'b) \<Rightarrow> 'e + 'b" where
  "bind_res r f = (case r of Inl e \<Rightarrow> Inl e | Inr a \<Rightarrow> f a)"

text \<open>\<open>node[key].as<T>()\<close>: an undefined node throws.\<close>
definition req_field :: "'n yaml \<Rightarrow> 'n \<Rightarrow> string \<Rightarrow> ('n \<Rightarrow> config_error + 'a) \<Rightarrow> config_error + 'a" where
  "req_field Y node key conv =
     bind_res (y_get Y node key) (\<lambda>r. case r of
        None \<Rightarrow> Inl (YamlError key) | Some n \<Rightarrow> conv n)"

text \<open>\<open>if(node[key]) \<dots> = node[key].as<T>()\<close>.\<close>
definition opt_field ::
  "'n yaml \<Rightarrow> 'n \<Rightarrow> string \<Rightarrow> ('n \<Rightarrow> config_error + 'a) \<Rightarrow> ('a \<Rightarrow> 'c \<Rightarrow> 'c) \<Rightarrow> 'c \<Rightarrow> config_error + 'c" where
  "opt_field Y node key conv upd c =
     bind_res (y_get Y node key) (\<lambda>r. case r of
        None \<Rightarrow> Inr c | Some n \<Rightarrow> bind_res (conv n) (\<lambda>v. Inr (upd v c)))"

text \<open>\<open>if(node[key]) { \<dots> }\<close> around a block of field reads on the sub-node.\<close>
definition opt_block :: "'n yaml \<Rightarrow> 'n \<Rightarrow> string \<Rightarrow> ('n \<Rightarrow> 'c \<Rightarrow> config_error + 'c) \<Rightarrow> 'c \<Rightarrow> config_error + 'c" where
  "opt_block Y node key blk c =
     bind_res (y_get Y node key) (\<lambda>r. case r of None \<Rightarrow> Inr c | Some n \<Rightarrow> blk n c)"

fun run_fields :: "('c \<Rightarrow> config_error + 'c) list \<Rightarrow> 'c \<Rightarrow> config_error + 'c" where
  "run_fields [] c = Inr c"
| "run_fields (f # fs) c = bind_res (f c) (run_fields fs)"

fun map_res :: "('a \<Rightarrow> 'e + 'b) \<Rightarrow> 'a list \<Rightarrow> 'e + 'b list" where
  "map_res f [] = Inr []"
| "map_res f (x # xs) = bind_res (f x) (\<lambda>y. bind_res (map_res f xs) (\<lambda>ys. Inr (y # ys)))"

text \<open>\<open>if(node[key] && node[key].IsSequence()) for(x : node[key]) push_back(conv(x))\<close>.\<close>
definition seq_field ::
  "'n yaml \<Rightarrow> 'n \<Rightarrow> string \<Rightarrow> ('n \<Rightarrow> config_error + 'a) \<Rightarrow> ('a list \<Rightarrow> 'c \<Rightarrow> 'c) \<Rightarrow> 'c \<Rightarrow> config_error + 'c" where
  "seq_field Y node key conv upd c =
     bind_res (y_get Y node key) (\<lambda>r. case r of
        None \<Rightarrow> Inr c
      | Some n \<Rightarrow> (if y_is_seq Y n
                  then bind_res (map_res conv (y_elems Y n)) (\<lambda>vs. Inr (upd vs c)) else Inr c))"


section \<open>The loader\<close>

definition kMaxSymbolChars :: nat where
  "kMaxSymbolChars = 11"

text \<open>The length check follows the read of the name, the depth check the read of the depth.\<close>
definition ParseSymbol :: "'n yaml \<Rightarrow> 'n \<Rightarrow> config_error + SymbolConfig" where
  "ParseSymbol Y node =
     bind_res (req_field Y node ''name'' (y_string Y)) (\<lambda>name.
       let s = default_symbol\<lparr>sym_name := name\<rparr> in
       if kMaxSymbolChars < length name then Inl (SymbolTooLong name (length name))
       else run_fields
         [opt_field Y node ''enabled'' (y_bool Y) (\<lambda>v s. s\<lparr>sym_enabled := v\<rparr>),
          (\<lambda>s. opt_block Y node ''depth_level'' (\<lambda>n s.
             bind_res (y_u32 Y n) (\<lambda>d.
               if kMaxOrderbookLevels < unat d then Inl (DepthTooLarge name d)
               else Inr (s\<lparr>sym_depth_level := d\<rparr>))) s),
          opt_field Y node ''record_tick'' (y_bool Y) (\<lambda>v s. s\<lparr>sym_record_tick := v\<rparr>),
          opt_field Y node ''persist_to_disk'' (y_bool Y) (\<lambda>v s. s\<lparr>sym_persist_to_disk := v\<rparr>)] s)"

definition ParseChannel :: "'n yaml \<Rightarrow> 'n \<Rightarrow> config_error + ChannelConfig" where
  "ParseChannel Y node =
     bind_res (req_field Y node ''type'' (y_string Y)) (\<lambda>t.
       seq_field Y node ''symbols'' (ParseSymbol Y) (\<lambda>v c. c\<lparr>ch_symbols := v\<rparr>)
         \<lparr>ch_type = t, ch_symbols = []\<rparr>)"

definition ParseRithmicConfig :: "'n yaml \<Rightarrow> 'n \<Rightarrow> config_error + RithmicConfig" where
  "ParseRithmicConfig Y node =
     (let str = (\<lambda>key. opt_field Y node key (y_string Y)); num = (\<lambda>key. opt_field Y node key (y_u32 Y))
      in run_fields
        [str ''user'' (\<lambda>v r. r\<lparr>rc_user := v\<rparr>),
         str ''password'' (\<lambda>v r. r\<lparr>rc_password := v\<rparr>),
         str ''shm_name'' (\<lambda>v r. r\<lparr>rc_shm_name := v\<rparr>),
         num ''engine_core'' (\<lambda>v r. r\<lparr>rc_engine_core := v\<rparr>),
         num ''forwarder_core'' (\<lambda>v r. r\<lparr>rc_forwarder_core := v\<rparr>),
         str ''ssl_cert_file'' (\<lambda>v r. r\<lparr>rc_ssl_cert_file := v\<rparr>),
         str ''domain_servers'' (\<lambda>v r. r\<lparr>rc_domain_servers := v\<rparr>),
         str ''domain_name'' (\<lambda>v r. r\<lparr>rc_domain_name := v\<rparr>),
         str ''license_servers'' (\<lambda>v r. r\<lparr>rc_license_servers := v\<rparr>),
         str ''local_broker'' (\<lambda>v r. r\<lparr>rc_local_broker := v\<rparr>),
         str ''logger_servers'' (\<lambda>v r. r\<lparr>rc_logger_servers := v\<rparr>),
         str ''app_name'' (\<lambda>v r. r\<lparr>rc_app_name := v\<rparr>),
         str ''app_version'' (\<lambda>v r. r\<lparr>rc_app_version := v\<rparr>),
         str ''repository_connect_pt'' (\<lambda>v r. r\<lparr>rc_repository_connect_pt := v\<rparr>),
         str ''md_connect_pt'' (\<lambda>v r. r\<lparr>rc_md_connect_pt := v\<rparr>),
         str ''md_connect_pt_agg'' (\<lambda>v r. r\<lparr>rc_md_connect_pt_agg := v\<rparr>),
         opt_field Y node ''use_aggregated_md'' (y_bool Y) (\<lambda>v r. r\<lparr>rc_use_aggregated_md := v\<rparr>),
         str ''ih_connect_pt'' (\<lambda>v r. r\<lparr>rc_ih_connect_pt := v\<rparr>),
         str ''ts_connect_pt'' (\<lambda>v r. r\<lparr>rc_ts_connect_pt := v\<rparr>),
         str ''pnl_connect_pt'' (\<lambda>v r. r\<lparr>rc_pnl_connect_pt := v\<rparr>)] default_rithmic)"

definition ParseExchange :: "'n yaml \<Rightarrow> 'n \<Rightarrow> config_error + ExchangeConfig" where
  "ParseExchange Y node =
     bind_res (req_field Y node ''name'' (y_string Y)) (\<lambda>name.
       run_fields
         [opt_field Y node ''enabled'' (y_bool Y) (\<lambda>v e. e\<lparr>ex_enabled := v\<rparr>),
          seq_field Y node ''channels'' (ParseChannel Y) (\<lambda>v e. e\<lparr>ex_channels := v\<rparr>)]
         (default_exchange\<lparr>ex_name := name\<rparr>))"

definition load_global :: "'n yaml \<Rightarrow> 'n \<Rightarrow> GlobalConfig \<Rightarrow> config_error + GlobalConfig" where
  "load_global Y g = run_fields
     [opt_field Y g ''environment'' (y_string Y) (\<lambda>v c. c\<lparr>gc_environment := v\<rparr>),
      opt_field Y g ''log_level'' (y_string Y) (\<lambda>v c. c\<lparr>gc_log_level := v\<rparr>),
      opt_field Y g ''cpu_affinity'' (y_bool Y) (\<lambda>v c. c\<lparr>gc_cpu_affinity := v\<rparr>),
      opt_field Y g ''log_file_path'' (y_string Y) (\<lambda>v c. c\<lparr>gc_log_file_path := v\<rparr>)]"

definition load_threading :: "'n yaml \<Rightarrow> 'n \<Rightarrow> ThreadingConfig \<Rightarrow> config_error + ThreadingConfig" where
  "load_threading Y t = run_fields
     [opt_field Y t ''network_core'' (y_u32 Y) (\<lambda>v c. c\<lparr>tc_network_core := v\<rparr>),
      seq_field Y t ''parser_cores'' (y_u32 Y) (\<lambda>v c. c\<lparr>tc_parser_cores := v\<rparr>),
      opt_field Y t ''storage_core'' (y_u32 Y) (\<lambda>v c. c\<lparr>tc_storage_core := v\<rparr>),
      opt_field Y t ''pub_core'' (y_u32 Y) (\<lambda>v c. c\<lparr>tc_pub_core := v\<rparr>),
      opt_field Y t ''telemetry_core'' (y_u32 Y) (\<lambda>v c. c\<lparr>tc_telemetry_core := v\<rparr>)]"

definition load_telemetry :: "'n yaml \<Rightarrow> 'n \<Rightarrow> TelemetryConfig \<Rightarrow> config_error + TelemetryConfig" where
  "load_telemetry Y t = run_fields
     [opt_field Y t ''prometheus_enabled'' (y_bool Y) (\<lambda>v c. c\<lparr>tl_prometheus_enabled := v\<rparr>),
      opt_field Y t ''listen_port'' (y_u16 Y) (\<lambda>v c. c\<lparr>tl_listen_port := v\<rparr>),
      opt_field Y t ''report_interval_ms'' (y_u32 Y) (\<lambda>v c. c\<lparr>tl_report_interval_ms := v\<rparr>)]"

definition load_pub :: "'n yaml \<Rightarrow> 'n \<Rightarrow> PubConfig \<Rightarrow> config_error + PubConfig" where
  "load_pub Y p = run_fields
     [opt_field Y p ''tcp_endpoint'' (y_string Y) (\<lambda>v c. c\<lparr>pc_tcp_endpoint := v\<rparr>),
      opt_field Y p ''ipc_endpoint'' (y_string Y) (\<lambda>v c. c\<lparr>pc_ipc_endpoint := v\<rparr>)]"

text \<open>
  The password is removed from the node once it has been read: the fields behind it are read
  from the node without it.
\<close>
definition load_dolphindb :: "'n yaml \<Rightarrow> 'n \<Rightarrow> DolphinDBConfig \<Rightarrow> config_error + DolphinDBConfig" where
  "load_dolphindb Y d c0 =
     bind_res (run_fields
       [opt_field Y d ''host'' (y_string Y) (\<lambda>v c. c\<lparr>dc_host := v\<rparr>),
        opt_field Y d ''port'' (y_u16 Y) (\<lambda>v c. c\<lparr>dc_port := v\<rparr>),
        opt_field Y d ''user'' (y_string Y) (\<lambda>v c. c\<lparr>dc_user := v\<rparr>)] c0) (\<lambda>c1.
     bind_res (y_get Y d ''password'') (\<lambda>pw.
     bind_res (case pw of
         None \<Rightarrow> Inr (d, c1)
       | Some n \<Rightarrow> bind_res (y_string Y n) (\<lambda>v. Inr (y_remove Y d ''password'', c1\<lparr>dc_password := v\<rparr>)))
       (\<lambda>(d, c2). run_fields
       [opt_field Y d ''buffer_size'' (y_u32 Y) (\<lambda>v c. c\<lparr>dc_buffer_size := v\<rparr>),
        opt_field Y d ''flush_interval_ms'' (y_u32 Y) (\<lambda>v c. c\<lparr>dc_flush_interval_ms := v\<rparr>),
        opt_field Y d ''mtw_batch_size'' (y_int Y) (\<lambda>v c. c\<lparr>dc_mtw_batch_size := v\<rparr>),
        opt_field Y d ''mtw_throttle_sec'' (y_float Y) (\<lambda>v c. c\<lparr>dc_mtw_throttle_sec := v\<rparr>),
        opt_field Y d ''mtw_thread_count'' (y_int Y) (\<lambda>v c. c\<lparr>dc_mtw_thread_count := v\<rparr>),
        opt_field Y d ''auto_init_schema'' (y_bool Y) (\<lambda>v c. c\<lparr>dc_auto_init_schema := v\<rparr>),
        opt_field Y d ''health_check_interval_ms'' (y_u32 Y) (\<lambda>v c. c\<lparr>dc_health_check_interval_ms := v\<rparr>),
        opt_field Y d ''dfs_db_path'' (y_string Y) (\<lambda>v c. c\<lparr>dc_dfs_db_path := v\<rparr>),
        opt_field Y d ''hash_buckets'' (y_int Y) (\<lambda>v c. c\<lparr>dc_hash_buckets := v\<rparr>),
        opt_field Y d ''partition_granularity'' (y_string Y) (\<lambda>v c. c\<lparr>dc_partition_granularity := v\<rparr>)] c2)))"

definition load_mmap :: "'n yaml \<Rightarrow> 'n \<Rightarrow> MmapConfig \<Rightarrow> config_error + MmapConfig" where
  "load_mmap Y m = run_fields
     [opt_field Y m ''output_path'' (y_string Y) (\<lambda>v c. c\<lparr>mc_output_path := v\<rparr>),
      opt_field Y m ''sync_interval_records'' (y_u32 Y) (\<lambda>v c. c\<lparr>mc_sync_interval_records := v\<rparr>)]"

definition load_csv :: "'n yaml \<Rightarrow> 'n \<Rightarrow> CsvConfig \<Rightarrow> config_error + CsvConfig" where
  "load_csv Y n = opt_field Y n ''output_path'' (y_string Y) (\<lambda>v c. c\<lparr>cc_output_path := v\<rparr>)"

text \<open>A block of reads on one member of a larger record.\<close>
definition on_member :: "('c \<Rightarrow> 'm) \<Rightarrow> ('m \<Rightarrow> 'c \<Rightarrow> 'c) \<Rightarrow> ('m \<Rightarrow> config_error + 'm) \<Rightarrow> 'c \<Rightarrow> config_error + 'c" where
  "on_member sel put f c = bind_res (f (sel c)) (\<lambda>m. Inr (put m c))"

definition load_storage :: "'n yaml \<Rightarrow> 'n \<Rightarrow> StorageConfig \<Rightarrow> config_error + StorageConfig" where
  "load_storage Y s = run_fields
     [opt_field Y s ''use_engine'' (y_string Y) (\<lambda>v c. c\<lparr>sc_use_engine := v\<rparr>),
      opt_field Y s ''persist_to_disk'' (y_bool Y) (\<lambda>v c. c\<lparr>sc_persist_to_disk := v\<rparr>),
      opt_block Y s ''dolphindb'' (\<lambda>n. on_member sc_dolphindb (\<lambda>v c. c\<lparr>sc_dolphindb := v\<rparr>) (load_dolphindb Y n)),
      opt_block Y s ''mmap'' (\<lambda>n. on_member sc_mmap (\<lambda>v c. c\<lparr>sc_mmap := v\<rparr>) (load_mmap Y n)),
      opt_block Y s ''csv'' (\<lambda>n. on_member sc_csv (\<lambda>v c. c\<lparr>sc_csv := v\<rparr>) (load_csv Y n))]"

text \<open>\<open>YAML::LoadFile\<close> gives a node or throws one of the two exceptions the loader catches.\<close>
datatype 'n load_file = Loaded 'n | BadFile | ParserException

definition load_root :: "'n yaml \<Rightarrow> 'n \<Rightarrow> RootConfig \<Rightarrow> config_error + RootConfig" where
  "load_root Y root = run_fields
     [opt_block Y root ''global'' (\<lambda>n. on_member cfg_global (\<lambda>v c. c\<lparr>cfg_global := v\<rparr>) (load_global Y n)),
      opt_block Y root ''threading_matrix'' (\<lambda>n. on_member cfg_threading_matrix
        (\<lambda>v c. c\<lparr>cfg_threading_matrix := v\<rparr>) (load_threading Y n)),
      opt_block Y root ''telemetry'' (\<lambda>n. on_member cfg_telemetry (\<lambda>v c. c\<lparr>cfg_telemetry := v\<rparr>) (load_telemetry Y n)),
      opt_block Y root ''pub'' (\<lambda>n. on_member cfg_pub (\<lambda>v c. c\<lparr>cfg_pub := v\<rparr>) (load_pub Y n)),
      opt_block Y root ''storage'' (\<lambda>n. on_member cfg_storage (\<lambda>v c. c\<lparr>cfg_storage := v\<rparr>) (load_storage Y n)),
      opt_field Y root ''rithmic'' (ParseRithmicConfig Y) (\<lambda>v c. c\<lparr>cfg_rithmic := v\<rparr>),
      seq_field Y root ''exchanges'' (ParseExchange Y) (\<lambda>v c. c\<lparr>cfg_exchanges := v\<rparr>)]"

definition LoadConfig :: "'n yaml \<Rightarrow> (string \<Rightarrow> 'n load_file) \<Rightarrow> string \<Rightarrow> config_error + RootConfig" where
  "LoadConfig Y LoadFile path =
     (case LoadFile path of
        BadFile \<Rightarrow> Inl (ExitFailure (''FATAL: Config file not found: '' @ path))
      | ParserException \<Rightarrow> Inl (ExitFailure (''FATAL: YAML parse error in '' @ path))
      | Loaded root \<Rightarrow> load_root Y root default_root)"

section \<open>Properties\<close>

lemmas res_defs = bind_res_def req_field_def opt_field_def opt_block_def seq_field_def on_member_def

lemma bind_res_Inr: "bind_res r f = Inr b \<longleftrightarrow> (\<exists>a. r = Inr a \<and> f a = Inr b)"
  by (cases r) (simp_all add: bind_res_def)

lemma map_res_Inr: "map_res f xs = Inr ys \<Longrightarrow> y \<in> set ys \<Longrightarrow> \<exists>x\<in>set xs. f x = Inr y"
  by (induction xs arbitrary: ys) (auto simp: bind_res_Inr)

text \<open>A predicate kept by every field reader is kept by the whole block.\<close>
lemma run_fields_keeps:
  assumes "run_fields fs c = Inr c'" "P c" "\<And>f a b. f \<in> set fs \<Longrightarrow> P a \<Longrightarrow> f a = Inr b \<Longrightarrow> P b"
  shows "P c'"
  using assms
proof (induction fs arbitrary: c)
  case (Cons f fs)
  then obtain d where d: "f c = Inr d" "run_fields fs d = Inr c'"
    by (auto simp: bind_res_Inr)
  have "P d" using Cons.prems(2,3) d(1) by (metis list.set_intros(1))
  then show ?case using Cons.IH [OF d(2)] Cons.prems(3) by (meson list.set_intros(2))
qed simp

lemma opt_field_Inr:
  "opt_field Y n k cv u c = Inr c' \<Longrightarrow> c' = c \<or> (\<exists>v m. cv m = Inr v \<and> c' = u v c)"
  by (auto simp: opt_field_def bind_res_Inr split: option.splits)

lemma opt_block_Inr:
  "opt_block Y n k blk c = Inr c' \<Longrightarrow> c' = c \<or> (\<exists>m. blk m c = Inr c')"
  by (auto simp: opt_block_def bind_res_Inr split: option.splits)

lemma seq_field_Inr:
  "seq_field Y n k cv u c = Inr c' \<Longrightarrow>
     c' = c \<or> (\<exists>vs. c' = u vs c \<and> (\<forall>v\<in>set vs. \<exists>m. cv m = Inr v))"
  by (force simp: seq_field_def bind_res_Inr split: option.splits if_splits dest: map_res_Inr)

lemma on_member_Inr: "on_member sel put f c = Inr c' \<Longrightarrow> \<exists>m. c' = put m c"
  by (auto simp: on_member_def bind_res_Inr)

definition symbol_ok :: "SymbolConfig \<Rightarrow> bool" where
  "symbol_ok s \<longleftrightarrow> length (sym_name s) \<le> kMaxSymbolChars \<and> unat (sym_depth_level s) \<le> kMaxOrderbookLevels"

definition config_symbols :: "RootConfig \<Rightarrow> SymbolConfig list" where
  "config_symbols c = concat (map (\<lambda>e. concat (map ch_symbols (ex_channels e))) (cfg_exchanges c))"

lemma ParseSymbol_ok:
  assumes "ParseSymbol Y node = Inr s"
  shows "symbol_ok s"
proof -
  from assms obtain name fs where
    n: "length name \<le> kMaxSymbolChars" and
    r: "run_fields fs (default_symbol\<lparr>sym_name := name\<rparr>) = Inr s" and
    fs: "fs = [opt_field Y node ''enabled'' (y_bool Y) (\<lambda>v s. s\<lparr>sym_enabled := v\<rparr>),
          (\<lambda>s. opt_block Y node ''depth_level'' (\<lambda>n s.
             bind_res (y_u32 Y n) (\<lambda>d.
               if kMaxOrderbookLevels < unat d then Inl (DepthTooLarge name d)
               else Inr (s\<lparr>sym_depth_level := d\<rparr>))) s),
          opt_field Y node ''record_tick'' (y_bool Y) (\<lambda>v s. s\<lparr>sym_record_tick := v\<rparr>),
          opt_field Y node ''persist_to_disk'' (y_bool Y) (\<lambda>v s. s\<lparr>sym_persist_to_disk := v\<rparr>)]"
    by (force simp: ParseSymbol_def bind_res_Inr Let_def split: if_splits)
  show ?thesis
  proof (rule run_fields_keeps [OF r])
    show "symbol_ok (default_symbol\<lparr>sym_name := name\<rparr>)"
      using n by (simp add: symbol_ok_def default_symbol_def kMaxOrderbookLevels_def)
  next
    fix f a b
    assume "f \<in> set fs" "symbol_ok a" "f a = Inr b"
    then show "symbol_ok b"
      unfolding fs
      by (auto simp: symbol_ok_def bind_res_Inr split: if_splits dest!: opt_field_Inr opt_block_Inr)
  qed
qed

lemma ParseChannel_ok: "ParseChannel Y node = Inr c \<Longrightarrow> s \<in> set (ch_symbols c) \<Longrightarrow> symbol_ok s"
  by (fastforce simp: ParseChannel_def bind_res_Inr dest!: seq_field_Inr intro: ParseSymbol_ok)

lemma ParseExchange_ok:
  assumes "ParseExchange Y node = Inr e" "c \<in> set (ex_channels e)" "s \<in> set (ch_symbols c)"
  shows "symbol_ok s"
proof -
  have "\<forall>c\<in>set (ex_channels e). \<forall>s\<in>set (ch_symbols c). symbol_ok s"
    using assms(1)
    by (auto simp: ParseExchange_def bind_res_Inr default_exchange_def
        dest!: opt_field_Inr seq_field_Inr intro: ParseChannel_ok)
  then show ?thesis using assms by blast
qed

lemma load_root_ok:
  assumes "load_root Y root c = Inr c'" "\<forall>s\<in>set (config_symbols c). symbol_ok s"
  shows "\<forall>s\<in>set (config_symbols c'). symbol_ok s"
proof (rule run_fields_keeps [OF assms(1) [unfolded load_root_def], of "\<lambda>c. \<forall>s\<in>set (config_symbols c). symbol_ok s"])
  fix f a b
  assume f: "f \<in> set [opt_block Y root ''global'' (\<lambda>n. on_member cfg_global (\<lambda>v c. c\<lparr>cfg_global := v\<rparr>) (load_global Y n)),
      opt_block Y root ''threading_matrix'' (\<lambda>n. on_member cfg_threading_matrix
        (\<lambda>v c. c\<lparr>cfg_threading_matrix := v\<rparr>) (load_threading Y n)),
      opt_block Y root ''telemetry'' (\<lambda>n. on_member cfg_telemetry (\<lambda>v c. c\<lparr>cfg_telemetry := v\<rparr>) (load_telemetry Y n)),
      opt_block Y root ''pub'' (\<lambda>n. on_member cfg_pub (\<lambda>v c. c\<lparr>cfg_pub := v\<rparr>) (load_pub Y n)),
      opt_block Y root ''storage'' (\<lambda>n. on_member cfg_storage (\<lambda>v c. c\<lparr>cfg_storage := v\<rparr>) (load_storage Y n)),
      opt_field Y root ''rithmic'' (ParseRithmicConfig Y) (\<lambda>v c. c\<lparr>cfg_rithmic := v\<rparr>),
      seq_field Y root ''exchanges'' (ParseExchange Y) (\<lambda>v c. c\<lparr>cfg_exchanges := v\<rparr>)]"
    and a: "\<forall>s\<in>set (config_symbols a). symbol_ok s" and b: "f a = Inr b"
  from f b have "cfg_exchanges b = cfg_exchanges a \<or>
      (\<forall>e\<in>set (cfg_exchanges b). \<exists>n. ParseExchange Y n = Inr e)"
    by (auto dest!: opt_field_Inr opt_block_Inr on_member_Inr seq_field_Inr)
  then show "\<forall>s\<in>set (config_symbols b). symbol_ok s"
    using a by (auto simp: config_symbols_def intro: ParseExchange_ok)
qed (rule assms(2))

lemma default_root_ok: "config_symbols default_root = []"
  by (simp add: config_symbols_def default_root_def)


text \<open>A YAML document as a tree, for evaluating the loader: scalars, sequences and maps.\<close>
datatype ydoc = YStr string | YNum nat | YBool bool | YSeq "ydoc list" | YMap "(string \<times> ydoc) list"

definition doc_yaml :: "ydoc yaml" where
  "doc_yaml = \<lparr>
     y_get = (\<lambda>n k. case n of YMap kvs \<Rightarrow> Inr (map_of kvs k) | _ \<Rightarrow> Inl (YamlError k)),
     y_string = (\<lambda>n. case n of YStr s \<Rightarrow> Inr s | _ \<Rightarrow> Inl (YamlError ''string'')),
     y_bool = (\<lambda>n. case n of YBool b \<Rightarrow> Inr b | _ \<Rightarrow> Inl (YamlError ''bool'')),
     y_u16 = (\<lambda>n. case n of YNum i \<Rightarrow> Inr (of_nat i) | _ \<Rightarrow> Inl (YamlError ''uint16'')),
     y_u32 = (\<lambda>n. case n of YNum i \<Rightarrow> Inr (of_nat i) | _ \<Rightarrow> Inl (YamlError ''uint32'')),
     y_int = (\<lambda>n. case n of YNum i \<Rightarrow> Inr (int i) | _ \<Rightarrow> Inl (YamlError ''int'')),
     y_float = (\<lambda>n. Inl (YamlError ''float'')),
     y_is_seq = (\<lambda>n. case n of YSeq _ \<Rightarrow> True | _ \<Rightarrow> False),
     y_elems = (\<lambda>n. case n of YSeq xs \<Rightarrow> xs | _ \<Rightarrow> []),
     y_remove = (\<lambda>n k. case n of YMap kvs \<Rightarrow> YMap (filter (\<lambda>kv. fst kv \<noteq> k) kvs) | _ \<Rightarrow> n)\<rparr>"

definition sample_symbol :: "string \<Rightarrow> ydoc" where
  "sample_symbol nm = YMap [(''name'', YStr nm), (''depth_level'', YNum 20)]"

definition sample_config :: "string \<Rightarrow> ydoc" where
  "sample_config nm = YMap [(''exchanges'', YSeq [YMap [(''name'', YStr ''binance''), (''enabled'', YBool True),
     (''channels'', YSeq [YMap [(''type'', YStr ''spot''), (''symbols'', YSeq [sample_symbol nm])]])]])]"

lemmas load_eval = LoadConfig_def load_root_def ParseExchange_def ParseChannel_def ParseSymbol_def
  res_defs doc_yaml_def sample_config_def sample_symbol_def Let_def

lemma sample_config_loads:
  "LoadConfig doc_yaml (\<lambda>_. Loaded (sample_config ''BTCUSDT'')) p = Inr (default_root\<lparr>cfg_exchanges :=
     [\<lparr>ex_name = ''binance'', ex_enabled = True, ex_channels = [\<lparr>ch_type = ''spot'',
        ch_symbols = [default_symbol\<lparr>sym_name := ''BTCUSDT'', sym_depth_level := 20\<rparr>]\<rparr>]\<rparr>]\<rparr>)"
  by (simp add: load_eval kMaxSymbolChars_def kMaxOrderbookLevels_def default_exchange_def)


text \<open>
  Loading fails rather than truncates. A missing file or a parse error ends the process, and a
  symbol of more than 11 characters aborts the load with the error that names the symbol and its
  length, whatever else the symbol's node holds; a depth beyond 100 does the same.
\<close>
theorem bad_config_rejected:
  "(LoadFile path \<in> {BadFile, ParserException} \<longrightarrow> (\<exists>m. LoadConfig Y LoadFile path = Inl (ExitFailure m)))
   \<and> (req_field Y node ''name'' (y_string Y) = Inr name \<and> 11 < length name \<longrightarrow>
        ParseSymbol Y node = Inl (SymbolTooLong name (length name)))
   \<and> (req_field Y node ''name'' (y_string Y) = Inr name \<and> length name \<le> 11
        \<and> opt_field Y node ''enabled'' (y_bool Y) (\<lambda>v s. s\<lparr>sym_enabled := v\<rparr>)
            (default_symbol\<lparr>sym_name := name\<rparr>) = Inr s1
        \<and> y_get Y node ''depth_level'' = Inr (Some n) \<and> y_u32 Y n = Inr d \<and> 100 < unat d \<longrightarrow>
        ParseSymbol Y node = Inl (DepthTooLarge name d))"
  by (auto simp: LoadConfig_def ParseSymbol_def bind_res_def opt_block_def Let_def
      kMaxSymbolChars_def kMaxOrderbookLevels_def)

theorem bad_config_rejected_witness:
  "ParseSymbol doc_yaml (sample_symbol ''ABCDEFGHIJKL'') = Inl (SymbolTooLong ''ABCDEFGHIJKL'' 12)"
  using bad_config_rejected [of "\<lambda>_. BadFile" "''config.yaml''" doc_yaml "sample_symbol ''ABCDEFGHIJKL''" "''ABCDEFGHIJKL''"]
  by (simp add: load_eval)

text \<open>
  Every setting is optional: a document in which none of the top-level keys is defined loads to
  the documented defaults, and a document that defines only the exchange list changes nothing else.
\<close>
theorem missing_keys_keep_defaults:
  assumes "LoadFile path = Loaded root" "\<And>k. k \<noteq> ''exchanges'' \<Longrightarrow> y_get Y root k = Inr None"
    "y_get Y root ''exchanges'' = Inr None \<or>
     (\<exists>n es. y_get Y root ''exchanges'' = Inr (Some n) \<and> map_res (ParseExchange Y) (y_elems Y n) = Inr es)"
  shows "\<exists>es. LoadConfig Y LoadFile path = Inr (default_root\<lparr>cfg_exchanges := es\<rparr>)"
proof -
  have d: "default_root = default_root\<lparr>cfg_exchanges := []\<rparr>" by (simp add: default_root_def)
  have "\<exists>es. seq_field Y root ''exchanges'' (ParseExchange Y) (\<lambda>v c. c\<lparr>cfg_exchanges := v\<rparr>) default_root
      = Inr (default_root\<lparr>cfg_exchanges := es\<rparr>)"
    using assms(3) d by (auto simp: seq_field_def bind_res_def)
  then show ?thesis
    using assms(1,2) by (auto simp: LoadConfig_def load_root_def opt_block_def opt_field_def bind_res_def)
qed

theorem missing_keys_keep_defaults_witness:
  "\<exists>es. LoadConfig doc_yaml (\<lambda>_. Loaded (YMap [])) ''config.yaml'' = Inr (default_root\<lparr>cfg_exchanges := es\<rparr>)"
  by (rule missing_keys_keep_defaults [of _ _ "YMap []"]) (simp_all add: doc_yaml_def)

end
