(* ===== verification/Channel_Registry.thy ===== *)
theory Channel_Registry
  imports Events
begin

text \<open>
  Channel identities: the FNV-1a hash that gives a channel its 32-bit id
  (\<open>src/common/channel_id_hash.h\<close>) and the three registries keyed by it, the routing
  registry (\<open>src/exchange/channel_mapping.cpp\<close>), the storage registry with its freeze
  (\<open>src/storage/channel_registry.cpp\<close>) and the gateway's channel map
  (\<open>src/exchange/rithmic/rithmic_types.h\<close>). The locales \<open>id_registry\<close> and
  \<open>stable_registry\<close> state what the users of a registry rely on.
\<close>

section \<open>Channel ids\<close>

definition kBasis :: u64 where
  "kBasis = 14695981039346656037"

definition kPrime :: u64 where
  "kPrime = 1099511628211"

text \<open>One iteration of the hash loops.\<close>
definition fnv_step :: "u64 \<Rightarrow> char \<Rightarrow> u64" where
  "fnv_step h c = (h XOR of_char c) * kPrime"

definition ComputeChannelId :: "string \<Rightarrow> string \<Rightarrow> string \<Rightarrow> u32" where
  "ComputeChannelId exchange type_name symbol =
     (let h = foldl fnv_step kBasis exchange;
          h = fnv_step h (CHR '':'');
          h = foldl fnv_step h type_name;
          h = fnv_step h (CHR '':'');
          h = foldl fnv_step h symbol
      in ucast (h XOR drop_bit 32 h))"

section \<open>The routing registry\<close>

record ChannelInfo =
  ci_id :: u32
  ci_exchange :: string
  ci_type :: ChannelType
  ci_symbol :: string
  ci_depth_level :: u32
  ci_topic_prefix :: string

type_synonym ChannelRegistry = "u32 \<rightharpoonup> ChannelInfo"

text \<open>The \<open>std::runtime_error\<close> thrown on a collision: the id, the channel that has it, the new one.\<close>
datatype registry_error = ChannelIdCollision u32 ChannelInfo ChannelInfo

definition ChannelRegistry_Register ::
  "ChannelInfo \<Rightarrow> ChannelRegistry \<Rightarrow> registry_error + u32 \<times> ChannelRegistry" where
  "ChannelRegistry_Register info channels =
     (let cid = ComputeChannelId (ci_exchange info) (ChannelTypeName (ci_type info)) (ci_symbol info)
      in case channels cid of
           Some existing \<Rightarrow>
             if ci_exchange existing = ci_exchange info \<and> ci_type existing = ci_type info
                  \<and> ci_symbol existing = ci_symbol info
             then Inr (cid, channels)
             else Inl (ChannelIdCollision cid existing info)
         | None \<Rightarrow>
             let entry = info\<lparr>ci_id := cid,
                   ci_topic_prefix := ci_exchange info @ '':'' @ ChannelTypeName (ci_type info) @ '':'' @ ci_symbol info\<rparr>
             in Inr (cid, channels(cid \<mapsto> entry)))"

definition ChannelRegistry_Lookup :: "ChannelRegistry \<Rightarrow> u32 \<Rightarrow> ChannelInfo option" where
  "ChannelRegistry_Lookup channels cid = channels cid"

section \<open>The storage registry\<close>

record ChannelMeta =
  cm_exchange :: string
  cm_market_type :: string
  cm_symbol :: string
  cm_depth_level :: u32

record StorageChannelRegistry =
  scr_channels :: "u32 \<rightharpoonup> ChannelMeta"
  scr_frozen :: bool

definition StorageChannelRegistry_new :: StorageChannelRegistry where
  "StorageChannelRegistry_new = \<lparr>scr_channels = Map.empty, scr_frozen = False\<rparr>"

text \<open>
  A registration that comes after the freeze is refused: with assertions compiled in
  (\<open>NDEBUG\<close> unset) the process aborts (\<open>None\<close>), otherwise the call returns without effect.
\<close>
definition StorageChannelRegistry_Register ::
  "bool \<Rightarrow> u32 \<Rightarrow> string \<Rightarrow> string \<Rightarrow> string \<Rightarrow> u32 \<Rightarrow> StorageChannelRegistry \<Rightarrow> StorageChannelRegistry option" where
  "StorageChannelRegistry_Register ndebug channel_id exchange market_type symbol depth_level r =
     (if scr_frozen r then (if ndebug then Some r else None)
      else Some (r\<lparr>scr_channels := (scr_channels r)(channel_id \<mapsto>
        \<lparr>cm_exchange = exchange, cm_market_type = market_type, cm_symbol = symbol,
         cm_depth_level = depth_level\<rparr>)\<rparr>))"

definition Freeze :: "StorageChannelRegistry \<Rightarrow> StorageChannelRegistry" where
  "Freeze r = r\<lparr>scr_frozen := True\<rparr>"

definition Find :: "StorageChannelRegistry \<Rightarrow> u32 \<Rightarrow> ChannelMeta option" where
  "Find r channel_id = scr_channels r channel_id"

section \<open>The gateway's channel map\<close>

record SubEntry =
  sub_enabled :: bool
  sub_exchange :: string
  sub_ticker :: string
  sub_channel_id :: u32

record RithmicChannelMap =
  rcm_registered_ids :: "u32 set"
  rcm_sub_list :: "SubEntry list"

definition RithmicChannelMap_new :: RithmicChannelMap where
  "RithmicChannelMap_new = \<lparr>rcm_registered_ids = {}, rcm_sub_list = []\<rparr>"

definition kNotFound :: u32 where
  "kNotFound = 0xFFFFFFFF"

definition RithmicChannelMap_Register ::
  "string \<Rightarrow> string \<Rightarrow> u32 \<Rightarrow> bool \<Rightarrow> RithmicChannelMap \<Rightarrow> RithmicChannelMap" where
  "RithmicChannelMap_Register exchange ticker channel_id enabled m =
     m\<lparr>rcm_registered_ids := insert channel_id (rcm_registered_ids m),
       rcm_sub_list := rcm_sub_list m @
         [\<lparr>sub_enabled = enabled, sub_exchange = exchange, sub_ticker = ticker, sub_channel_id = channel_id\<rparr>]\<rparr>"

definition RithmicChannelMap_Lookup :: "RithmicChannelMap \<Rightarrow> string \<Rightarrow> string \<Rightarrow> u32" where
  "RithmicChannelMap_Lookup m exchange ticker =
     (let cid = ComputeChannelId exchange ''futures'' ticker
      in if cid \<notin> rcm_registered_ids m then kNotFound else cid)"

section \<open>Registry contracts\<close>

text \<open>
  Registering an item makes it visible under its key and leaves every other key alone. The
  operation may refuse (\<open>None\<close>).
\<close>
locale id_registry =
  fixes reg :: "'i \<Rightarrow> 's \<Rightarrow> 's option"
    and look :: "'s \<Rightarrow> 'k \<Rightarrow> 'v option"
    and key :: "'i \<Rightarrow> 'k"
    and val :: "'i \<Rightarrow> 'v"
  assumes reg_same: "reg i s = Some s' \<Longrightarrow> look s' (key i) = Some (val i)"
    and reg_other: "reg i s = Some s' \<Longrightarrow> k \<noteq> key i \<Longrightarrow> look s' k = look s k"
begin

primrec reg_all :: "'i list \<Rightarrow> 's \<Rightarrow> 's option" where
  "reg_all [] s = Some s"
| "reg_all (i # is) s = Option.bind (reg i s) (reg_all is)"

lemma reg_all_other:
  "reg_all is s = Some s' \<Longrightarrow> k \<notin> key ` set is \<Longrightarrow> look s' k = look s k"
proof (induction "is" arbitrary: s)
  case (Cons i "is")
  then obtain t where "reg i s = Some t" "reg_all is t = Some s'"
    by (auto simp: bind_eq_Some_conv)
  then show ?case using Cons reg_other [of i s t k] by auto
qed simp

lemma reg_all_distinct:
  "reg_all is s = Some s' \<Longrightarrow> distinct (map key is) \<Longrightarrow> i \<in> set is \<Longrightarrow> look s' (key i) = Some (val i)"
proof (induction "is" arbitrary: s)
  case (Cons j "is")
  then obtain t where t: "reg j s = Some t" "reg_all is t = Some s'"
    by (auto simp: bind_eq_Some_conv)
  show ?case
  proof (cases "i = j")
    case True
    then show ?thesis
      using reg_all_other [OF t(2), of "key j"] reg_same [OF t(1)] Cons.prems(2) by auto
  next
    case False
    then show ?thesis using Cons t by auto
  qed
qed simp

end

text \<open>A registry that never changes what a key stands for: the items need not have distinct keys.\<close>
locale stable_registry = id_registry +
  assumes reg_keeps: "reg i s = Some s' \<Longrightarrow> look s k = Some v \<Longrightarrow> look s' k = Some v"
begin

lemma reg_all_keeps: "reg_all is s = Some s' \<Longrightarrow> look s k = Some v \<Longrightarrow> look s' k = Some v"
  by (induction "is" arbitrary: s) (auto simp: bind_eq_Some_conv dest: reg_keeps)

lemma reg_all_member: "reg_all is s = Some s' \<Longrightarrow> i \<in> set is \<Longrightarrow> look s' (key i) = Some (val i)"
  by (induction "is" arbitrary: s) (auto simp: bind_eq_Some_conv dest: reg_same reg_all_keeps)

end

section \<open>Properties of the hash\<close>

definition topic_of :: "ChannelInfo \<Rightarrow> string" where
  "topic_of info = ci_exchange info @ '':'' @ ChannelTypeName (ci_type info) @ '':'' @ ci_symbol info"

definition channel_key :: "ChannelInfo \<Rightarrow> u32" where
  "channel_key info = ComputeChannelId (ci_exchange info) (ChannelTypeName (ci_type info)) (ci_symbol info)"

definition channel_ident :: "ChannelInfo \<Rightarrow> string \<times> ChannelType \<times> string" where
  "channel_ident info = (ci_exchange info, ci_type info, ci_symbol info)"

definition fnv1a_folded :: "string \<Rightarrow> u32" where
  "fnv1a_folded s = (let h = foldl fnv_step kBasis s in ucast (h XOR drop_bit 32 h))"

lemma ComputeChannelId_joined:
  "ComputeChannelId e t s = fnv1a_folded (e @ '':'' @ t @ '':'' @ s)"
  by (simp add: ComputeChannelId_def fnv1a_folded_def Let_def)

lemma channel_key_topic: "channel_key info = fnv1a_folded (topic_of info)"
  by (simp add: channel_key_def topic_of_def ComputeChannelId_joined)

section \<open>The routing registry keeps its promises\<close>

definition registry_inv :: "ChannelRegistry \<Rightarrow> bool" where
  "registry_inv r \<longleftrightarrow> (\<forall>cid info. r cid = Some info \<longrightarrow>
     ci_id info = cid \<and> channel_key info = cid \<and> ci_topic_prefix info = topic_of info)"

definition reg_channel :: "ChannelInfo \<Rightarrow> ChannelRegistry \<Rightarrow> ChannelRegistry option" where
  "reg_channel info r = (case ChannelRegistry_Register info r of Inl _ \<Rightarrow> None | Inr (_, r') \<Rightarrow> Some r')"

definition look_channel :: "ChannelRegistry \<Rightarrow> u32 \<Rightarrow> (string \<times> ChannelType \<times> string) option" where
  "look_channel r cid = map_option channel_ident (ChannelRegistry_Lookup r cid)"

lemma Register_result:
  "ChannelRegistry_Register info r = Inr (cid, r') \<Longrightarrow> cid = channel_key info \<and>
     (r' = r \<and> look_channel r cid = Some (channel_ident info) \<or>
      r cid = None \<and> r' = r(cid \<mapsto> info\<lparr>ci_id := cid, ci_topic_prefix := topic_of info\<rparr>))"
  by (auto simp: ChannelRegistry_Register_def Let_def channel_key_def look_channel_def channel_ident_def
      ChannelRegistry_Lookup_def topic_of_def split: option.splits if_splits)

lemma reg_channel_Some:
  "reg_channel info r = Some r' \<longleftrightarrow> ChannelRegistry_Register info r = Inr (channel_key info, r')"
  by (auto simp: reg_channel_def dest: Register_result split: sum.splits)

interpretation routing: stable_registry reg_channel look_channel channel_key channel_ident
proof
  fix i s s' k v
  assume "reg_channel i s = Some s'"
  then have r: "s' = s \<and> look_channel s (channel_key i) = Some (channel_ident i) \<or>
      s (channel_key i) = None \<and> s' = s(channel_key i \<mapsto> i\<lparr>ci_id := channel_key i, ci_topic_prefix := topic_of i\<rparr>)"
    using Register_result unfolding reg_channel_Some by blast
  show "look_channel s' (channel_key i) = Some (channel_ident i)"
    using r by (auto simp: look_channel_def channel_ident_def ChannelRegistry_Lookup_def)
  show "look_channel s' k = look_channel s k" if "k \<noteq> channel_key i"
    using r that by (auto simp: look_channel_def ChannelRegistry_Lookup_def)
  show "look_channel s' k = Some v" if "look_channel s k = Some v"
    using r that by (auto simp: look_channel_def channel_ident_def ChannelRegistry_Lookup_def)
qed

lemma registry_inv_empty: "registry_inv Map.empty"
  by (simp add: registry_inv_def)

lemma registry_inv_Register:
  "registry_inv r \<Longrightarrow> reg_channel info r = Some r' \<Longrightarrow> registry_inv r'"
  unfolding reg_channel_Some
  by (drule Register_result) (auto simp: registry_inv_def channel_key_def topic_of_def split: if_splits)

lemma registry_inv_reg_all: "registry_inv r \<Longrightarrow> routing.reg_all is r = Some r' \<Longrightarrow> registry_inv r'"
  by (induction "is" arbitrary: r) (auto simp: bind_eq_Some_conv dest: registry_inv_Register)

text \<open>
  C27: When a list of channels has been registered without a collision error, in any order and with
  repetitions, looking up the id of each of them finds an entry with that channel's own exchange,
  type and symbol, and the entry's topic is the text whose hash is the id. No two channels share
  an id.
\<close>
theorem registered_channels_found:
  assumes "routing.reg_all infos Map.empty = Some r" "info \<in> set infos"
  shows "\<exists>entry. ChannelRegistry_Lookup r (channel_key info) = Some entry
    \<and> ci_exchange entry = ci_exchange info \<and> ci_type entry = ci_type info \<and> ci_symbol entry = ci_symbol info
    \<and> ci_id entry = channel_key info \<and> ci_topic_prefix entry = topic_of info
    \<and> fnv1a_folded (ci_topic_prefix entry) = ci_id entry
    \<and> (\<forall>other\<in>set infos. channel_key other = channel_key info \<longrightarrow> channel_ident other = channel_ident info)"
proof -
  have inv: "registry_inv r"
    using registry_inv_reg_all [OF registry_inv_empty assms(1)] .
  have all: "look_channel r (channel_key i) = Some (channel_ident i)" if "i \<in> set infos" for i
    using routing.reg_all_member [OF assms(1) that] .
  then obtain entry where e: "r (channel_key info) = Some entry" "channel_ident entry = channel_ident info"
    using assms(2) by (auto simp: look_channel_def ChannelRegistry_Lookup_def)
  have "ci_id entry = channel_key info" "ci_topic_prefix entry = topic_of info"
    using inv e by (auto simp: registry_inv_def channel_ident_def topic_of_def)
  moreover have "channel_ident other = channel_ident info"
    if "other \<in> set infos" "channel_key other = channel_key info" for other
    using all [OF that(1)] all [OF assms(2)] that(2) by simp
  ultimately show ?thesis
    using e by (auto simp: ChannelRegistry_Lookup_def channel_ident_def channel_key_topic)
qed

definition sample_info :: "string \<Rightarrow> ChannelType \<Rightarrow> string \<Rightarrow> ChannelInfo" where
  "sample_info e t s = \<lparr>ci_id = 0, ci_exchange = e, ci_type = t, ci_symbol = s, ci_depth_level = 20,
     ci_topic_prefix = []\<rparr>"

theorem registered_channels_found_witness:
  "\<exists>r entry. ChannelRegistry_Lookup r (channel_key (sample_info ''binance'' Spot ''BTCUSDT'')) = Some entry
     \<and> ci_symbol entry = ''BTCUSDT''"
proof -
  let ?i = "sample_info ''binance'' Spot ''BTCUSDT''"
  obtain r where "routing.reg_all [?i, ?i] Map.empty = Some r"
    by (simp add: reg_channel_def ChannelRegistry_Register_def Let_def)
  then show ?thesis
    using registered_channels_found [of "[?i, ?i]" r ?i] by (auto simp: sample_info_def)
qed



section \<open>The storage registry\<close>

text \<open>Registration before the freeze, as an item for the contract.\<close>
definition reg_meta :: "u32 \<times> ChannelMeta \<Rightarrow> StorageChannelRegistry \<Rightarrow> StorageChannelRegistry option" where
  "reg_meta im r = (if scr_frozen r then None else
     StorageChannelRegistry_Register True (fst im) (cm_exchange (snd im)) (cm_market_type (snd im))
       (cm_symbol (snd im)) (cm_depth_level (snd im)) r)"

interpretation storage_meta: id_registry reg_meta Find fst snd
  by unfold_locales
    (auto simp: reg_meta_def StorageChannelRegistry_Register_def Find_def split: if_splits)

lemma frozen_Register:
  "scr_frozen r \<Longrightarrow> StorageChannelRegistry_Register ndebug i e t s d r \<in> {None, Some r}"
  by (simp add: StorageChannelRegistry_Register_def)

primrec register_many :: "bool \<Rightarrow> (u32 \<times> ChannelMeta) list \<Rightarrow> StorageChannelRegistry \<Rightarrow> StorageChannelRegistry option" where
  "register_many ndebug [] r = Some r"
| "register_many ndebug (im # ims) r =
     Option.bind (StorageChannelRegistry_Register ndebug (fst im) (cm_exchange (snd im)) (cm_market_type (snd im))
       (cm_symbol (snd im)) (cm_depth_level (snd im)) r) (register_many ndebug ims)"

lemma register_many_unfrozen:
  "\<not> scr_frozen r \<Longrightarrow> register_many ndebug ims r = storage_meta.reg_all ims r"
proof (induction ims arbitrary: r)
  case (Cons im ims)
  obtain r' where r': "reg_meta im r = Some r'" "\<not> scr_frozen r'"
    "StorageChannelRegistry_Register ndebug (fst im) (cm_exchange (snd im)) (cm_market_type (snd im))
       (cm_symbol (snd im)) (cm_depth_level (snd im)) r = Some r'"
    using Cons.prems by (simp add: reg_meta_def StorageChannelRegistry_Register_def)
  then show ?case using Cons.IH by simp
qed simp

lemma register_many_total: "\<not> scr_frozen r \<Longrightarrow> \<exists>r'. register_many ndebug ims r = Some r' \<and> \<not> scr_frozen r'"
  by (induction ims arbitrary: r) (auto simp: StorageChannelRegistry_Register_def)

text \<open>
  Freeze seals the storage registry: every channel registered before it (under distinct ids) is
  found with its own metadata afterwards, and in a release build no later registration changes
  what any reader finds.
\<close>
theorem freeze_seals:
  assumes "distinct (map fst ims)" "(i, meta) \<in> set ims"
  shows "\<exists>r r'. register_many True ims StorageChannelRegistry_new = Some r
    \<and> register_many True late (Freeze r) = Some r' \<and> r' = Freeze r \<and> Find r' i = Some meta"
proof -
  obtain r where r: "register_many True ims StorageChannelRegistry_new = Some r"
    using register_many_total [of StorageChannelRegistry_new] by (auto simp: StorageChannelRegistry_new_def)
  then have "storage_meta.reg_all ims StorageChannelRegistry_new = Some r"
    by (simp add: register_many_unfrozen StorageChannelRegistry_new_def)
  then have "Find r i = Some meta"
    using storage_meta.reg_all_distinct [of ims _ r "(i, meta)"] assms by simp
  moreover have "register_many True late (Freeze r) = Some (Freeze r)"
    by (induction late) (simp_all add: StorageChannelRegistry_Register_def Freeze_def)
  ultimately show ?thesis using r by (auto simp: Find_def Freeze_def)
qed

theorem freeze_seals_witness:
  "\<exists>r r'. register_many True [(7, \<lparr>cm_exchange = ''binance'', cm_market_type = ''spot'',
       cm_symbol = ''BTCUSDT'', cm_depth_level = 20\<rparr>)] StorageChannelRegistry_new = Some r
    \<and> register_many True [] (Freeze r) = Some r' \<and> r' = Freeze r
    \<and> Find r' 7 = Some \<lparr>cm_exchange = ''binance'', cm_market_type = ''spot'',
       cm_symbol = ''BTCUSDT'', cm_depth_level = 20\<rparr>"
  by (rule freeze_seals) simp_all

section \<open>The gateway's map\<close>

definition reg_ticker :: "string \<times> string \<Rightarrow> RithmicChannelMap \<Rightarrow> RithmicChannelMap option" where
  "reg_ticker et m = Some (RithmicChannelMap_Register (fst et) (snd et)
     (ComputeChannelId (fst et) ''futures'' (snd et)) True m)"

definition look_ticker :: "RithmicChannelMap \<Rightarrow> u32 \<Rightarrow> unit option" where
  "look_ticker m cid = (if cid \<in> rcm_registered_ids m then Some () else None)"

definition ticker_key :: "string \<times> string \<Rightarrow> u32" where
  "ticker_key et = ComputeChannelId (fst et) ''futures'' (snd et)"

interpretation ticker_map: stable_registry reg_ticker look_ticker ticker_key "\<lambda>_. ()"
  by unfold_locales
    (auto simp: reg_ticker_def look_ticker_def ticker_key_def RithmicChannelMap_Register_def split: if_splits)

lemma Lookup_registered:
  "look_ticker m (ticker_key (e, t)) = Some () \<Longrightarrow> RithmicChannelMap_Lookup m e t = ComputeChannelId e ''futures'' t"
  by (simp add: look_ticker_def ticker_key_def RithmicChannelMap_Lookup_def Let_def split: if_splits)

lemma Lookup_unregistered:
  "look_ticker m (ticker_key (e, t)) = None \<Longrightarrow> RithmicChannelMap_Lookup m e t = kNotFound"
  by (simp add: look_ticker_def ticker_key_def RithmicChannelMap_Lookup_def Let_def split: if_splits)

end
