(* ===== verification/Text_Format.thy ===== *)
theory Text_Format
  imports Prelude
begin

text \<open>
  Text the collector produces: decimal numbers as \<open>fmt\<close> and \<open>printf\<close> print unsigned integers, with
  zero padding, and the path helpers of \<open>src/common/path_util.h\<close>. The file system behind
  \<open>mkdir\<close> is a parameter.
\<close>

section \<open>Decimal numbers\<close>

definition digit_char :: "nat \<Rightarrow> char" where
  "digit_char d = char_of (48 + d)"

text \<open>\<open>{}\<close> and \<open>%u\<close> of an unsigned integer.\<close>
fun dec :: "nat \<Rightarrow> string" where
  "dec n = (if n < 10 then [digit_char n] else dec (n div 10) @ [digit_char (n mod 10)])"

declare dec.simps [simp del]

text \<open>\<open>%0wu\<close>: padded with zeros to \<open>w\<close> characters.\<close>
definition dec_pad :: "nat \<Rightarrow> nat \<Rightarrow> string" where
  "dec_pad w n = replicate (w - length (dec n)) (CHR ''0'') @ dec n"

definition dec_value :: "string \<Rightarrow> nat" where
  "dec_value s = foldl (\<lambda>a c. 10 * a + (of_char c - 48)) 0 s"

lemma of_char_digit [simp]: "d < 10 \<Longrightarrow> of_char (digit_char d) = 48 + d"
  by (simp add: digit_char_def of_char_of)

lemma dec_value_snoc: "dec_value (s @ [c]) = 10 * dec_value s + (of_char c - 48)"
  by (simp add: dec_value_def)

lemma dec_value_dec [simp]: "dec_value (dec n) = n"
proof (induction n rule: dec.induct)
  case (1 n)
  then show ?case
    by (subst dec.simps) (simp add: dec_value_snoc, simp add: dec_value_def)
qed

lemma dec_value_zeros: "dec_value (replicate k (CHR ''0'') @ s) = dec_value s"
proof (induction k)
  case (Suc k)
  have "of_char (CHR ''0'') = (48::nat)" by (simp add: of_char_def)
  then have "dec_value (CHR ''0'' # t) = dec_value t" for t
    by (simp add: dec_value_def)
  then show ?case using Suc by simp
qed simp

lemma dec_value_pad [simp]: "dec_value (dec_pad w n) = n"
  by (simp add: dec_pad_def dec_value_zeros)

lemma dec_inj: "dec a = dec b \<longleftrightarrow> a = b"
  by (metis dec_value_dec)

lemma dec_pad_inj: "dec_pad w a = dec_pad w b \<longleftrightarrow> a = b"
  by (metis dec_value_pad)

lemma length_dec_le: "n < 10 ^ k \<Longrightarrow> 0 < k \<Longrightarrow> length (dec n) \<le> k"
proof (induction n arbitrary: k rule: dec.induct)
  case (1 n)
  show ?case
  proof (cases "n < 10")
    case True
    then have "length (dec n) = 1" by (subst dec.simps) simp
    then show ?thesis using 1(3) by simp
  next
    case False
    then have "k \<noteq> 1" using 1(2) by auto
    then obtain j where j: "k = Suc j" "0 < j"
      using 1(3) by (cases k) auto
    then have "n < 10 ^ j * 10" using 1(2) by simp
    then have "n div 10 < 10 ^ j" by (rule less_mult_imp_div_less)
    then have "length (dec (n div 10)) \<le> j" by (rule 1(1) [OF False _ j(2)])
    moreover have "length (dec n) = Suc (length (dec (n div 10)))"
      by (subst dec.simps) (simp only: False if_False length_append list.size add_0_right add_Suc_right)
    ultimately show ?thesis using j(1) by simp
  qed
qed

lemma length_dec_pad: "n < 10 ^ w \<Longrightarrow> 0 < w \<Longrightarrow> length (dec_pad w n) = w"
  using length_dec_le [of n w] by (simp add: dec_pad_def)

lemma digit_chars: "\<forall>d\<in>set [0..<10]. digit_char d \<in> set ''0123456789''"
  by code_simp

lemma digit_char_digit: "d < 10 \<Longrightarrow> digit_char d \<in> set ''0123456789''"
  using digit_chars by (simp only: set_upt atLeastLessThan_iff Ball_def) blast

lemma dec_digits: "c \<in> set (dec n) \<Longrightarrow> c \<in> set ''0123456789''"
proof (induction n rule: dec.induct)
  case (1 n)
  show ?case
  proof (cases "n < 10")
    case True
    then have "c = digit_char n" using 1(2) by (subst (asm) dec.simps) simp
    then show ?thesis using digit_char_digit True by blast
  next
    case False
    then have "c \<in> set (dec (n div 10)) \<or> c = digit_char (n mod 10)"
      using 1(2) by (subst (asm) dec.simps) auto
    then show ?thesis using 1(1) [OF False] digit_char_digit [of "n mod 10"] by fastforce
  qed
qed

section \<open>Paths\<close>

text \<open>What the code distinguishes of a \<open>mkdir\<close> call.\<close>
datatype mkdir_result = MkdirOk | MkdirExists | MkdirFailed

text \<open>The loop over the characters: \<open>cur\<close> is the path read so far.\<close>
fun ensure_dir_loop ::
  "(string \<Rightarrow> 'fs \<Rightarrow> mkdir_result \<times> 'fs) \<Rightarrow> string \<Rightarrow> string \<Rightarrow> 'fs \<Rightarrow> bool \<times> 'fs" where
  "ensure_dir_loop mkdir cur [] fs = (True, fs)"
| "ensure_dir_loop mkdir cur (ch # rest) fs =
     (let cur = cur @ [ch] in
      if ch = CHR ''/'' then
        (case mkdir cur fs of
           (MkdirFailed, fs') \<Rightarrow> (False, fs')
         | (_, fs') \<Rightarrow> ensure_dir_loop mkdir cur rest fs')
      else ensure_dir_loop mkdir cur rest fs)"

definition EnsureDirExists ::
  "(string \<Rightarrow> 'fs \<Rightarrow> mkdir_result \<times> 'fs) \<Rightarrow> string \<Rightarrow> 'fs \<Rightarrow> bool \<times> 'fs" where
  "EnsureDirExists mkdir path fs =
     (case ensure_dir_loop mkdir [] path fs of
        (False, fs') \<Rightarrow> (False, fs')
      | (True, fs') \<Rightarrow>
          (if path \<noteq> [] \<and> last path \<noteq> CHR ''/'' then
             (case mkdir path fs' of (r, fs'') \<Rightarrow> (r \<noteq> MkdirFailed, fs''))
           else (True, fs')))"

definition EnsureTrailingSlash :: "string \<Rightarrow> string" where
  "EnsureTrailingSlash path =
     (if path = [] then ''/'' else if last path \<noteq> CHR ''/'' then path @ ''/'' else path)"

definition JoinPath :: "string \<Rightarrow> string \<Rightarrow> string" where
  "JoinPath head tail =
     (if head \<noteq> [] \<and> last head \<noteq> CHR ''/'' then head @ ''/'' @ tail else head @ tail)"

lemma EnsureTrailingSlash_last: "last (EnsureTrailingSlash p) = CHR ''/''"
  by (simp add: EnsureTrailingSlash_def)

lemma EnsureTrailingSlash_not_Nil [simp]: "EnsureTrailingSlash p \<noteq> []"
  by (simp add: EnsureTrailingSlash_def)

lemma EnsureTrailingSlash_idem [simp]: "EnsureTrailingSlash (EnsureTrailingSlash p) = EnsureTrailingSlash p"
  by (simp add: EnsureTrailingSlash_def)

lemma JoinPath_slash: "JoinPath (EnsureTrailingSlash p) t = EnsureTrailingSlash p @ t"
  by (simp add: JoinPath_def EnsureTrailingSlash_last)

end
