(* ===== verification/Timestamps.thy ===== *)
theory Timestamps
  imports Text_Format "HOL-Library.Signed_Division"
begin

text \<open>
  Calendar arithmetic: \<open>src/storage/timestamp_util.h\<close> and \<open>CsvWriter::TimestampToDate\<close>
  (\<open>src/storage/engine/csv_writer.cpp\<close>). Timestamps are 64-bit microseconds; the day numbers and
  civil dates derived from them are integers, since a day number is below \<open>2 ^ 28\<close> and no
  intermediate value of the two conversions leaves the range of \<open>int64_t\<close>. Signed division
  truncates, as in C++.
\<close>

section \<open>Definitions\<close>

definition kUsecsPerDay :: u64 where
  "kUsecsPerDay = 86400000000"

definition kMaxValidUsec :: u64 where
  "kMaxValidUsec = 4102444800000000"

definition kMinValidDate :: int where
  "kMinValidDate = 10957"

definition kPartitionYearBack :: int where
  "kPartitionYearBack = 1"

definition kPartitionYearForward :: int where
  "kPartitionYearForward = 5"

definition kMonthDays :: "int list" where
  "kMonthDays = [0, 31, 59, 90, 120, 151, 181, 212, 243, 273, 304, 334, 365]"

definition leap_year :: "int \<Rightarrow> bool" where
  "leap_year year \<longleftrightarrow> year mod 4 = 0 \<and> (year mod 100 \<noteq> 0 \<or> year mod 400 = 0)"

definition UtcDaysFromEpoch :: "int \<Rightarrow> int \<Rightarrow> int \<Rightarrow> int" where
  "UtcDaysFromEpoch year month day =
     (let y = year - 1;
          days = y * 365 + y sdiv 4 - y sdiv 100 + y sdiv 400 - 719162
      in days + (kMonthDays ! nat (month - 1) + (day - 1) + (if leap_year year \<and> month > 2 then 1 else 0)))"

definition UsecToDateInt :: "u64 \<Rightarrow> int" where
  "UsecToDateInt usec_since_epoch =
     (if usec_since_epoch = 0 \<or> usec_since_epoch > kMaxValidUsec then -1
      else uint (usec_since_epoch div kUsecsPerDay))"

text \<open>The civil date of a day number, before clamping: year, month, day.\<close>
definition civil_date :: "int \<Rightarrow> int \<times> int \<times> int" where
  "civil_date days =
     (let z = days + 719468;
          era = z div 146097;
          doe = z - era * 146097;
          yoe = (doe - doe div 1460 + doe div 36524 - doe div 146096) div 365;
          y = yoe + era * 400;
          doy = doe - (365 * yoe + yoe div 4 - yoe div 100);
          mp = (5 * doy + 2) div 153;
          d = doy - (153 * mp + 2) div 5 + 1;
          m = mp + (if mp < 10 then 3 else -9)
      in (if m \<le> 2 then y + 1 else y, m, d))"

definition clamp :: "int \<Rightarrow> int \<Rightarrow> int \<Rightarrow> int" where
  "clamp v lo hi = (if v < lo then lo else if hi < v then hi else v)"

definition TimestampToDate :: "u64 \<Rightarrow> string" where
  "TimestampToDate usec_since_epoch =
     (case civil_date (uint (usec_since_epoch div kUsecsPerDay)) of (y, m, d) \<Rightarrow>
        dec_pad 4 (nat (min y 9999)) @ ''-'' @ dec_pad 2 (nat (clamp m 1 12)) @ ''-'' @ dec_pad 2 (nat (clamp d 1 31)))"

text \<open>\<open>gmtime_r\<close>: the civil year of a time in seconds.\<close>
definition gmtime_year :: "int \<Rightarrow> int" where
  "gmtime_year now = fst (civil_date (now div 86400))"

text \<open>The two static atomics of \<open>IsValidTradeDate\<close>.\<close>
record date_cache =
  cached_max_date :: int
  cached_on_day :: int

definition date_cache_init :: date_cache where
  "date_cache_init = \<lparr>cached_max_date = 0, cached_on_day = -1\<rparr>"

text \<open>One call at wall-clock time \<open>now\<close> (seconds): the answer and the cache left behind.\<close>
definition IsValidTradeDate :: "int \<Rightarrow> int \<Rightarrow> date_cache \<Rightarrow> bool \<times> date_cache" where
  "IsValidTradeDate now trade_date c =
     (if trade_date < 0 then (False, c)
      else let today = now div 86400;
               c' = (if cached_on_day c \<noteq> today
                     then \<lparr>cached_max_date = UtcDaysFromEpoch (gmtime_year now + kPartitionYearForward) 1 1 - 1,
                           cached_on_day = today\<rparr>
                     else c)
           in (kMinValidDate \<le> trade_date \<and> trade_date \<le> cached_max_date c', c'))"

definition IsValidExchangeTimestamp :: "int \<Rightarrow> u64 \<Rightarrow> date_cache \<Rightarrow> bool \<times> date_cache" where
  "IsValidExchangeTimestamp now usec c = IsValidTradeDate now (UsecToDateInt usec) c"

section \<open>The civil calendar\<close>

lemma sdiv_pos: "0 \<le> (a::int) \<Longrightarrow> 0 < b \<Longrightarrow> a sdiv b = a div b"
  by (simp add: signed_divide_int_def sgn_if)

text \<open>Days in the March-based year \<open>yoe\<close> of an era, and the day of the year.\<close>
lemma year_of_era:
  fixes doe :: int
  assumes "0 \<le> doe" "doe < 146097"
  obtains b q k r where "0 \<le> b" "b \<le> 3" "0 \<le> q" "q \<le> 24" "0 \<le> k" "k \<le> 3"
    "0 \<le> r" "r \<le> 365" "k < 3 \<longrightarrow> r \<le> 364" "q = 24 \<and> k = 3 \<and> b < 3 \<longrightarrow> r \<le> 364"
    "doe = 36524 * b + 1461 * q + 365 * k + r"
proof -
  define b where "b = min 3 (doe div 36524)"
  define m where "m = doe - 36524 * b"
  define q where "q = m div 1461"
  define n where "n = m - 1461 * q"
  define k where "k = min 3 (n div 365)"
  define r where "r = n - 365 * k"
  have b: "0 \<le> b" "b \<le> 3" "0 \<le> m" "m \<le> 36524" "b < 3 \<Longrightarrow> m < 36524"
    using assms unfolding b_def m_def by (auto simp: min_def)
  have "n = m mod 1461" by (simp add: n_def q_def minus_mult_div_eq_mod)
  then have q: "0 \<le> q" "q \<le> 24" "0 \<le> n" "n \<le> 1460"
    using b zdiv_mono1 [OF b(4), of 1461] pos_mod_bound [of 1461 m] by (simp_all add: q_def pos_imp_zdiv_nonneg_iff)
  have "n = 365 * (n div 365) + n mod 365" "0 \<le> n mod 365" "n mod 365 < 365" "0 \<le> n div 365"
    using q(3) by (simp_all add: pos_imp_zdiv_nonneg_iff)
  then have k: "0 \<le> k" "k \<le> 3" "0 \<le> r" "r \<le> 365" "k < 3 \<longrightarrow> r \<le> 364"
    using q unfolding k_def r_def min_def by (cases "3 \<le> n div 365"; simp; linarith)+
  have "doe = 36524 * b + 1461 * q + 365 * k + r"
    by (simp add: r_def n_def m_def)
  moreover have "q = 24 \<and> k = 3 \<and> b < 3 \<longrightarrow> r \<le> 364"
    using b(5) by (auto simp: r_def n_def)
  ultimately show thesis using that b q k by blast
qed

lemma yoe_correct:
  fixes b q k r :: int
  assumes "0 \<le> b" "b \<le> 3" "0 \<le> q" "q \<le> 24" "0 \<le> k" "k \<le> 3" "0 \<le> r" "r \<le> 365"
    "k < 3 \<longrightarrow> r \<le> 364" "q = 24 \<and> k = 3 \<and> b < 3 \<longrightarrow> r \<le> 364"
    "doe = 36524 * b + 1461 * q + 365 * k + r"
  shows "(doe - doe div 1460 + doe div 36524 - doe div 146096) div 365 = 100 * b + 4 * q + k"
proof -
  define carry where "carry = (if 24 * b + q + 365 * k + r \<ge> 1460 then 1 else (0::int))"
  have c: "doe div 1460 = 25 * b + q + carry"
    unfolding carry_def using assms
    by (intro int_div_pos_eq [where r = "24 * b + q + 365 * k + r - 1460 * carry"]) (auto simp: carry_def)
  have "doe div 36524 - doe div 146096 = b"
  proof (cases "doe = 146096")
    case True
    moreover have "b = 3" using assms True by (cases "b = 3") (cases "q = 24"; cases "k = 3"; simp)+
    ultimately show ?thesis by simp
  next
    case False
    have "doe < 146096" using assms False by linarith
    moreover have "0 \<le> doe" using assms by simp
    ultimately have "doe div 146096 = 0" by simp
    moreover have "1461 * q + 365 * k + r < 36524"
      using assms False by (cases "b = 3"; cases "q = 24"; cases "k = 3"; simp)
    then have "doe div 36524 = b"
      using assms by (intro int_div_pos_eq [where r = "1461 * q + 365 * k + r"]) auto
    ultimately show ?thesis by simp
  qed
  then have "doe - doe div 1460 + doe div 36524 - doe div 146096
      = 365 * (100 * b + 4 * q + k) + (r - carry)"
    using assms(11) c by simp
  moreover have "0 \<le> r - carry" "r - carry < 365"
    unfolding carry_def using assms by (cases "k = 3"; simp)+
  ultimately show ?thesis by simp
qed

lemma year_parts:
  fixes b q k :: int
  assumes "0 \<le> b" "b \<le> 3" "0 \<le> q" "q \<le> 24" "0 \<le> k" "k \<le> 3"
  shows "(100 * b + 4 * q + k) div 4 = 25 * b + q" "(100 * b + 4 * q + k) div 100 = b"
proof -
  show "(100 * b + 4 * q + k) div 4 = 25 * b + q"
    by (rule int_div_pos_eq [where r = k]) (use assms in simp_all)
  show "(100 * b + 4 * q + k) div 100 = b"
    by (rule int_div_pos_eq [where r = "4 * q + k"]) (use assms in simp_all)
qed

lemma leap_days:
  fixes y :: int
  shows "y div 4 - y div 100 + y div 400 =
    (y - 1) div 4 - (y - 1) div 100 + (y - 1) div 400 + (if leap_year y then 1 else 0)"
proof -
  have d: "y div n = (y - 1) div n + (if y mod n = 0 then 1 else 0)" if "0 < n" for n :: int
  proof (cases "y mod n = 0")
    case True
    then have "y = n * (y div n)" by (metis mult_div_mod_eq add.right_neutral)
    then have "(y - 1) div n = y div n - 1"
      using that by (intro int_div_pos_eq [where r = "n - 1"]) (auto simp: right_diff_distrib)
    then show ?thesis using True by simp
  next
    case False
    have "y = n * (y div n) + y mod n" "0 \<le> y mod n" "y mod n < n" using that by simp_all
    then have "(y - 1) div n = y div n"
      using that False by (intro int_div_pos_eq [where r = "y mod n - 1"]) linarith+
    then show ?thesis using False by simp
  qed
  have h: "y mod 100 = 0 \<longrightarrow> y mod 4 = 0" "y mod 400 = 0 \<longrightarrow> y mod 100 = 0"
    unfolding mod_eq_0_iff_dvd by (auto intro: dvd_trans [of "4::int" 100 y] dvd_trans [of "100::int" 400 y])
  have "(p100 \<longrightarrow> p4) \<Longrightarrow> (p400 \<longrightarrow> p100) \<Longrightarrow> (if p4 \<and> (\<not> p100 \<or> p400) then 1 else 0::int)
      = (if p4 then 1 else 0) - (if p100 then 1 else 0) + (if p400 then 1 else 0)" for p4 p100 p400
    by (cases p4; cases p100; cases p400; simp)
  note i = this [OF h, folded leap_year_def]
  have d4: "y div 4 = (y - 1) div 4 + (if y mod 4 = 0 then 1 else 0)"
    and d100: "y div 100 = (y - 1) div 100 + (if y mod 100 = 0 then 1 else 0)"
    and d400: "y div 400 = (y - 1) div 400 + (if y mod 400 = 0 then 1 else 0)"
    by (rule d, rule zero_less_numeral)+
  have alg: "(a + i) - (b + j) + (c + k) = a - b + c + (i - j + k)" for a b c i j k :: int
    by simp
  show ?thesis
    unfolding i d4 d100 d400 by (rule alg)
qed

lemma UtcDays_March:
  fixes y m d :: int
  assumes "1 \<le> y" "3 \<le> m"
  shows "UtcDaysFromEpoch y m d = 365 * y + (y div 4 - y div 100 + y div 400)
    + kMonthDays ! nat (m - 1) + d - 719528"
proof -
  have "UtcDaysFromEpoch y m d = (y - 1) * 365 + (y - 1) div 4 - (y - 1) div 100 + (y - 1) div 400 - 719162
      + (kMonthDays ! nat (m - 1) + (d - 1) + (if leap_year y then 1 else 0))"
    using assms unfolding UtcDaysFromEpoch_def Let_def by (simp only: sdiv_pos) simp
  moreover have "(y - 1) * 365 + a4 - a100 + a400 - 719162 + (k + (d - 1) + l)
      = 365 * y + (a4 - a100 + a400 + l) + k + d - 719528" for a4 a100 a400 k l :: int
    by simp
  ultimately show ?thesis unfolding leap_days [of y] by (simp only:)
qed

lemma UtcDays_JanFeb:
  fixes y m d :: int
  assumes "0 \<le> y" "m \<le> 2"
  shows "UtcDaysFromEpoch (y + 1) m d = 365 * y + (y div 4 - y div 100 + y div 400)
    + kMonthDays ! nat (m - 1) + d - 719163"
proof -
  have "UtcDaysFromEpoch (y + 1) m d = y * 365 + y div 4 - y div 100 + y div 400 - 719162
      + (kMonthDays ! nat (m - 1) + (d - 1) + 0)"
    using assms unfolding UtcDaysFromEpoch_def Let_def by (simp only: sdiv_pos add_diff_cancel_right') simp
  moreover have "y * 365 + a4 - a100 + a400 - 719162 + (k + (d - 1) + 0)
      = 365 * y + (a4 - a100 + a400) + k + d - 719163" for a4 a100 a400 k :: int
    by simp
  ultimately show ?thesis by (simp only:)
qed

text \<open>The month and day of the day of a March-based year.\<close>
lemma month_of_doy:
  fixes doy :: int
  assumes "0 \<le> doy" "doy \<le> 365"
  shows "let mp = (5 * doy + 2) div 153; d = doy - (153 * mp + 2) div 5 + 1;
             m = mp + (if mp < 10 then 3 else -9)
         in 1 \<le> m \<and> m \<le> 12 \<and> 1 \<le> d \<and> d \<le> 31 \<and> (m \<le> 2 \<longleftrightarrow> 10 \<le> mp) \<and>
            kMonthDays ! nat (m - 1) + d = (if m \<le> 2 then doy - 305 else doy + 60)"
proof -
  define mp where "mp = (5 * doy + 2) div 153"
  obtain s where s: "5 * doy + 2 = 153 * mp + s" "0 \<le> s" "s < 153"
    unfolding mp_def by (metis mult_div_mod_eq pos_mod_bound pos_mod_sign zero_less_numeral)
  then have "0 \<le> mp" "mp \<le> 11" using assms by linarith+
  then have "mp = 0 \<or> mp = 1 \<or> mp = 2 \<or> mp = 3 \<or> mp = 4 \<or> mp = 5 \<or> mp = 6 \<or> mp = 7 \<or> mp = 8
      \<or> mp = 9 \<or> mp = 10 \<or> mp = 11"
    by presburger
  then show ?thesis
    unfolding mp_def [symmetric] Let_def using s assms
    by (elim disjE; simp add: kMonthDays_def)
qed

lemma civil_date_correct:
  assumes "0 \<le> days" "civil_date days = (y, m, d)"
  shows "UtcDaysFromEpoch y m d = days" "1 \<le> m" "m \<le> 12" "1 \<le> d" "d \<le> 31" "0 \<le> y"
    "365 * (y - 1) \<le> days + 719468"
proof -
  define z where "z = days + 719468"
  define era where "era = z div 146097"
  define doe where "doe = z - era * 146097"
  have doe: "0 \<le> doe" "doe < 146097"
    by (simp_all add: doe_def era_def minus_div_mult_eq_mod)
  have "719468 \<le> z" using assms(1) by (simp add: z_def)
  then have "719468 div 146097 \<le> era" unfolding era_def by (rule zdiv_mono1) simp
  then have era: "4 \<le> era" by simp
  obtain b q k r where p: "0 \<le> b" "b \<le> 3" "0 \<le> q" "q \<le> 24" "0 \<le> k" "k \<le> 3"
    "0 \<le> r" "r \<le> 365" "k < 3 \<longrightarrow> r \<le> 364" "q = 24 \<and> k = 3 \<and> b < 3 \<longrightarrow> r \<le> 364"
    "doe = 36524 * b + 1461 * q + 365 * k + r"
    by (rule year_of_era [OF doe]) blast
  define yoe where "yoe = 100 * b + 4 * q + k"
  define y0 where "y0 = yoe + era * 400"
  note parts = year_parts [OF p(1-6), folded yoe_def]
  have yoe: "(doe - doe div 1460 + doe div 36524 - doe div 146096) div 365 = yoe"
    using yoe_correct [OF p] by (simp add: yoe_def)
  have doy: "doe - (365 * yoe + yoe div 4 - yoe div 100) = r"
    unfolding parts by (simp add: p(11) yoe_def)
  have y0: "y0 div 4 = 25 * b + q + era * 100" "y0 div 100 = b + era * 4" "y0 div 400 = era"
  proof -
    show "y0 div 4 = 25 * b + q + era * 100"
      unfolding y0_def yoe_def by (rule int_div_pos_eq [where r = k]) (use p in simp_all)
    show "y0 div 100 = b + era * 4"
      unfolding y0_def yoe_def by (rule int_div_pos_eq [where r = "4 * q + k"]) (use p in simp_all)
    show "y0 div 400 = era"
      unfolding y0_def yoe_def by (rule int_div_pos_eq [where r = "100 * b + 4 * q + k"]) (use p in simp_all)
  qed
  define D where "D = y0 div 4 - y0 div 100 + y0 div 400"
  have base: "365 * y0 + D = z - r"
    using p(11) doe_def unfolding D_def y0 by (simp add: y0_def yoe_def)
  define mp where "mp = (5 * r + 2) div 153"
  define m' where "m' = mp + (if mp < 10 then 3 else -9)"
  define d' where "d' = r - (153 * mp + 2) div 5 + 1"
  have "civil_date days = (if m' \<le> 2 then y0 + 1 else y0, m', d')"
    unfolding civil_date_def Let_def z_def [symmetric] era_def [symmetric] doe_def [symmetric] yoe doy
      mp_def [symmetric] m'_def [symmetric] d'_def [symmetric] y0_def [symmetric] by (rule refl)
  then have ymd: "m = m'" "d = d'" "y = (if m \<le> 2 then y0 + 1 else y0)"
    unfolding assms(2) prod.inject by simp_all
  have md: "1 \<le> m" "m \<le> 12" "1 \<le> d" "d \<le> 31" "kMonthDays ! nat (m - 1) + d = (if m \<le> 2 then r - 305 else r + 60)"
    using month_of_doy [OF p(7,8), unfolded Let_def, folded mp_def, folded m'_def d'_def, folded ymd(1,2)] by blast+
  show "1 \<le> m" "m \<le> 12" "1 \<le> d" "d \<le> 31" using md by blast+
  have y1: "1600 \<le> y0" using era p by (simp add: y0_def yoe_def)
  show "UtcDaysFromEpoch y m d = days"
  proof (cases "m \<le> 2")
    case True
    then show ?thesis
      using UtcDays_JanFeb [of y0 m d, folded D_def] y1 md(5) base ymd(3) by (simp add: z_def)
  next
    case False
    then show ?thesis
      using UtcDays_March [of y0 m d, folded D_def] y1 md(5) base ymd(3) by (simp add: z_def)
  qed
  show "0 \<le> y" using ymd(3) y1 by simp
  have "0 \<le> D" using p era unfolding D_def y0 by simp
  then show "365 * (y - 1) \<le> days + 719468"
    using base p(7) ymd(3) by (simp add: z_def)
qed

section \<open>Dates of timestamps\<close>

definition day_of :: "u64 \<Rightarrow> int" where
  "day_of ts = uint (ts div kUsecsPerDay)"

lemma day_of_nonneg [simp]: "0 \<le> day_of ts"
  by (simp add: day_of_def)

lemma day_of_max: "ts \<le> kMaxValidUsec \<Longrightarrow> day_of ts \<le> 47482"
proof -
  assume "ts \<le> kMaxValidUsec"
  then have "uint ts div 86400000000 \<le> 4102444800000000 div 86400000000"
    by (intro zdiv_mono1) (simp_all add: word_le_def kMaxValidUsec_def)
  then show ?thesis by (simp add: day_of_def kUsecsPerDay_def uint_div)
qed

text \<open>The three numbers of a date text.\<close>
lemma TimestampToDate_parts:
  assumes "ts \<le> kMaxValidUsec" "civil_date (day_of ts) = (y, m, d)"
  shows "TimestampToDate ts = dec_pad 4 (nat y) @ ''-'' @ dec_pad 2 (nat m) @ ''-'' @ dec_pad 2 (nat d)"
    "nat y < 10 ^ 4" "nat m < 10 ^ 2" "nat d < 10 ^ 2"
proof -
  note c = civil_date_correct [OF day_of_nonneg assms(2)]
  have y: "y \<le> 9999" using c(7) day_of_max [OF assms(1)] by (simp add: right_diff_distrib)
  then show "nat y < 10 ^ 4" "nat m < 10 ^ 2" "nat d < 10 ^ 2" using c by simp_all
  show "TimestampToDate ts = dec_pad 4 (nat y) @ ''-'' @ dec_pad 2 (nat m) @ ''-'' @ dec_pad 2 (nat d)"
    unfolding TimestampToDate_def day_of_def [symmetric] assms(2)
    using c y by (simp add: clamp_def min_def)
qed

lemma date_text_inj:
  fixes y m d y' m' d' :: nat
  assumes "dec_pad 4 y @ ''-'' @ dec_pad 2 m @ ''-'' @ dec_pad 2 d = dec_pad 4 y' @ ''-'' @ dec_pad 2 m' @ ''-'' @ dec_pad 2 d'"
    "y < 10 ^ 4" "m < 10 ^ 2" "d < 10 ^ 2" "y' < 10 ^ 4" "m' < 10 ^ 2" "d' < 10 ^ 2"
  shows "y = y' \<and> m = m' \<and> d = d'"
proof -
  have "length (dec_pad 4 y) = length (dec_pad 4 y')" "length (dec_pad 2 m) = length (dec_pad 2 m')"
    using assms by (simp_all only: length_dec_pad zero_less_numeral)
  then show ?thesis using assms(1) by (simp add: dec_pad_inj)
qed

text \<open>
  C28: The date text that names a CSV file is the calendar date of the timestamp: its year, month and
  day are in range and \<open>UtcDaysFromEpoch\<close>, the independent conversion used for the database, maps
  them back to the timestamp's day number. For every timestamp the validation accepts (up to the
  year 2100).
\<close>
theorem date_roundtrip:
  assumes "ts \<le> kMaxValidUsec"
  shows "\<exists>y m d. TimestampToDate ts = dec_pad 4 y @ ''-'' @ dec_pad 2 m @ ''-'' @ dec_pad 2 d
    \<and> 1 \<le> m \<and> m \<le> 12 \<and> 1 \<le> d \<and> d \<le> 31
    \<and> UtcDaysFromEpoch (int y) (int m) (int d) = uint (ts div kUsecsPerDay)"
proof -
  obtain y m d where c: "civil_date (day_of ts) = (y, m, d)" by (metis prod_cases3)
  note p = TimestampToDate_parts [OF assms c] and r = civil_date_correct [OF day_of_nonneg c]
  show ?thesis
    by (rule exI [of _ "nat y"], rule exI [of _ "nat m"], rule exI [of _ "nat d"])
      (use p(1) r in \<open>simp add: day_of_def le_nat_iff nat_le_iff\<close>)
qed

theorem date_roundtrip_witness:
  "\<exists>y m d. TimestampToDate 1700000000000000 = dec_pad 4 y @ ''-'' @ dec_pad 2 m @ ''-'' @ dec_pad 2 d
    \<and> 1 \<le> m \<and> m \<le> 12 \<and> 1 \<le> d \<and> d \<le> 31
    \<and> UtcDaysFromEpoch (int y) (int m) (int d) = uint ((1700000000000000::u64) div kUsecsPerDay)"
  by (rule date_roundtrip) (simp add: kMaxValidUsec_def word_le_def)

text \<open>
  Two accepted timestamps get the same date text exactly when they lie on the same UTC day, so a
  day's records go to one file and no file mixes two days.
\<close>
theorem same_date_iff_same_day:
  assumes "ts \<le> kMaxValidUsec" "ts' \<le> kMaxValidUsec"
  shows "TimestampToDate ts = TimestampToDate ts' \<longleftrightarrow> ts div kUsecsPerDay = ts' div kUsecsPerDay"
proof
  assume eq: "TimestampToDate ts = TimestampToDate ts'"
  obtain y m d where c: "civil_date (day_of ts) = (y, m, d)" by (metis prod_cases3)
  obtain y' m' d' where c': "civil_date (day_of ts') = (y', m', d')" by (metis prod_cases3)
  note p = TimestampToDate_parts [OF assms(1) c] and p' = TimestampToDate_parts [OF assms(2) c']
  note r = civil_date_correct [OF day_of_nonneg c] and r' = civil_date_correct [OF day_of_nonneg c']
  have "nat y = nat y' \<and> nat m = nat m' \<and> nat d = nat d'"
    using date_text_inj [OF eq [unfolded p(1) p'(1)] p(2-4) p'(2-4)] .
  then have "y = y'" "m = m'" "d = d'" using r(2,4,6) r'(2,4,6) by (simp_all add: eq_nat_nat_iff)
  then have "day_of ts = day_of ts'" using r(1) r'(1) by simp
  then show "ts div kUsecsPerDay = ts' div kUsecsPerDay" by (simp add: day_of_def word_uint_eq_iff)
next
  assume "ts div kUsecsPerDay = ts' div kUsecsPerDay"
  then show "TimestampToDate ts = TimestampToDate ts'" by (simp add: TimestampToDate_def)
qed

theorem same_date_iff_same_day_witness:
  "TimestampToDate 1700000000000000 \<noteq> TimestampToDate 1700086400000000"
proof -
  have "(1700000000000000::u64) div kUsecsPerDay \<noteq> 1700086400000000 div kUsecsPerDay"
    by (simp add: kUsecsPerDay_def)
  then show ?thesis
    using same_date_iff_same_day [of 1700000000000000 1700086400000000]
    by (simp add: kMaxValidUsec_def word_le_def)
qed

section \<open>Validation\<close>

definition max_date_on :: "int \<Rightarrow> int" where
  "max_date_on day = UtcDaysFromEpoch (fst (civil_date day) + kPartitionYearForward) 1 1 - 1"

definition date_cache_inv :: "date_cache \<Rightarrow> bool" where
  "date_cache_inv c \<longleftrightarrow> cached_on_day c = -1 \<or> cached_max_date c = max_date_on (cached_on_day c)"

lemma IsValidTradeDate_cached:
  assumes "0 \<le> now" "date_cache_inv c"
  shows "fst (IsValidTradeDate now date c) \<longleftrightarrow> kMinValidDate \<le> date \<and> date \<le> max_date_on (now div 86400)"
    and "date_cache_inv (snd (IsValidTradeDate now date c))"
proof -
  have today: "now div 86400 \<noteq> -1" using assms(1) pos_imp_zdiv_nonneg_iff [of 86400 now] by auto
  define t where "t = now div 86400"
  have v: "IsValidTradeDate now date c = (if date < 0 then (False, c) else
      let c' = (if cached_on_day c \<noteq> t then \<lparr>cached_max_date = max_date_on t, cached_on_day = t\<rparr> else c)
      in (kMinValidDate \<le> date \<and> date \<le> cached_max_date c', c'))"
    unfolding IsValidTradeDate_def Let_def gmtime_year_def max_date_on_def t_def by (rule refl)
  have min: "\<not> kMinValidDate \<le> date" if "date < 0" using that by (simp add: kMinValidDate_def)
  show "fst (IsValidTradeDate now date c) \<longleftrightarrow> kMinValidDate \<le> date \<and> date \<le> max_date_on (now div 86400)"
    using assms(2) today min unfolding v t_def [symmetric] by (auto simp: date_cache_inv_def Let_def)
  show "date_cache_inv (snd (IsValidTradeDate now date c))"
    using assms(2) unfolding v by (auto simp: date_cache_inv_def Let_def)
qed

text \<open>The answers of a sequence of validations (wall-clock seconds, timestamp), one after another.\<close>
fun validations :: "(int \<times> u64) list \<Rightarrow> date_cache \<Rightarrow> bool list" where
  "validations [] c = []"
| "validations ((now, ts) # rest) c =
     (let (ok, c') = IsValidExchangeTimestamp now ts c in ok # validations rest c')"

lemma validations_exact:
  "date_cache_inv c \<Longrightarrow> \<forall>(now, ts)\<in>set calls. 0 \<le> now \<Longrightarrow>
   validations calls c = map (\<lambda>(now, ts). kMinValidDate \<le> UsecToDateInt ts
     \<and> UsecToDateInt ts \<le> max_date_on (now div 86400)) calls"
proof (induction calls arbitrary: c)
  case (Cons a calls)
  obtain now ts where a: "a = (now, ts)" by (cases a)
  show ?case
    using Cons IsValidTradeDate_cached [of now c "UsecToDateInt ts"]
    by (cases "IsValidTradeDate now (UsecToDateInt ts) c") (simp add: a IsValidExchangeTimestamp_def)
qed simp


lemma gmtime_year_2023: "gmtime_year 1700000000 = 2023"
  by code_simp


end
