(* ===== verification/Dolphindb_Schema.thy ===== *)
theory Dolphindb_Schema
  imports Timestamps
begin

text \<open>
  The database schema component (\<open>src/storage/client/dolphindb_schema.cpp\<close>). The database server is
  a parameter: \<open>run\<close> executes a script in the server's state and gives a value or the text of an
  exception, and the accessors of a value may throw. The functions below produce the scripts the
  code produces, in its order, and react to the answers as it does. The local calendar year of
  the machine is an argument.
\<close>

section \<open>Text helpers\<close>

definition quoted :: "string \<Rightarrow> string" where
  "quoted s = CHR 0x22 # s @ [CHR 0x22]"

definition dec_int :: "int \<Rightarrow> string" where
  "dec_int i = (if i < 0 then CHR ''-'' # dec (nat (- i)) else dec (nat i))"

text \<open>\<open>std::string::find(pat) != npos\<close>.\<close>
fun contains :: "string \<Rightarrow> string \<Rightarrow> bool" where
  "contains pat [] = (pat = [])"
| "contains pat (c # s) = (take (length pat) (c # s) = pat \<or> contains pat s)"

text \<open>\<open>rfind\<close>: the last position of \<open>pat\<close>.\<close>
fun rfind :: "string \<Rightarrow> string \<Rightarrow> nat option" where
  "rfind pat [] = (if pat = [] then Some 0 else None)"
| "rfind pat (c # s) =
     (case rfind pat s of
        Some i \<Rightarrow> Some (Suc i)
      | None \<Rightarrow> if take (length pat) (c # s) = pat then Some 0 else None)"

definition is_space :: "char \<Rightarrow> bool" where
  "is_space c \<longleftrightarrow> c \<in> {CHR '' '', CHR 0x09, CHR 0x0A, CHR 0x0D}"

definition is_digit :: "char \<Rightarrow> bool" where
  "is_digit c \<longleftrightarrow> c \<in> set ''0123456789''"

text \<open>The two \<open>erase\<close> calls around a boundary.\<close>
definition trim :: "string \<Rightarrow> string" where
  "trim s = rev (dropWhile is_space (rev (dropWhile is_space s)))"

text \<open>\<open>std::stoi\<close> on at most four characters: no overflow, \<open>None\<close> is \<open>invalid_argument\<close>.\<close>
definition stoi :: "string \<Rightarrow> int option" where
  "stoi s =
     (let s1 = dropWhile (\<lambda>c. is_space c \<or> c \<in> {CHR 0x0B, CHR 0x0C}) s;
          (neg, s2) = (case s1 of CHR ''-'' # r \<Rightarrow> (True, r) | CHR ''+'' # r \<Rightarrow> (False, r) | _ \<Rightarrow> (False, s1));
          ds = takeWhile is_digit s2
      in if ds = [] then None
         else Some (if neg then - int (dec_value ds) else int (dec_value ds)))"

section \<open>Partition boundaries\<close>

definition days_in_month :: "int \<Rightarrow> int \<Rightarrow> int" where
  "days_in_month y m =
     (if m = 2 \<and> ((y mod 4 = 0 \<and> y mod 100 \<noteq> 0) \<or> y mod 400 = 0) then 29
      else [31, 28, 31, 30, 31, 30, 31, 31, 30, 31, 30, 31] ! nat (m - 1))"

text \<open>The loops over years, months and days, as the dates they visit.\<close>
definition range_dates :: "int \<Rightarrow> int \<Rightarrow> string \<Rightarrow> (int \<times> int \<times> int) list" where
  "range_dates start_year end_year granularity =
     (if granularity = ''day'' then
        concat (map (\<lambda>y. concat (map (\<lambda>m. map (\<lambda>d. (y, m, d)) [1..days_in_month y m]) [1..12])) [start_year..end_year])
      else if granularity = ''month'' then
        concat (map (\<lambda>y. map (\<lambda>m. (y, m, 1)) [1..12]) [start_year..end_year])
      else map (\<lambda>y. (y, 1, 1)) [start_year..end_year])"

definition date_text :: "int \<times> int \<times> int \<Rightarrow> string" where
  "date_text ymd = (case ymd of (y, m, d) \<Rightarrow>
     quoted (dec_pad 4 (nat y) @ ''.'' @ dec_pad 2 (nat m) @ ''.'' @ dec_pad 2 (nat d)))"

text \<open>\<open>if(!dates.empty()) dates += ','\<close> before each but the first.\<close>
fun comma_join :: "string list \<Rightarrow> string" where
  "comma_join [] = []"
| "comma_join [s] = s"
| "comma_join (s # ss) = s @ '','' @ comma_join ss"

definition BuildRangeSpec :: "int \<Rightarrow> int \<Rightarrow> string \<Rightarrow> string" where
  "BuildRangeSpec start_year end_year granularity =
     ''date(['' @ comma_join (map date_text (range_dates start_year end_year granularity)) @ ''])''"

section \<open>The server\<close>

type_synonym ('v, 's) run = "string \<Rightarrow> 's \<Rightarrow> (string + 'v) \<times> 's"

record 'v db_values =
  get_bool :: "'v \<Rightarrow> string + bool"
  get_int :: "'v \<Rightarrow> string + int"
  get_member_string :: "'v \<Rightarrow> string \<Rightarrow> string + string"

text \<open>Code that may throw and talks to the server.\<close>
type_synonym ('a, 's) db = "'s \<Rightarrow> (string + 'a) \<times> 's"

definition db_return :: "'a \<Rightarrow> ('a, 's) db" where
  "db_return a s = (Inr a, s)"

definition db_bind :: "('a, 's) db \<Rightarrow> ('a \<Rightarrow> ('b, 's) db) \<Rightarrow> ('b, 's) db" where
  "db_bind m f s = (case m s of (Inl e, s') \<Rightarrow> (Inl e, s') | (Inr a, s') \<Rightarrow> f a s')"

definition db_lift :: "string + 'a \<Rightarrow> ('a, 's) db" where
  "db_lift r s = (r, s)"

text \<open>\<open>try { m } catch(const std::exception& e) { h(e.what()) }\<close>.\<close>
definition db_try :: "('a, 's) db \<Rightarrow> (string \<Rightarrow> ('a, 's) db) \<Rightarrow> ('a, 's) db" where
  "db_try m h s = (case m s of (Inl e, s') \<Rightarrow> h e s' | (Inr a, s') \<Rightarrow> (Inr a, s'))"

fun db_each :: "('x \<Rightarrow> (unit, 's) db) \<Rightarrow> 'x list \<Rightarrow> (unit, 's) db" where
  "db_each f [] = db_return ()"
| "db_each f (x # xs) = db_bind (f x) (\<lambda>_. db_each f xs)"

section \<open>Schema definitions\<close>

record TableSpec =
  ts_name :: string
  ts_stream_name :: string
  ts_cols :: string
  ts_types :: string

definition kTrades :: TableSpec where
  "kTrades = \<lparr>ts_name = ''trades'', ts_stream_name = ''trades_stream'',
     ts_cols = ''`exchange_timestamp`local_diff`trade_id`price`quantity'' @
               ''`direction`is_buyer_maker`symbol`exchange`market_type`trade_date'',
     ts_types = ''[LONG,LONG,LONG,DOUBLE,DOUBLE,INT,BOOL,SYMBOL,SYMBOL,SYMBOL,DATE]''\<rparr>"

definition kOrderbook :: TableSpec where
  "kOrderbook = \<lparr>ts_name = ''orderbook'', ts_stream_name = ''orderbook_stream'',
     ts_cols = ''`exchange_timestamp`local_diff`symbol`exchange`market_type`trade_date'' @
               ''`bid_prices`bid_sizes`ask_prices`ask_sizes'',
     ts_types = ''[LONG,LONG,SYMBOL,SYMBOL,SYMBOL,DATE,DOUBLE[],DOUBLE[],DOUBLE[],DOUBLE[]]''\<rparr>"

definition kBookTicker :: TableSpec where
  "kBookTicker = \<lparr>ts_name = ''bookticker'', ts_stream_name = ''bookticker_stream'',
     ts_cols = ''`exchange_timestamp`local_diff`best_bid_price`best_bid_qty'' @
               ''`best_ask_price`best_ask_qty`symbol`exchange`market_type`trade_date'',
     ts_types = ''[LONG,LONG,DOUBLE,DOUBLE,DOUBLE,DOUBLE,SYMBOL,SYMBOL,SYMBOL,DATE]''\<rparr>"

definition specs :: "TableSpec list" where
  "specs = [kTrades, kOrderbook, kBookTicker]"

record schema_config =
  sch_dfs_db_path :: string
  sch_hash_buckets :: int
  sch_partition_granularity :: string
  sch_mtw_batch_size :: int
  sch_mtw_throttle_text :: string

definition path_char_ok :: "char \<Rightarrow> bool" where
  "path_char_ok c \<longleftrightarrow> c \<in> set (''abcdefghijklmnopqrstuvwxyz'' @ ''ABCDEFGHIJKLMNOPQRSTUVWXYZ'' @ ''0123456789'' @ ''/_:-.~'')"

section \<open>Scripts\<close>

definition exists_database_script :: "string \<Rightarrow> string" where
  "exists_database_script db = ''existsDatabase('' @ quoted db @ '')''"

definition create_database_script :: "string \<Rightarrow> string \<Rightarrow> int \<Rightarrow> string" where
  "create_database_script db range_spec buckets =
     ''database('' @ quoted db @ '', COMPO, [database('' @ quoted [] @ '', RANGE, '' @ range_spec @ ''),database(''
     @ quoted [] @ '', HASH, [SYMBOL, '' @ dec_int buckets @ ''])], , '' @ quoted ''TSDB'' @ '')''"

definition exists_table_script :: "string \<Rightarrow> TableSpec \<Rightarrow> string" where
  "exists_table_script db s = ''existsTable('' @ quoted db @ '', '' @ quoted (ts_name s) @ '')''"

definition create_table_script :: "string \<Rightarrow> TableSpec \<Rightarrow> string" where
  "create_table_script db s =
     ''db = database('' @ quoted db @ ''); createPartitionedTable(db, table(1:0, '' @ ts_cols s @ '', '' @ ts_types s
     @ ''), '' @ quoted (ts_name s) @ '', `trade_date`symbol, , `symbol`exchange_timestamp)''"

definition exists_stream_script :: "TableSpec \<Rightarrow> string" where
  "exists_stream_script s = ''exists('' @ quoted (ts_stream_name s) @ '')''"

definition create_stream_script :: "TableSpec \<Rightarrow> string" where
  "create_stream_script s =
     ''share streamTable(1:0, '' @ ts_cols s @ '', '' @ ts_types s @ '') as '' @ ts_stream_name s"

definition count_subscriptions_script :: "TableSpec \<Rightarrow> string" where
  "count_subscriptions_script s =
     ''exec count(*) from getStreamingStat().pubTables where tableName = '' @ quoted (ts_stream_name s)"

definition subscribe_script :: "schema_config \<Rightarrow> TableSpec \<Rightarrow> string" where
  "subscribe_script cfg s =
     ''subscribeTable(tableName='' @ quoted (ts_stream_name s) @ '', actionName='' @ quoted (''persist_'' @ ts_name s)
     @ '', handler=loadTable('' @ quoted (sch_dfs_db_path cfg) @ '', '' @ quoted (ts_name s) @ ''), msgAsTable=true, batchSize=''
     @ dec_int (sch_mtw_batch_size cfg) @ '', throttle='' @ sch_mtw_throttle_text cfg @ '')''"

definition count_stream_script :: "TableSpec \<Rightarrow> string" where
  "count_stream_script s = ''exec count(*) from objs(true) where name = '' @ quoted (ts_stream_name s)"

definition query_domain_script :: "string \<Rightarrow> string" where
  "query_domain_script db =
     ''db = database('' @ quoted db @ '');compDom = exec domain from schema(db);firstDom = compDom[0].getChildren()[0];''
     @ ''str = firstDom.getString();boundaries = firstDom.getRange().getString();''
     @ ''dict(`type`str`boundaries, [firstDom.getType(), str, boundaries])''"

definition add_partitions_script :: "string \<Rightarrow> string \<Rightarrow> string" where
  "add_partitions_script db boundaries = ''addValuePartitions(database('' @ quoted db @ ''), '' @ boundaries @ '')''"

section \<open>Operations\<close>

definition last_boundary :: "string \<Rightarrow> string" where
  "last_boundary boundaries_str =
     trim (case rfind ''..'' boundaries_str of
             Some i \<Rightarrow> if i + 2 < length boundaries_str then drop (i + 2) boundaries_str else boundaries_str
           | None \<Rightarrow> boundaries_str)"

text \<open>The year of the last boundary; 0 when the text has neither form, \<open>None\<close> when \<open>stoi\<close> throws.\<close>
definition boundary_year :: "string \<Rightarrow> int option" where
  "boundary_year b =
     (if 4 \<le> length b \<and> is_digit (hd b) then stoi (take 4 b)
      else case find_char (CHR 0x22) b of
        Some q \<Rightarrow> if q + 5 < length b then stoi (take 4 (drop (q + 1) b)) else Some 0
      | None \<Rightarrow> Some 0)"

definition TryExtendPartitionRange ::
  "('v, 's) run \<Rightarrow> 'v db_values \<Rightarrow> string \<Rightarrow> int \<Rightarrow> int \<Rightarrow> string \<Rightarrow> (bool, 's) db" where
  "TryExtendPartitionRange run V db_path start_year end_year granularity =
     db_try
       (db_bind (run (query_domain_script db_path)) (\<lambda>result.
        db_bind (db_lift (get_member_string V result ''type'')) (\<lambda>type_str.
        db_bind (db_lift (get_member_string V result ''boundaries'')) (\<lambda>boundaries_str.
        if type_str \<noteq> ''RANGE'' then db_return True
        else
          db_bind (db_lift (case boundary_year (last_boundary boundaries_str) of None \<Rightarrow> Inl ''stoi'' | Some y \<Rightarrow> Inr y))
            (\<lambda>last_year.
             if last_year < end_year then
               db_bind (run (add_partitions_script db_path
                   (BuildRangeSpec (max last_year start_year) end_year granularity))) (\<lambda>_. db_return True)
             else db_return True)))))
       (\<lambda>e. db_return False)"

definition create_table_if_missing :: "('v, 's) run \<Rightarrow> 'v db_values \<Rightarrow> string \<Rightarrow> TableSpec \<Rightarrow> (unit, 's) db" where
  "create_table_if_missing run V db_path s =
     db_bind (run (exists_table_script db_path s)) (\<lambda>result.
     db_bind (db_lift (get_bool V result)) (\<lambda>ex.
       if ex then db_return ()
       else db_bind (run (create_table_script db_path s)) (\<lambda>_. db_return ())))"

definition create_stream_if_missing :: "('v, 's) run \<Rightarrow> 'v db_values \<Rightarrow> TableSpec \<Rightarrow> (unit, 's) db" where
  "create_stream_if_missing run V s =
     db_bind (run (exists_stream_script s)) (\<lambda>result.
       let ex = (case get_bool V result of Inl _ \<Rightarrow> False | Inr b \<Rightarrow> b) in
       if ex then db_return ()
       else db_try (db_bind (run (create_stream_script s)) (\<lambda>_. db_return ()))
         (\<lambda>err. if contains ''already'' err \<or> contains ''registered'' err then db_return () else db_lift (Inl err)))"

definition subscribe_if_missing :: "('v, 's) run \<Rightarrow> 'v db_values \<Rightarrow> schema_config \<Rightarrow> TableSpec \<Rightarrow> (unit, 's) db" where
  "subscribe_if_missing run V cfg s =
     db_bind (run (count_subscriptions_script s)) (\<lambda>result.
       let count = (case get_int V result of Inl _ \<Rightarrow> 0 | Inr n \<Rightarrow> n) in
       if count \<noteq> 0 then db_return ()
       else db_try (db_bind (run (subscribe_script cfg s)) (\<lambda>_. db_return ()))
         (\<lambda>err. if contains ''already'' err \<or> contains ''exist'' err \<or> contains ''duplicate'' err
                 then db_return () else db_lift (Inl err)))"

text \<open>Step 1: the database, created with its partitions or extended.\<close>
definition create_database_if_missing ::
  "('v, 's) run \<Rightarrow> 'v db_values \<Rightarrow> int \<Rightarrow> int \<Rightarrow> schema_config \<Rightarrow> (unit, 's) db" where
  "create_database_if_missing run V start_year end_year cfg =
     db_bind (run (exists_database_script (sch_dfs_db_path cfg))) (\<lambda>result.
     db_bind (db_lift (get_bool V result)) (\<lambda>db_exists.
       if \<not> db_exists then
         db_bind (run (create_database_script (sch_dfs_db_path cfg)
             (BuildRangeSpec start_year end_year (sch_partition_granularity cfg)) (sch_hash_buckets cfg)))
           (\<lambda>_. db_return ())
       else
         db_bind (TryExtendPartitionRange run V (sch_dfs_db_path cfg) start_year end_year (sch_partition_granularity cfg))
           (\<lambda>_. db_return ())))"

definition InitSchema :: "('v, 's) run \<Rightarrow> 'v db_values \<Rightarrow> int \<Rightarrow> schema_config \<Rightarrow> (bool, 's) db" where
  "InitSchema run V cur_year cfg =
     (if sch_partition_granularity cfg \<notin> {''day'', ''month'', ''year''} then db_return False
      else if \<not> list_all path_char_ok (sch_dfs_db_path cfg) then db_return False
      else
        let start_year = cur_year - kPartitionYearBack;
            end_year = cur_year + kPartitionYearForward
        in db_try
             (db_bind (create_database_if_missing run V start_year end_year cfg) (\<lambda>_.
              db_bind (db_each (create_table_if_missing run V (sch_dfs_db_path cfg)) specs) (\<lambda>_.
              db_bind (db_each (create_stream_if_missing run V) specs) (\<lambda>_.
              db_bind (db_each (subscribe_if_missing run V cfg) specs) (\<lambda>_.
              db_return True)))))
             (\<lambda>e. db_return False))"

text \<open>One iteration of the validation loop: \<open>False\<close> is the early return.\<close>
definition validate_table :: "('v, 's) run \<Rightarrow> 'v db_values \<Rightarrow> string \<Rightarrow> TableSpec \<Rightarrow> (bool, 's) db" where
  "validate_table run V db_path s =
     db_bind (run (count_stream_script s)) (\<lambda>result.
       if (case get_int V result of Inl _ \<Rightarrow> 0 | Inr n \<Rightarrow> n) = 0 then db_return False
       else
         db_bind (run (exists_table_script db_path s)) (\<lambda>result.
         db_bind (db_lift (get_bool V result)) (\<lambda>ex.
           if \<not> ex then db_return False
           else db_bind (run (count_subscriptions_script s)) (\<lambda>_. db_return True))))"

fun validate_tables :: "('v, 's) run \<Rightarrow> 'v db_values \<Rightarrow> string \<Rightarrow> TableSpec list \<Rightarrow> (bool, 's) db" where
  "validate_tables run V db_path [] = db_return True"
| "validate_tables run V db_path (s # ss) =
     db_bind (validate_table run V db_path s) (\<lambda>ok.
       if ok then validate_tables run V db_path ss else db_return False)"

definition ValidateSchema :: "('v, 's) run \<Rightarrow> 'v db_values \<Rightarrow> string \<Rightarrow> (bool, 's) db" where
  "ValidateSchema run V db_path =
     db_try (validate_tables run V db_path specs) (\<lambda>e. db_return False)"


section \<open>Partition boundaries cover every day\<close>

lemma upto_concat: "a \<le> b + 1 \<Longrightarrow> b \<le> c \<Longrightarrow> [a..b] @ [b + 1..c] = [a..c :: int]"
  using upto_split1 [of a "b + 1" c] by (cases "b = c") simp_all

text \<open>Consecutive ranges, put together.\<close>
lemma concat_ranges:
  fixes F :: "int \<Rightarrow> int"
  assumes "\<And>i. a \<le> i \<Longrightarrow> i \<le> b \<Longrightarrow> F i \<le> F (i + 1)" "a \<le> b + 1"
  shows "concat (map (\<lambda>i. [F i..F (i + 1) - 1]) [a..b]) = [F a..F (b + 1) - 1]"
  using assms
proof (induction "nat (b + 1 - a)" arbitrary: a)
  case 0
  then have "a = b + 1" by simp
  then show ?case by simp
next
  case (Suc n)
  then have ab: "a \<le> b" by simp
  note step = Suc.prems(1)
  have mono: "F (a + 1) \<le> F (b + 1)"
  proof -
    have "F (a + 1) \<le> F (a + 1 + int k)" if "a + 1 + int k \<le> b + 1" for k
      using that
    proof (induction k)
      case (Suc k)
      then show ?case using step [of "a + 1 + int k"] by (simp add: algebra_simps)
    qed simp
    from this [of "nat (b - a)"] show ?thesis using ab by (simp add: add.commute)
  qed
  have "concat (map (\<lambda>i. [F i..F (i + 1) - 1]) [a + 1..b]) = [F (a + 1)..F (b + 1) - 1]"
    using Suc ab by (intro Suc(1)) auto
  moreover have "[F a..F (a + 1) - 1] @ [F (a + 1)..F (b + 1) - 1] = [F a..F (b + 1) - 1]"
    using upto_concat [of "F a" "F (a + 1) - 1" "F (b + 1) - 1"] Suc.prems(1) [of a] ab mono by simp
  ultimately show ?case using ab by (simp add: upto_rec1)
qed

lemma map_shift_upto: "map (\<lambda>d. k + (d - 1)) [1..n] = [k..k + n - 1 :: int]"
  by (rule nth_equalityI) simp_all

definition month_start :: "int \<Rightarrow> int \<Rightarrow> int" where
  "month_start y m = (if m \<le> 12 then UtcDaysFromEpoch y m 1 else UtcDaysFromEpoch (y + 1) 1 1)"

lemma UtcDays_day: "UtcDaysFromEpoch y m d = UtcDaysFromEpoch y m 1 + (d - 1)"
  by (simp add: UtcDaysFromEpoch_def Let_def)

lemma leap_alt:
  fixes y :: int
  shows "(y mod 4 = 0 \<and> y mod 100 \<noteq> 0) \<or> y mod 400 = 0 \<longleftrightarrow> leap_year y"
proof -
  have "y mod 400 = 0 \<longrightarrow> y mod 4 = 0"
    unfolding mod_eq_0_iff_dvd by (auto intro: dvd_trans [of "4::int" 400 y])
  then show ?thesis unfolding leap_year_def by argo
qed

lemma month_start_Suc:
  assumes "1 \<le> y" "1 \<le> m" "m \<le> 12"
  shows "month_start y (m + 1) = month_start y m + days_in_month y m"
proof -
  define L where "L z = z div 4 - z div 100 + z div 400" for z :: int
  have ld: "L y = L (y - 1) + (if leap_year y then 1 else 0)"
    using leap_days [of y] by (simp only: L_def)
  have jf: "UtcDaysFromEpoch y k 1 = 365 * y - 365 + L (y - 1) + kMonthDays ! nat (k - 1) - 719162" if "k \<le> 2" for k
    using UtcDays_JanFeb [of "y - 1" k 1, folded L_def] assms(1) that by simp
  have ma: "UtcDaysFromEpoch y k 1 = 365 * y + L y + kMonthDays ! nat (k - 1) - 719527" if "3 \<le> k" for k
    using UtcDays_March [of y k 1, folded L_def] assms(1) that by simp
  have nx: "UtcDaysFromEpoch (y + 1) 1 1 = 365 * y + L y - 719162"
    using UtcDays_JanFeb [of y 1 1, folded L_def] assms(1) by (simp add: kMonthDays_def)
  have dm: "days_in_month y k = (if k = 2 \<and> leap_year y then 29
      else [31, 28, 31, 30, 31, 30, 31, 31, 30, 31, 30, 31] ! nat (k - 1))" for k
    unfolding days_in_month_def leap_alt by (rule refl)
  have "m = 1 \<or> m = 2 \<or> m = 3 \<or> m = 4 \<or> m = 5 \<or> m = 6 \<or> m = 7 \<or> m = 8 \<or> m = 9 \<or> m = 10 \<or> m = 11 \<or> m = 12"
    using assms(2,3) by presburger
  then show ?thesis
    by (elim disjE; simp add: month_start_def dm jf ma nx kMonthDays_def ld)
qed


lemma days_in_month_pos: "1 \<le> m \<Longrightarrow> m \<le> 12 \<Longrightarrow> 0 \<le> days_in_month y m"
proof -
  assume "1 \<le> m" "m \<le> 12"
  then have "nat (m - 1) < 12" by auto
  then have "[31, 28, 31, 30, 31, 30, 31, 31, 30, 31, 30, 31] ! nat (m - 1) \<in> set [31, 28, 31, 30, 31, 30, 31, 31, 30, 31, 30, 31 :: int]"
    by (intro nth_mem) simp
  then show ?thesis by (auto simp: days_in_month_def)
qed

lemma month_days: "map (\<lambda>d. UtcDaysFromEpoch y m d) [1..n] = [UtcDaysFromEpoch y m 1..UtcDaysFromEpoch y m 1 + n - 1]"
  by (subst UtcDays_day) (rule map_shift_upto)

lemma year_days:
  assumes "1 \<le> y"
  shows "concat (map (\<lambda>m. map (\<lambda>d. UtcDaysFromEpoch y m d) [1..days_in_month y m]) [1..12])
    = [UtcDaysFromEpoch y 1 1..UtcDaysFromEpoch (y + 1) 1 1 - 1]"
proof -
  have "map (\<lambda>d. UtcDaysFromEpoch y m d) [1..days_in_month y m] = [month_start y m..month_start y (m + 1) - 1]"
    if "m \<in> set [1..12]" for m
    using that month_start_Suc [OF assms, of m] by (simp add: month_days) (simp add: month_start_def)
  then have "map (\<lambda>m. map (\<lambda>d. UtcDaysFromEpoch y m d) [1..days_in_month y m]) [1..12]
      = map (\<lambda>m. [month_start y m..month_start y (m + 1) - 1]) [1..12]"
    by (rule map_cong [OF refl])
  moreover have "concat (map (\<lambda>m. [month_start y m..month_start y (m + 1) - 1]) [1..12])
      = [month_start y 1..month_start y (12 + 1) - 1]"
    using month_start_Suc [OF assms] days_in_month_pos by (intro concat_ranges) simp_all
  moreover have "month_start y 1 = UtcDaysFromEpoch y 1 1" "month_start y (12 + 1) = UtcDaysFromEpoch (y + 1) 1 1"
    by (simp_all add: month_start_def)
  ultimately show ?thesis by (simp only:)
qed

text \<open>
  C30: The partition boundaries of daily granularity are exactly the days of the requested years, in
  order and without a gap or a repetition: their day numbers run from 1 January of the first year to
  31 December of the last one, leap days included.
\<close>
theorem day_boundaries_consecutive:
  assumes "1 \<le> start_year" "start_year \<le> end_year + 1"
  shows "map (\<lambda>(y, m, d). UtcDaysFromEpoch y m d) (range_dates start_year end_year ''day'')
    = [UtcDaysFromEpoch start_year 1 1..UtcDaysFromEpoch (end_year + 1) 1 1 - 1]"
proof -
  let ?U = "\<lambda>y. UtcDaysFromEpoch y 1 1"
  have mono: "?U y \<le> ?U (y + 1)" if "start_year \<le> y" for y
  proof -
    define L where "L z = z div 4 - z div 100 + z div 400" for z :: int
    have "?U (y + 1) = 365 * y + L y - 719162" "?U y = 365 * y - 365 + L (y - 1) - 719162"
      using UtcDays_JanFeb [of y 1 1, folded L_def] UtcDays_JanFeb [of "y - 1" 1 1, folded L_def] assms(1) that
      by (simp_all add: kMonthDays_def)
    moreover have "L (y - 1) \<le> L y" using leap_days [of y] by (simp only: L_def) simp
    ultimately show ?thesis by simp
  qed
  have "map (\<lambda>(y, m, d). UtcDaysFromEpoch y m d) (range_dates start_year end_year ''day'')
      = concat (map (\<lambda>y. concat (map (\<lambda>m. map (\<lambda>d. UtcDaysFromEpoch y m d) [1..days_in_month y m]) [1..12]))
          [start_year..end_year])"
    by (simp add: range_dates_def map_concat comp_def)
  also have "\<dots> = concat (map (\<lambda>y. [?U y..?U (y + 1) - 1]) [start_year..end_year])"
    using assms(1) year_days by (intro arg_cong [of _ _ concat] map_cong) simp_all
  also have "\<dots> = [?U start_year..?U (end_year + 1) - 1]"
    using mono assms(2) by (intro concat_ranges) simp_all
  finally show ?thesis .
qed

theorem day_boundaries_consecutive_witness:
  "map (\<lambda>(y, m, d). UtcDaysFromEpoch y m d) (range_dates 2024 2025 ''day'')
    = [UtcDaysFromEpoch 2024 1 1..UtcDaysFromEpoch 2026 1 1 - 1]"
  using day_boundaries_consecutive [of 2024 2025] by simp


section \<open>A schema that was initialised validates\<close>

lemma db_bind_True:
  "db_bind m f s = (Inr b, s') \<longleftrightarrow> (\<exists>a s1. m s = (Inr a, s1) \<and> f a s1 = (Inr b, s'))"
  by (auto simp: db_bind_def split: prod.splits sum.splits)

lemma db_bind_unit_Inl: "db_bind m (\<lambda>_. db_return ()) s = (Inl e, s') \<longleftrightarrow> m s = (Inl e, s')"
  by (auto simp: db_bind_def db_return_def split: prod.splits sum.splits)

lemma db_try_Inr:
  "db_try m h s = (Inr b, s') \<longleftrightarrow> m s = (Inr b, s') \<or> (\<exists>e s1. m s = (Inl e, s1) \<and> h e s1 = (Inr b, s'))"
  by (auto simp: db_try_def split: prod.splits sum.splits)

text \<open>
  The documented behaviour of the server the code relies on, over two observations of its state:
  queries answer truthfully and change nothing, a successful creation creates, \<open>already\<close> and
  \<open>registered\<close> errors mean that the stream table is there, and no script removes a table.
\<close>
definition server_laws ::
  "('v, 's) run \<Rightarrow> 'v db_values \<Rightarrow> ('s \<Rightarrow> string \<Rightarrow> TableSpec \<Rightarrow> bool) \<Rightarrow> ('s \<Rightarrow> TableSpec \<Rightarrow> bool) \<Rightarrow> bool" where
  "server_laws run V has_table has_stream \<longleftrightarrow>
     (\<forall>q s db t. has_table s db t \<longrightarrow> has_table (snd (run q s)) db t)
   \<and> (\<forall>q s t. has_stream s t \<longrightarrow> has_stream (snd (run q s)) t)
   \<and> (\<forall>db t s. \<exists>v. run (exists_table_script db t) s = (Inr v, s) \<and> get_bool V v = Inr (has_table s db t))
   \<and> (\<forall>db t s v s'. run (create_table_script db t) s = (Inr v, s') \<longrightarrow> has_table s' db t)
   \<and> (\<forall>t s v s'. run (exists_stream_script t) s = (Inr v, s') \<longrightarrow> get_bool V v = Inr True \<longrightarrow> has_stream s' t)
   \<and> (\<forall>t s v s'. run (create_stream_script t) s = (Inr v, s') \<longrightarrow> has_stream s' t)
   \<and> (\<forall>t s err s'. run (create_stream_script t) s = (Inl err, s') \<longrightarrow>
        contains ''already'' err \<or> contains ''registered'' err \<longrightarrow> has_stream s' t)
   \<and> (\<forall>t s. \<exists>v n. run (count_stream_script t) s = (Inr v, s) \<and> get_int V v = Inr n \<and> (n \<noteq> 0 \<longleftrightarrow> has_stream s t))
   \<and> (\<forall>t s. \<exists>v. run (count_subscriptions_script t) s = (Inr v, s))"

lemma server_lawsD:
  assumes "server_laws run V ht hs"
  shows "\<forall>q s db t. ht s db t \<longrightarrow> ht (snd (run q s)) db t"
    "\<forall>q s t. hs s t \<longrightarrow> hs (snd (run q s)) t"
    "\<forall>db t s. \<exists>v. run (exists_table_script db t) s = (Inr v, s) \<and> get_bool V v = Inr (ht s db t)"
    "\<forall>db t s v s'. run (create_table_script db t) s = (Inr v, s') \<longrightarrow> ht s' db t"
    "\<forall>t s v s'. run (exists_stream_script t) s = (Inr v, s') \<longrightarrow> get_bool V v = Inr True \<longrightarrow> hs s' t"
    "\<forall>t s v s'. run (create_stream_script t) s = (Inr v, s') \<longrightarrow> hs s' t"
    "\<forall>t s err s'. run (create_stream_script t) s = (Inl err, s') \<longrightarrow>
        contains ''already'' err \<or> contains ''registered'' err \<longrightarrow> hs s' t"
    "\<forall>t s. \<exists>v n. run (count_stream_script t) s = (Inr v, s) \<and> get_int V v = Inr n \<and> (n \<noteq> 0 \<longleftrightarrow> hs s t)"
    "\<forall>t s. \<exists>v. run (count_subscriptions_script t) s = (Inr v, s)"
  by (insert assms [unfolded server_laws_def], (elim conjE, assumption)+)

text \<open>An observation no script removes survives every piece of code that talks to the server.\<close>
definition keeps :: "('s \<Rightarrow> bool) \<Rightarrow> ('a, 's) db \<Rightarrow> bool" where
  "keeps P m \<longleftrightarrow> (\<forall>s. P s \<longrightarrow> P (snd (m s)))"

lemma keeps_combinators:
  "keeps P (db_return a)" "keeps P (db_lift r)"
  "keeps P m \<Longrightarrow> (\<And>a. keeps P (f a)) \<Longrightarrow> keeps P (db_bind m f)"
  "keeps P m \<Longrightarrow> (\<And>e. keeps P (h e)) \<Longrightarrow> keeps P (db_try m h)"
  by (auto simp: keeps_def db_return_def db_lift_def db_bind_def db_try_def split: prod.splits sum.splits)

lemma keeps_snd: "keeps P m \<Longrightarrow> m s = (r, s') \<Longrightarrow> P s \<Longrightarrow> P s'"
  by (auto simp: keeps_def dest: spec [of _ s])

lemma keeps_each: "(\<And>x. keeps P (f x)) \<Longrightarrow> keeps P (db_each f xs)"
  by (induction xs) (simp_all add: keeps_combinators)

lemma keeps_steps:
  assumes "\<And>q. keeps P (run q)"
  shows "keeps P (create_database_if_missing run V a b cfg)" "keeps P (create_table_if_missing run V db t)"
    "keeps P (create_stream_if_missing run V t)" "keeps P (subscribe_if_missing run V cfg t)"
  using assms
  by (auto simp: create_database_if_missing_def TryExtendPartitionRange_def create_table_if_missing_def
      create_stream_if_missing_def subscribe_if_missing_def Let_def intro!: keeps_combinators)


lemma each_establishes:
  assumes "\<And>x s s'. f x s = (Inr (), s') \<Longrightarrow> Q x s'" "\<And>x y. keeps (Q y) (f x)" "db_each f xs s = (Inr (), s')"
  shows "\<forall>x\<in>set xs. Q x s'"
  using assms(3)
proof (induction xs arbitrary: s)
  case (Cons x xs)
  then obtain s1 where s1: "f x s = (Inr (), s1)" "db_each f xs s1 = (Inr (), s')"
    by (auto simp: db_bind_True)
  have "Q x s'" using assms(1) [OF s1(1)] keeps_each [of "Q x" f xs, OF assms(2)] s1(2)
    by (auto simp: keeps_def)
  then show ?case using Cons.IH [OF s1(2)] by simp
qed simp

lemma validate_ok:
  assumes "server_laws run V ht hs" "\<forall>t\<in>set ts. ht s db t \<and> hs s t"
  shows "validate_tables run V db ts s = (Inr True, s)"
  using assms(2)
proof (induction ts)
  case (Cons t ts)
  obtain v n v' v'' where "run (count_stream_script t) s = (Inr v, s)" "get_int V v = Inr n" "n \<noteq> 0 \<longleftrightarrow> hs s t"
    "run (exists_table_script db t) s = (Inr v', s)" "get_bool V v' = Inr (ht s db t)"
    "run (count_subscriptions_script t) s = (Inr v'', s)"
    using server_lawsD(8,3,9) [OF assms(1)] by metis
  then show ?case
    using Cons by (simp add: validate_table_def db_bind_def db_return_def db_lift_def)
qed (simp add: db_return_def)

text \<open>
  Initialisation establishes what validation checks. On a server with its documented behaviour,
  whenever \<open>InitSchema\<close> reports success, all three partitioned tables and all three stream tables
  exist, and \<open>ValidateSchema\<close> run directly afterwards reports success.
\<close>
lemma InitSchema_validates:
  assumes "server_laws run V has_table has_stream" "InitSchema run V year cfg s = (Inr True, s')"
  shows "(\<forall>t\<in>set specs. has_table s' (sch_dfs_db_path cfg) t \<and> has_stream s' t)
    \<and> ValidateSchema run V (sch_dfs_db_path cfg) s' = (Inr True, s')"
proof -
  note laws = server_lawsD [OF assms(1)]
  let ?db = "sch_dfs_db_path cfg"
  have kt: "keeps (\<lambda>s. has_table s ?db t) (run q)" and ks: "keeps (\<lambda>s. has_stream s t) (run q)" for t q
    using laws(1,2) unfolding keeps_def by simp_all
  obtain s1 s2 s3 where steps: "create_database_if_missing run V (year - kPartitionYearBack) (year + kPartitionYearForward) cfg s
        = (Inr (), s1)" "db_each (create_table_if_missing run V ?db) specs s1 = (Inr (), s2)"
      "db_each (create_stream_if_missing run V) specs s2 = (Inr (), s3)"
      "db_each (subscribe_if_missing run V cfg) specs s3 = (Inr (), s')"
    using assms(2)
    by (auto simp: InitSchema_def Let_def db_try_Inr db_bind_True db_return_def split: if_splits)
  have "has_table s2 ?db t" if "t \<in> set specs" for t
  proof -
    have "\<And>x s s'. create_table_if_missing run V ?db x s = (Inr (), s') \<Longrightarrow> has_table s' ?db x"
      using laws(3,4) by (auto simp: create_table_if_missing_def db_bind_True db_lift_def db_return_def split: if_splits)
        (metis Inr_inject Pair_inject)
    then show ?thesis
      using each_establishes [of "create_table_if_missing run V ?db" "\<lambda>t s. has_table s ?db t", OF _ keeps_steps(2) [where run = run, OF kt] steps(2)] that
      by simp
  qed
  then have t: "has_table s' ?db t" if "t \<in> set specs" for t
    using that keeps_snd [OF keeps_each [of "\<lambda>s. has_table s ?db t" "create_stream_if_missing run V" specs,
            OF keeps_steps(3) [where run = run, OF kt]] steps(3)]
      keeps_snd [OF keeps_each [of "\<lambda>s. has_table s ?db t" "subscribe_if_missing run V cfg" specs,
            OF keeps_steps(4) [where run = run, OF kt]] steps(4)] by simp
  have "has_stream s3 t" if "t \<in> set specs" for t
  proof -
    have "\<And>x s s'. create_stream_if_missing run V x s = (Inr (), s') \<Longrightarrow> has_stream s' x"
      using laws(5,6,7)
      by (auto simp: create_stream_if_missing_def db_bind_True db_bind_unit_Inl db_try_Inr db_lift_def Let_def
          split: if_splits sum.splits) (auto simp: db_return_def)
    then show ?thesis
      using each_establishes [of "create_stream_if_missing run V" "\<lambda>t s. has_stream s t", OF _ keeps_steps(3) [where run = run, OF ks] steps(3)] that
      by simp
  qed
  then have st: "has_stream s' t" if "t \<in> set specs" for t
    using that keeps_snd [OF keeps_each [of "\<lambda>s. has_stream s t" "subscribe_if_missing run V cfg" specs,
            OF keeps_steps(4) [where run = run, OF ks]] steps(4)] by simp
  then show ?thesis
    using t validate_ok [OF assms(1), of specs s' ?db] by (simp add: ValidateSchema_def db_try_def)
qed


text \<open>A small server: whether the partitioned and the stream tables have been created.\<close>
definition sample_run :: "(bool, bool \<times> bool) run" where
  "sample_run q s =
     (let starts = (\<lambda>p. take (length p) q = p) in
      if starts ''existsTable('' then (Inr (fst s), s)
      else if starts ''db = database('' then (Inr True, (True, snd s))
      else if starts ''exists('' then (Inr (snd s), s)
      else if starts ''share '' then (Inr True, (fst s, True))
      else if starts ''exec count(*) from objs'' then (Inr (snd s), s)
      else (Inr False, s))"

definition sample_values :: "bool db_values" where
  "sample_values = \<lparr>get_bool = Inr, get_int = (\<lambda>b. Inr (if b then 1 else 0)), get_member_string = (\<lambda>_ _. Inr ''VALUE'')\<rparr>"

definition sample_schema :: schema_config where
  "sample_schema = \<lparr>sch_dfs_db_path = ''dfs://trade_db'', sch_hash_buckets = 20, sch_partition_granularity = ''day'',
     sch_mtw_batch_size = 20000, sch_mtw_throttle_text = ''1''\<rparr>"

lemma sample_run_scripts:
  "sample_run (exists_table_script db t) s = (Inr (fst s), s)"
  "sample_run (create_table_script db t) s = (Inr True, (True, snd s))"
  "sample_run (exists_stream_script t) s = (Inr (snd s), s)"
  "sample_run (create_stream_script t) s = (Inr True, (fst s, True))"
  "sample_run (count_stream_script t) s = (Inr (snd s), s)"
  "sample_run (count_subscriptions_script t) s = (Inr False, s)"
  "sample_run (subscribe_script cfg t) s = (Inr False, s)"
  "sample_run (exists_database_script db) s = (Inr False, s)"
  "sample_run (create_database_script db r b) s = (Inr False, s)"
  by (simp_all add: sample_run_def exists_table_script_def create_table_script_def exists_stream_script_def
      create_stream_script_def count_stream_script_def count_subscriptions_script_def subscribe_script_def
      exists_database_script_def create_database_script_def Let_def)

lemma sample_laws: "server_laws sample_run sample_values (\<lambda>s _ _. fst s) (\<lambda>s _. snd s)"
  by (auto simp: server_laws_def sample_run_scripts sample_values_def) (auto simp: sample_run_def Let_def)

lemma sample_InitSchema: "InitSchema sample_run sample_values 2026 sample_schema (False, False) = (Inr True, (True, True))"
  by (simp add: InitSchema_def create_database_if_missing_def create_table_if_missing_def create_stream_if_missing_def
      subscribe_if_missing_def sample_run_scripts sample_values_def specs_def db_bind_def db_return_def db_lift_def
      db_try_def Let_def sample_schema_def path_char_ok_def)

end
