(* ===== verification/Dolphindb_Client.thy ===== *)
theory Dolphindb_Client
  imports Config Channel_Registry Dolphindb_Schema
begin

text \<open>
  The database client (\<open>src/storage/client/dolphindb_client.cpp\<close>): its connection life cycle and the
  three insert operations that turn events into table rows. The database API is a parameter: what
  \<open>connect\<close>, \<open>login\<close>, \<open>run\<close>, \<open>close\<close>, the construction of the table writers and each \<open>insert\<close>
  answer is the environment of a call. A thrown exception that the code turns into a plain failure is
  that failure. Rows a writer accepted are kept in the order of acceptance. The password is a plain
  string; that its buffer is wiped is not modelled.
\<close>

section \<open>Rows and state\<close>

record trade_table_row =
  tr_exchange_timestamp :: u64
  tr_local_diff :: u64
  tr_trade_id :: u64
  tr_price :: double
  tr_quantity :: double
  tr_direction :: int
  tr_is_buyer_maker :: bool
  tr_symbol :: string
  tr_exchange :: string
  tr_market_type :: string
  tr_trade_date :: int

record orderbook_table_row =
  or_exchange_timestamp :: u64
  or_local_diff :: u64
  or_symbol :: string
  or_exchange :: string
  or_market_type :: string
  or_trade_date :: int
  or_bid_prices :: "double list"
  or_bid_sizes :: "double list"
  or_ask_prices :: "double list"
  or_ask_sizes :: "double list"

record bookticker_table_row =
  bo_exchange_timestamp :: u64
  bo_local_diff :: u64
  bo_best_bid_price :: double
  bo_best_bid_qty :: double
  bo_best_ask_price :: double
  bo_best_ask_qty :: double
  bo_symbol :: string
  bo_exchange :: string
  bo_market_type :: string
  bo_trade_date :: int

text \<open>
  \<open>dbc_conn\<close> and the writers say whether the pointers are set; the last three row lists are the rows
  handed to the writers so far; \<open>dbc_dates\<close> is the cache of \<open>IsValidTradeDate\<close>, and \<open>dbc_server\<close> the
  state of the database server that scripts run against.
\<close>
record 's DolphinDBClient =
  dbc_host :: string
  dbc_port :: u16
  dbc_user :: string
  dbc_password :: string
  dbc_connected :: bool
  dbc_last_health_check_ns :: int
  dbc_conn :: bool
  dbc_registry :: StorageChannelRegistry
  dbc_trades_writer :: bool
  dbc_ob_writer :: bool
  dbc_bt_writer :: bool
  dbc_dates :: date_cache
  dbc_trades :: "trade_table_row list"
  dbc_orderbooks :: "orderbook_table_row list"
  dbc_booktickers :: "bookticker_table_row list"
  dbc_server :: 's

definition DolphinDBClient_new :: "'s \<Rightarrow> 's DolphinDBClient" where
  "DolphinDBClient_new server = \<lparr>dbc_host = [], dbc_port = 0, dbc_user = [], dbc_password = [], dbc_connected = False,
     dbc_last_health_check_ns = 0, dbc_conn = True, dbc_registry = StorageChannelRegistry_new,
     dbc_trades_writer = False, dbc_ob_writer = False, dbc_bt_writer = False, dbc_dates = date_cache_init,
     dbc_trades = [], dbc_orderbooks = [], dbc_booktickers = [], dbc_server = server\<rparr>"

text \<open>
  \<open>cl_connect\<close>: \<open>None\<close> when \<open>connect\<close> throws. \<open>cl_close\<close>: whether \<open>close\<close> returns. \<open>cl_run\<close>, \<open>cl_values\<close>:
  running a script and reading its result. \<open>cl_insert i\<close>: whether the \<open>i\<close>-th insert of the call is
  accepted. \<open>cl_now_ns\<close>, \<open>cl_later_ns\<close>: the first and the second reading of the steady clock in the
  call. \<open>cl_throttle_text\<close>: the throttle of the configuration as \<open>fmt\<close> prints it.
\<close>
record ('v, 's) client_env =
  cl_config :: DolphinDBConfig
  cl_throttle_text :: string
  cl_connect :: "bool option"
  cl_login :: bool
  cl_close :: bool
  cl_run :: "('v, 's) run"
  cl_values :: "'v db_values"
  cl_writers :: bool
  cl_insert :: "nat \<Rightarrow> bool"
  cl_year :: int
  cl_now_ns :: int
  cl_later_ns :: int
  cl_now_s :: int

section \<open>Connection\<close>

definition DestroyWriters :: "'s DolphinDBClient \<Rightarrow> 's DolphinDBClient" where
  "DestroyWriters c = c\<lparr>dbc_trades_writer := False, dbc_ob_writer := False, dbc_bt_writer := False\<rparr>"

definition InitWriters :: "('v, 's) client_env \<Rightarrow> 's DolphinDBClient \<Rightarrow> bool \<times> 's DolphinDBClient" where
  "InitWriters env c =
     (if cl_writers env
      then (True, c\<lparr>dbc_trades_writer := True, dbc_ob_writer := True, dbc_bt_writer := True\<rparr>)
      else (False, DestroyWriters c))"

definition schema_config_of :: "('v, 's) client_env \<Rightarrow> schema_config" where
  "schema_config_of env =
     \<lparr>sch_dfs_db_path = dc_dfs_db_path (cl_config env), sch_hash_buckets = dc_hash_buckets (cl_config env),
      sch_partition_granularity = dc_partition_granularity (cl_config env),
      sch_mtw_batch_size = dc_mtw_batch_size (cl_config env), sch_mtw_throttle_text = cl_throttle_text env\<rparr>"

text \<open>\<open>None\<close> where the code would let an exception of the schema component through.\<close>
definition client_InitSchema :: "('v, 's) client_env \<Rightarrow> 's DolphinDBClient \<Rightarrow> bool option \<times> 's DolphinDBClient" where
  "client_InitSchema env c =
     (if \<not> dbc_conn c then (Some False, c)
      else case InitSchema (cl_run env) (cl_values env) (cl_year env) (schema_config_of env) (dbc_server c) of
        (Inr b, s) \<Rightarrow> (Some b, c\<lparr>dbc_server := s\<rparr>)
      | (Inl _, s) \<Rightarrow> (None, c\<lparr>dbc_server := s\<rparr>))"

text \<open>\<open>conn_->close(); conn_.reset();\<close> inside a \<open>try\<close>: a throwing \<open>close\<close> skips the \<open>reset\<close>.\<close>
definition close_and_reset :: "('v, 's) client_env \<Rightarrow> 's DolphinDBClient \<Rightarrow> 's DolphinDBClient" where
  "close_and_reset env c = (if cl_close env then c\<lparr>dbc_conn := False\<rparr> else c)"

text \<open>The part of \<open>Connect\<close> and \<open>Reconnect\<close> behind a successful \<open>connect\<close> and \<open>login\<close>.\<close>
definition finish_connect :: "('v, 's) client_env \<Rightarrow> 's DolphinDBClient \<Rightarrow> bool \<times> 's DolphinDBClient" where
  "finish_connect env c =
     (let c1 = c\<lparr>dbc_last_health_check_ns := cl_now_ns env\<rparr>;
          (schema, c2) = (if dc_auto_init_schema (cl_config env) then client_InitSchema env c1 else (Some True, c1))
      in case schema of
           None \<Rightarrow> (False, c2)
         | Some False \<Rightarrow> (False, close_and_reset env c2)
         | Some True \<Rightarrow>
             (case InitWriters env c2 of
                (False, c3) \<Rightarrow> (False, close_and_reset env c3)
              | (True, c3) \<Rightarrow> (True, c3\<lparr>dbc_connected := True\<rparr>)))"

definition Connect :: "('v, 's) client_env \<Rightarrow> string \<Rightarrow> u16 \<Rightarrow> string \<Rightarrow> string \<Rightarrow> 's DolphinDBClient \<Rightarrow> bool \<times> 's DolphinDBClient" where
  "Connect env host port user password c =
     (let c1 = c\<lparr>dbc_host := host, dbc_port := port, dbc_user := user, dbc_password := password\<rparr>
      in if cl_connect env \<noteq> Some True then (False, c1)
         else if \<not> cl_login env then (False, c1)
         else finish_connect env c1)"

definition Disconnect :: "'s DolphinDBClient \<Rightarrow> 's DolphinDBClient" where
  "Disconnect c =
     (let c1 = DestroyWriters c
      in if \<not> dbc_conn c1 then c1 else c1\<lparr>dbc_conn := False, dbc_connected := False\<rparr>)"

definition Reconnect :: "('v, 's) client_env \<Rightarrow> 's DolphinDBClient \<Rightarrow> bool \<times> 's DolphinDBClient" where
  "Reconnect env c =
     (let c1 = (DestroyWriters c)\<lparr>dbc_connected := False, dbc_conn := True\<rparr>
      in if cl_connect env \<noteq> Some True then (False, c1)
         else if \<not> cl_login env then (False, c1)
         else finish_connect env c1)"

definition IsHealthy :: "('v, 's) client_env \<Rightarrow> 's DolphinDBClient \<Rightarrow> bool \<times> 's DolphinDBClient" where
  "IsHealthy env c =
     (if \<not> dbc_connected c then (False, c)
      else if dc_health_check_interval_ms (cl_config env) = 0 then (True, c)
      else
        let elapsed_ms = (word_of_int ((cl_now_ns env - dbc_last_health_check_ns c) sdiv 1000000) :: u64)
        in if elapsed_ms < ucast (dc_health_check_interval_ms (cl_config env)) then (True, c)
           else case cl_run env ''1+1'' (dbc_server c) of (r, s) \<Rightarrow>
             (case bind_res r (get_int (cl_values env)) of
                Inr n \<Rightarrow> if n = 2 then (True, c\<lparr>dbc_server := s, dbc_last_health_check_ns := cl_later_ns env\<rparr>)
                         else (False, c\<lparr>dbc_server := s, dbc_connected := False\<rparr>)
              | Inl _ \<Rightarrow> (False, c\<lparr>dbc_server := s, dbc_connected := False\<rparr>)))"

definition client_ValidateSchema :: "('v, 's) client_env \<Rightarrow> 's DolphinDBClient \<Rightarrow> (string + bool) \<times> 's DolphinDBClient" where
  "client_ValidateSchema env c =
     (if \<not> dbc_connected c \<or> \<not> dbc_conn c then (Inr False, c)
      else case ValidateSchema (cl_run env) (cl_values env) (dc_dfs_db_path (cl_config env)) (dbc_server c) of
        (r, s) \<Rightarrow> (r, c\<lparr>dbc_server := s\<rparr>))"

section \<open>Inserts\<close>

text \<open>Exchange, market type and symbol of a row: empty and the event's own buffer when unregistered.\<close>
definition resolve :: "'s DolphinDBClient \<Rightarrow> u32 \<Rightarrow> char_array \<Rightarrow> string \<times> string \<times> string" where
  "resolve c channel_id own_symbol =
     (case Find (dbc_registry c) channel_id of
        Some meta \<Rightarrow> (cm_exchange meta, cm_market_type meta, cm_symbol meta)
      | None \<Rightarrow> ([], [], c_str own_symbol))"

definition trade_table_row_of :: "'s DolphinDBClient \<Rightarrow> TickData \<Rightarrow> trade_table_row" where
  "trade_table_row_of c t =
     (case resolve c (tick_channel_id t) (tick_symbol t) of (exchange, market_type, symbol) \<Rightarrow>
        \<lparr>tr_exchange_timestamp = tick_exchange_timestamp t, tr_local_diff = tick_local_diff t,
         tr_trade_id = tick_trade_id t, tr_price = tick_price t, tr_quantity = tick_quantity t,
         tr_direction = (if tick_is_buyer_maker t then -1 else 1), tr_is_buyer_maker = tick_is_buyer_maker t,
         tr_symbol = symbol, tr_exchange = exchange, tr_market_type = market_type,
         tr_trade_date = UsecToDateInt (tick_exchange_timestamp t)\<rparr>)"

text \<open>The loop over the batch; \<open>i\<close> counts the inserts of the call.\<close>
fun insert_trades :: "('v, 's) client_env \<Rightarrow> nat \<Rightarrow> TickData list \<Rightarrow> 's DolphinDBClient \<Rightarrow> bool \<times> 's DolphinDBClient" where
  "insert_trades env i [] c = (True, c)"
| "insert_trades env i (t # ts) c =
     (case IsValidTradeDate (cl_now_s env) (UsecToDateInt (tick_exchange_timestamp t)) (dbc_dates c) of
        (False, dates) \<Rightarrow> (False, c\<lparr>dbc_dates := dates\<rparr>)
      | (True, dates) \<Rightarrow>
          if cl_insert env i
          then insert_trades env (Suc i) ts (c\<lparr>dbc_dates := dates, dbc_trades := dbc_trades c @ [trade_table_row_of c t]\<rparr>)
          else (False, c\<lparr>dbc_dates := dates\<rparr>))"

definition TableInsertTrades :: "('v, 's) client_env \<Rightarrow> TickData list \<Rightarrow> 's DolphinDBClient \<Rightarrow> bool \<times> 's DolphinDBClient" where
  "TableInsertTrades env batch c =
     (if \<not> dbc_connected c \<or> \<not> dbc_trades_writer c then (False, c)
      else if batch = [] then (True, c)
      else case insert_trades env 0 batch c of
        (False, c') \<Rightarrow> (False, c')
      | (True, c') \<Rightarrow> (True, c'\<lparr>dbc_last_health_check_ns := cl_now_ns env\<rparr>))"

definition orderbook_depth :: "'s DolphinDBClient \<Rightarrow> u32 \<Rightarrow> nat" where
  "orderbook_depth c channel_id =
     (case Find (dbc_registry c) channel_id of
        Some meta \<Rightarrow> if cm_depth_level meta > 0 then min (unat (cm_depth_level meta)) kMaxOrderbookLevels
                    else kMaxOrderbookLevels
      | None \<Rightarrow> kMaxOrderbookLevels)"

definition side_column :: "(PriceLevel \<Rightarrow> double) \<Rightarrow> PriceLevel list \<Rightarrow> nat \<Rightarrow> nat \<Rightarrow> double list" where
  "side_column sel levels count depth = map (\<lambda>i. if i < count then sel (levels ! i) else d_zero) [0..<depth]"

definition orderbook_table_row_of :: "'s DolphinDBClient \<Rightarrow> DepthUpdateEvent \<Rightarrow> u64 \<Rightarrow> orderbook_table_row" where
  "orderbook_table_row_of c e local_ts =
     (let depth = orderbook_depth c (dep_channel_id e)
      in case resolve c (dep_channel_id e) (dep_symbol e) of (exchange, market_type, symbol) \<Rightarrow>
        \<lparr>or_exchange_timestamp = dep_exchange_timestamp e, or_local_diff = local_ts, or_symbol = symbol,
         or_exchange = exchange, or_market_type = market_type,
         or_trade_date = UsecToDateInt (dep_exchange_timestamp e),
         or_bid_prices = side_column lvl_price (dep_bids e) (dep_bid_count e) depth,
         or_bid_sizes = side_column lvl_quantity (dep_bids e) (dep_bid_count e) depth,
         or_ask_prices = side_column lvl_price (dep_asks e) (dep_ask_count e) depth,
         or_ask_sizes = side_column lvl_quantity (dep_asks e) (dep_ask_count e) depth\<rparr>)"

definition TableInsertOrderbook :: "('v, 's) client_env \<Rightarrow> DepthUpdateEvent \<Rightarrow> u64 \<Rightarrow> 's DolphinDBClient \<Rightarrow> bool \<times> 's DolphinDBClient" where
  "TableInsertOrderbook env e local_ts c =
     (if \<not> dbc_connected c \<or> \<not> dbc_ob_writer c then (False, c)
      else case IsValidTradeDate (cl_now_s env) (UsecToDateInt (dep_exchange_timestamp e)) (dbc_dates c) of
        (False, dates) \<Rightarrow> (False, c\<lparr>dbc_dates := dates\<rparr>)
      | (True, dates) \<Rightarrow>
          if cl_insert env 0
          then (True, c\<lparr>dbc_dates := dates, dbc_orderbooks := dbc_orderbooks c @ [orderbook_table_row_of c e local_ts],
                  dbc_last_health_check_ns := cl_now_ns env\<rparr>)
          else (False, c\<lparr>dbc_dates := dates\<rparr>))"

definition bookticker_table_row_of :: "'s DolphinDBClient \<Rightarrow> BookTickerEvent \<Rightarrow> bookticker_table_row" where
  "bookticker_table_row_of c e =
     (case resolve c (bt_channel_id e) (bt_symbol e) of (exchange, market_type, symbol) \<Rightarrow>
        \<lparr>bo_exchange_timestamp = bt_exchange_timestamp e, bo_local_diff = bt_local_diff e,
         bo_best_bid_price = bt_best_bid_price e, bo_best_bid_qty = bt_best_bid_qty e,
         bo_best_ask_price = bt_best_ask_price e, bo_best_ask_qty = bt_best_ask_qty e,
         bo_symbol = symbol, bo_exchange = exchange, bo_market_type = market_type,
         bo_trade_date = UsecToDateInt (bt_exchange_timestamp e)\<rparr>)"

definition TableInsertBookTicker :: "('v, 's) client_env \<Rightarrow> BookTickerEvent \<Rightarrow> 's DolphinDBClient \<Rightarrow> bool \<times> 's DolphinDBClient" where
  "TableInsertBookTicker env e c =
     (if \<not> dbc_connected c \<or> \<not> dbc_bt_writer c then (False, c)
      else case IsValidTradeDate (cl_now_s env) (UsecToDateInt (bt_exchange_timestamp e)) (dbc_dates c) of
        (False, dates) \<Rightarrow> (False, c\<lparr>dbc_dates := dates\<rparr>)
      | (True, dates) \<Rightarrow>
          if cl_insert env 0
          then (True, c\<lparr>dbc_dates := dates, dbc_booktickers := dbc_booktickers c @ [bookticker_table_row_of c e],
                  dbc_last_health_check_ns := cl_now_ns env\<rparr>)
          else (False, c\<lparr>dbc_dates := dates\<rparr>))"

definition client_RegisterChannel ::
  "bool \<Rightarrow> u32 \<Rightarrow> string \<Rightarrow> string \<Rightarrow> string \<Rightarrow> u32 \<Rightarrow> 's DolphinDBClient \<Rightarrow> 's DolphinDBClient option" where
  "client_RegisterChannel ndebug channel_id exchange market_type symbol depth_level c =
     map_option (\<lambda>r. c\<lparr>dbc_registry := r\<rparr>)
       (StorageChannelRegistry_Register ndebug channel_id exchange market_type symbol depth_level (dbc_registry c))"

definition client_FreezeChannels :: "'s DolphinDBClient \<Rightarrow> 's DolphinDBClient" where
  "client_FreezeChannels c = c\<lparr>dbc_registry := Freeze (dbc_registry c)\<rparr>"

section \<open>Connection invariant\<close>

text \<open>A client that reports itself connected has a connection and all three writers.\<close>
definition client_inv :: "'s DolphinDBClient \<Rightarrow> bool" where
  "client_inv c \<longleftrightarrow>
     (dbc_connected c \<longrightarrow> dbc_conn c \<and> dbc_trades_writer c \<and> dbc_ob_writer c \<and> dbc_bt_writer c)"

inductive client_step :: "('v, 's) client_env \<Rightarrow> 's DolphinDBClient \<Rightarrow> 's DolphinDBClient \<Rightarrow> bool" for env where
  step_Reconnect: "client_step env c (snd (Reconnect env c))"
| step_Disconnect: "client_step env c (Disconnect c)"
| step_IsHealthy: "client_step env c (snd (IsHealthy env c))"
| step_ValidateSchema: "client_step env c (snd (client_ValidateSchema env c))"
| step_Trades: "client_step env c (snd (TableInsertTrades env batch c))"
| step_Orderbook: "client_step env c (snd (TableInsertOrderbook env e ts c))"
| step_BookTicker: "client_step env c (snd (TableInsertBookTicker env bt c))"
| step_Register: "client_RegisterChannel nd i x m s d c = Some c' \<Longrightarrow> client_step env c c'"
| step_Freeze: "client_step env c (client_FreezeChannels c)"

text \<open>A client after its initial \<open>Connect\<close> and any sequence of operations, each in its own environment.\<close>
inductive client_reach :: "('v, 's) client_env list \<Rightarrow> 's DolphinDBClient \<Rightarrow> bool" where
  reach_Connect: "client_reach [env] (snd (Connect env host port user password (DolphinDBClient_new server)))"
| reach_step: "client_reach envs c \<Longrightarrow> client_step env c c' \<Longrightarrow> client_reach (env # envs) c'"

lemma client_InitSchema_frame:
  "client_InitSchema env c = (r, c') \<Longrightarrow> dbc_connected c' = dbc_connected c \<and> dbc_conn c' = dbc_conn c"
  by (auto simp: client_InitSchema_def split: if_splits prod.splits sum.splits)

lemma finish_connect_inv:
  assumes "\<not> dbc_connected c" "dbc_conn c"
  shows "client_inv (snd (finish_connect env c))"
proof -
  obtain r c2 where i: "(if dc_auto_init_schema (cl_config env)
      then client_InitSchema env (c\<lparr>dbc_last_health_check_ns := cl_now_ns env\<rparr>)
      else (Some True, c\<lparr>dbc_last_health_check_ns := cl_now_ns env\<rparr>)) = (r, c2)" by fastforce
  then have "dbc_connected c2 = dbc_connected c" "dbc_conn c2 = dbc_conn c"
    by (auto split: if_splits dest: client_InitSchema_frame)
  then show ?thesis
    using assms i by (auto simp: finish_connect_def InitWriters_def DestroyWriters_def close_and_reset_def
        client_inv_def Let_def split: option.splits bool.splits)
qed

lemma insert_trades_frame:
  "insert_trades env i ts c = (r, c') \<Longrightarrow> dbc_connected c' = dbc_connected c \<and> dbc_conn c' = dbc_conn c
     \<and> dbc_trades_writer c' = dbc_trades_writer c \<and> dbc_ob_writer c' = dbc_ob_writer c
     \<and> dbc_bt_writer c' = dbc_bt_writer c \<and> dbc_registry c' = dbc_registry c"
  by (induction ts arbitrary: i c) (auto split: prod.splits bool.splits if_splits)

lemma client_step_inv: "client_step env c c' \<Longrightarrow> client_inv c \<Longrightarrow> client_inv c'"
proof (induction rule: client_step.induct)
  case (step_Reconnect c)
  then show ?case
    using finish_connect_inv [of "(DestroyWriters c)\<lparr>dbc_connected := False, dbc_conn := True\<rparr>" env]
    by (auto simp: Reconnect_def Let_def client_inv_def)
next
  case (step_Trades c batch)
  then show ?case
    using insert_trades_frame [of env 0 batch c]
    by (cases "insert_trades env 0 batch c")
      (auto simp: TableInsertTrades_def client_inv_def split: bool.splits)
next
  case (step_IsHealthy c)
  then show ?case by (auto simp: IsHealthy_def client_inv_def Let_def split: prod.splits sum.splits)
qed (auto simp: Disconnect_def DestroyWriters_def TableInsertOrderbook_def TableInsertBookTicker_def
    client_ValidateSchema_def client_RegisterChannel_def client_FreezeChannels_def client_inv_def Let_def
    split: prod.splits bool.splits)

text \<open>
  C33: In every reachable state of the client, after its first connection attempt and any sequence of
  reconnects, disconnects, health checks and inserts, whatever the database answers: a client that
  reports itself connected has a live connection object and all three table writers, so no insert
  and no health check dereferences a missing one.
\<close>
theorem connected_client_has_writers:
  assumes "client_reach envs c" "dbc_connected c"
  shows "dbc_conn c \<and> dbc_trades_writer c \<and> dbc_ob_writer c \<and> dbc_bt_writer c"
proof -
  have "client_inv c"
    using assms(1)
  proof (induction rule: client_reach.induct)
    case (reach_Connect env host port user password server)
    then show ?case
      using finish_connect_inv [of "(DolphinDBClient_new server)
          \<lparr>dbc_host := host, dbc_port := port, dbc_user := user, dbc_password := password\<rparr>" env]
      by (auto simp: Connect_def Let_def client_inv_def DolphinDBClient_new_def)
  qed (rule client_step_inv)
  then show ?thesis using assms(2) by (simp add: client_inv_def)
qed

definition env_fine :: "(bool, bool \<times> bool) client_env" where
  "env_fine = \<lparr>cl_config = default_dolphindb, cl_throttle_text = ''1'', cl_connect = Some True, cl_login = True,
     cl_close = True, cl_run = sample_run, cl_values = sample_values, cl_writers = True, cl_insert = (\<lambda>_. True),
     cl_year = 2026, cl_now_ns = 5, cl_later_ns = 6, cl_now_s = 1700000000\<rparr>"

lemma env_fine_sel [simp]:
  "cl_connect env_fine = Some True" "cl_login env_fine" "cl_close env_fine" "cl_run env_fine = sample_run"
  "cl_values env_fine = sample_values" "cl_writers env_fine" "cl_insert env_fine i" "cl_year env_fine = 2026"
  "cl_now_ns env_fine = 5" "cl_now_s env_fine = 1700000000" "dc_auto_init_schema (cl_config env_fine)"
  "schema_config_of env_fine = sample_schema"
  by (simp_all add: schema_config_of_def env_fine_def default_dolphindb_def sample_schema_def)

lemma env_fine_Connect:
  "Connect env_fine ''h'' 8848 ''u'' ''p'' (DolphinDBClient_new (False, False)) =
     (True, (DolphinDBClient_new (True, True))\<lparr>dbc_host := ''h'', dbc_port := 8848, dbc_user := ''u'', dbc_password := ''p'',
        dbc_connected := True, dbc_last_health_check_ns := 5, dbc_trades_writer := True, dbc_ob_writer := True,
        dbc_bt_writer := True\<rparr>)"
  by (simp add: Connect_def finish_connect_def client_InitSchema_def InitWriters_def DolphinDBClient_new_def Let_def
      sample_InitSchema)

theorem connected_client_has_writers_witness:
  "let c = snd (Connect env_fine ''h'' 8848 ''u'' ''p'' (DolphinDBClient_new (False, False)))
   in dbc_connected c \<and> dbc_conn c \<and> dbc_trades_writer c \<and> dbc_ob_writer c \<and> dbc_bt_writer c"
  using connected_client_has_writers [OF reach_Connect [of env_fine "''h''" 8848 "''u''" "''p''" "(False, False)"]]
  by (simp add: env_fine_Connect)



section \<open>Rows\<close>

text \<open>
  An orderbook row has, for a registered channel, that channel's identity and exactly its
  configured number of levels (at most 100): column \<open>i\<close> holds level \<open>i\<close> of the snapshot while there is
  one and zero behind, on both sides; the call reports success exactly when the row was accepted.
\<close>
theorem orderbook_row_exact:
  assumes "Find (dbc_registry c) (dep_channel_id e) = Some meta" "cm_depth_level meta > 0"
    "TableInsertOrderbook env e lat c = (ok, c')"
  shows "(if ok then \<exists>row. dbc_orderbooks c' = dbc_orderbooks c @ [row]
      \<and> or_symbol row = cm_symbol meta \<and> or_exchange row = cm_exchange meta \<and> or_market_type row = cm_market_type meta
      \<and> length (or_bid_prices row) = min (unat (cm_depth_level meta)) 100
      \<and> length (or_ask_sizes row) = min (unat (cm_depth_level meta)) 100
      \<and> (\<forall>i < min (unat (cm_depth_level meta)) 100.
           or_bid_prices row ! i = (if i < dep_bid_count e then lvl_price (dep_bids e ! i) else d_zero)
         \<and> or_bid_sizes row ! i = (if i < dep_bid_count e then lvl_quantity (dep_bids e ! i) else d_zero)
         \<and> or_ask_prices row ! i = (if i < dep_ask_count e then lvl_price (dep_asks e ! i) else d_zero)
         \<and> or_ask_sizes row ! i = (if i < dep_ask_count e then lvl_quantity (dep_asks e ! i) else d_zero))
    else dbc_orderbooks c' = dbc_orderbooks c)"
  using assms
  by (auto simp: TableInsertOrderbook_def orderbook_table_row_of_def resolve_def orderbook_depth_def side_column_def
      kMaxOrderbookLevels_def Let_def split: if_splits prod.splits bool.splits)

definition sample_meta :: ChannelMeta where
  "sample_meta = \<lparr>cm_exchange = ''binance'', cm_market_type = ''spot'', cm_symbol = ''BTCUSDT'', cm_depth_level = 5\<rparr>"

definition sample_client :: "(bool \<times> bool) DolphinDBClient" where
  "sample_client = (DolphinDBClient_new (True, True))\<lparr>dbc_connected := True, dbc_ob_writer := True,
     dbc_registry := \<lparr>scr_channels = [7 \<mapsto> sample_meta], scr_frozen = True\<rparr>\<rparr>"

definition sample_book :: DepthUpdateEvent where
  "sample_book = depth_zero\<lparr>dep_channel_id := 7, dep_exchange_timestamp := 1700000000000000, dep_bid_count := 1\<rparr>"

theorem orderbook_row_exact_witness:
  "\<exists>row. dbc_orderbooks (snd (TableInsertOrderbook env_fine sample_book 9 sample_client)) = [row] \<and> or_exchange row = ''binance'' \<and> length (or_bid_prices row) = 5"
proof -
  have "fst (IsValidTradeDate 1700000000 (UsecToDateInt 1700000000000000) date_cache_init)" by code_simp
  then obtain dc where v: "IsValidTradeDate 1700000000 (UsecToDateInt 1700000000000000) date_cache_init = (True, dc)"
    by (cases "IsValidTradeDate 1700000000 (UsecToDateInt 1700000000000000) date_cache_init") simp
  have s: "dbc_connected sample_client" "dbc_ob_writer sample_client" "dbc_dates sample_client = date_cache_init"
    "dbc_orderbooks sample_client = []"
    by (simp_all add: sample_client_def DolphinDBClient_new_def)
  obtain c' where c': "TableInsertOrderbook env_fine sample_book 9 sample_client = (True, c')"
    by (simp add: TableInsertOrderbook_def s v sample_book_def)
  have f: "Find (dbc_registry sample_client) (dep_channel_id sample_book) = Some sample_meta" "0 < cm_depth_level sample_meta"
    by (simp_all add: sample_client_def sample_meta_def sample_book_def Find_def)
  show ?thesis
    using orderbook_row_exact [OF f c']
    by (auto simp: c' s sample_meta_def)
qed

end
