(* ===== verification/Csv_Writer.thy ===== *)
theory Csv_Writer
  imports Events Timestamps
begin

text \<open>
  The CSV engine (\<open>src/storage/engine/csv_writer.cpp\<close>): one writer per channel with three daily files.
  The disk maps file names to texts; a stream opened for appending writes at the end of its file.
  Output buffered in a stream counts as written. Which \<open>open\<close> calls succeed is the environment of a
  call, \<open>mkdir\<close> is the file system parameter of \<open>EnsureDirExists\<close>, and the decimal text of a
  double (the \<open>fmt\<close> library) is the parameter \<open>fmt_double\<close>.
\<close>

section \<open>Definitions\<close>

type_synonym text_disk = "string \<rightharpoonup> string"

text \<open>The streams are the names of the open files.\<close>
record CsvWriter =
  cw_dir :: string
  cw_trade_file :: "string option"
  cw_orderbook_file :: "string option"
  cw_bookticker_file :: "string option"
  cw_current_date :: string
  cw_current_date_day :: u64
  cw_depth_level :: nat
  cw_header_written :: bool

definition CsvWriter_new :: CsvWriter where
  "CsvWriter_new = \<lparr>cw_dir = [], cw_trade_file = None, cw_orderbook_file = None, cw_bookticker_file = None,
     cw_current_date = [], cw_current_date_day = -1, cw_depth_level = 0, cw_header_written = False\<rparr>"

definition CsvWriter_Open ::
  "(string \<Rightarrow> mkdir_result) \<Rightarrow> string \<Rightarrow> string \<Rightarrow> string \<Rightarrow> string \<Rightarrow> CsvWriter \<Rightarrow> bool \<times> CsvWriter" where
  "CsvWriter_Open mkdir trade_root exchange ctype symbol w =
     (let w1 = w\<lparr>cw_dir := EnsureTrailingSlash trade_root @ exchange @ ''/'' @ ctype @ ''/'' @ symbol @ ''/''\<rparr>
      in if \<not> fst (EnsureDirExists (\<lambda>p u. (mkdir p, u)) (cw_dir w1) ()) then (False, w1)
         else (True, w1\<lparr>cw_current_date_day := -1\<rparr>))"

definition CsvWriter_Close :: "CsvWriter \<Rightarrow> CsvWriter" where
  "CsvWriter_Close w = w\<lparr>cw_trade_file := None, cw_orderbook_file := None, cw_bookticker_file := None,
     cw_header_written := False, cw_depth_level := 0\<rparr>"

text \<open>Opening for append creates the file; its end position is the length of its text.\<close>
definition touch :: "string \<Rightarrow> text_disk \<Rightarrow> text_disk" where
  "touch path d = (case d path of None \<Rightarrow> d(path \<mapsto> []) | Some _ \<Rightarrow> d)"

definition tellp :: "string \<Rightarrow> text_disk \<Rightarrow> nat" where
  "tellp path d = (case d path of None \<Rightarrow> 0 | Some t \<Rightarrow> length t)"

definition put :: "string \<Rightarrow> string \<Rightarrow> text_disk \<Rightarrow> text_disk" where
  "put path t d = d(path \<mapsto> (case d path of None \<Rightarrow> [] | Some old \<Rightarrow> old) @ t)"

definition newline :: string where
  "newline = [CHR 0x0A]"

definition trade_header :: string where
  "trade_header = ''exchange_timestamp,local_diff,price,quantity,direction'' @ newline"

definition bookticker_header :: string where
  "bookticker_header =
     ''exchange_timestamp,local_diff,symbol,best_bid_price,best_bid_qty,best_ask_price,best_ask_qty'' @ newline"

definition trade_path :: "string \<Rightarrow> string \<Rightarrow> string" where
  "trade_path dir date = dir @ ''trades_'' @ date @ ''.csv''"

definition orderbook_path :: "string \<Rightarrow> string \<Rightarrow> string" where
  "orderbook_path dir date = dir @ ''orderbook_'' @ date @ ''.csv''"

definition bookticker_path :: "string \<Rightarrow> string \<Rightarrow> string" where
  "bookticker_path dir date = dir @ ''bookticker_'' @ date @ ''.csv''"

text \<open>The clamp of the timestamp at the start of \<open>RotateIfNeeded\<close>.\<close>
definition rotate_ts :: "u64 \<Rightarrow> u64" where
  "rotate_ts exchange_ts = (if exchange_ts = 0 then 1 else exchange_ts)"

definition RotateIfNeeded :: "(string \<Rightarrow> bool) \<Rightarrow> u64 \<Rightarrow> CsvWriter \<Rightarrow> text_disk \<Rightarrow> bool \<times> CsvWriter \<times> text_disk" where
  "RotateIfNeeded opens exchange_ts w d =
     (let ts = rotate_ts exchange_ts;
          day = ts div kUsecsPerDay
      in if day = cw_current_date_day w \<and> cw_trade_file w \<noteq> None then (True, w, d)
         else
           let w1 = (CsvWriter_Close w)\<lparr>cw_current_date := TimestampToDate ts, cw_current_date_day := day\<rparr>;
               tp = trade_path (cw_dir w1) (cw_current_date w1);
               op = orderbook_path (cw_dir w1) (cw_current_date w1);
               bp = bookticker_path (cw_dir w1) (cw_current_date w1)
           in if \<not> opens tp then (False, w1, d)
              else
                let d1 = touch tp d;
                    d2 = (if tellp tp d1 = 0 then put tp trade_header d1 else d1);
                    w2 = w1\<lparr>cw_trade_file := Some tp\<rparr>
                in if \<not> opens op then (False, w2\<lparr>cw_trade_file := None\<rparr>, d2)
                   else
                     let d3 = touch op d2;
                         w3 = w2\<lparr>cw_orderbook_file := Some op,
                                cw_header_written := (if tellp op d3 = 0 then False else cw_header_written w2)\<rparr>
                     in if \<not> opens bp
                        then (False, w3\<lparr>cw_trade_file := None, cw_orderbook_file := None\<rparr>, d3)
                        else
                          let d4 = touch bp d3;
                              d5 = (if tellp bp d4 = 0 then put bp bookticker_header d4 else d4)
                          in (True, w3\<lparr>cw_bookticker_file := Some bp\<rparr>, d5))"

definition trade_row :: "(double \<Rightarrow> string) \<Rightarrow> TickData \<Rightarrow> string" where
  "trade_row fmt_double t =
     dec (unat (tick_exchange_timestamp t)) @ '','' @ dec (unat (tick_local_diff t)) @ '',''
     @ fmt_double (tick_price t) @ '','' @ fmt_double (tick_quantity t) @ '',''
     @ (if tick_is_buyer_maker t then ''-1'' else ''1'') @ newline"

definition AppendTick ::
  "(double \<Rightarrow> string) \<Rightarrow> (string \<Rightarrow> bool) \<Rightarrow> TickData \<Rightarrow> CsvWriter \<Rightarrow> text_disk \<Rightarrow> CsvWriter \<times> text_disk" where
  "AppendTick fmt_double opens tick w d =
     (case RotateIfNeeded opens (tick_exchange_timestamp tick) w d of
        (False, w', d') \<Rightarrow> (w', d')
      | (True, w', d') \<Rightarrow>
          (case cw_trade_file w' of
             None \<Rightarrow> (w', d')
           | Some p \<Rightarrow> (w', put p (trade_row fmt_double tick) d')))"

definition level_columns :: "nat \<Rightarrow> string" where
  "level_columns i = '',ask_price'' @ dec (i + 1) @ '',ask_size'' @ dec (i + 1)
     @ '',bid_price'' @ dec (i + 1) @ '',bid_size'' @ dec (i + 1)"

definition orderbook_header :: "nat \<Rightarrow> string" where
  "orderbook_header depth = ''exchange_timestamp,local_diff'' @ concat (map level_columns [0..<depth]) @ newline"

definition level_cell :: "(double \<Rightarrow> string) \<Rightarrow> DepthUpdateEvent \<Rightarrow> nat \<Rightarrow> string" where
  "level_cell fmt_double e i =
     '','' @ fmt_double (if i < dep_ask_count e then lvl_price (dep_asks e ! i) else d_zero)
     @ '','' @ fmt_double (if i < dep_ask_count e then lvl_quantity (dep_asks e ! i) else d_zero)
     @ '','' @ fmt_double (if i < dep_bid_count e then lvl_price (dep_bids e ! i) else d_zero)
     @ '','' @ fmt_double (if i < dep_bid_count e then lvl_quantity (dep_bids e ! i) else d_zero)"

definition orderbook_row :: "(double \<Rightarrow> string) \<Rightarrow> DepthUpdateEvent \<Rightarrow> u64 \<Rightarrow> nat \<Rightarrow> string" where
  "orderbook_row fmt_double e local_ts depth =
     dec (unat (dep_exchange_timestamp e)) @ '','' @ dec (unat local_ts)
     @ concat (map (level_cell fmt_double e) [0..<depth]) @ newline"

definition AppendOrderbook ::
  "(double \<Rightarrow> string) \<Rightarrow> (string \<Rightarrow> bool) \<Rightarrow> DepthUpdateEvent \<Rightarrow> u64 \<Rightarrow> u32 \<Rightarrow> CsvWriter \<Rightarrow> text_disk
     \<Rightarrow> CsvWriter \<times> text_disk" where
  "AppendOrderbook fmt_double opens event local_ts depth_level w d =
     (case RotateIfNeeded opens (dep_exchange_timestamp event) w d of
        (False, w', d') \<Rightarrow> (w', d')
      | (True, w', d') \<Rightarrow>
          (case cw_orderbook_file w' of
             None \<Rightarrow> (w', d')
           | Some p \<Rightarrow>
               let (w1, d1) =
                     (if cw_header_written w' then (w', d')
                      else (w'\<lparr>cw_depth_level := unat depth_level, cw_header_written := True\<rparr>,
                            put p (orderbook_header (unat depth_level)) d'))
               in (w1, put p (orderbook_row fmt_double event local_ts (cw_depth_level w1)) d1)))"

text \<open>\<open>{}\<close> of the symbol buffer prints its C string.\<close>
definition bookticker_row :: "(double \<Rightarrow> string) \<Rightarrow> BookTickerEvent \<Rightarrow> string" where
  "bookticker_row fmt_double e =
     dec (unat (bt_exchange_timestamp e)) @ '','' @ dec (unat (bt_local_diff e)) @ '','' @ c_str (bt_symbol e)
     @ '','' @ fmt_double (bt_best_bid_price e) @ '','' @ fmt_double (bt_best_bid_qty e)
     @ '','' @ fmt_double (bt_best_ask_price e) @ '','' @ fmt_double (bt_best_ask_qty e) @ newline"

definition AppendBookTicker ::
  "(double \<Rightarrow> string) \<Rightarrow> (string \<Rightarrow> bool) \<Rightarrow> BookTickerEvent \<Rightarrow> CsvWriter \<Rightarrow> text_disk \<Rightarrow> CsvWriter \<times> text_disk" where
  "AppendBookTicker fmt_double opens event w d =
     (case RotateIfNeeded opens (bt_exchange_timestamp event) w d of
        (False, w', d') \<Rightarrow> (w', d')
      | (True, w', d') \<Rightarrow>
          (case cw_bookticker_file w' of
             None \<Rightarrow> (w', d')
           | Some p \<Rightarrow> (w', put p (bookticker_row fmt_double event) d')))"

section \<open>Trade files\<close>

lemma path_distinct [simp]:
  "trade_path dir a \<noteq> orderbook_path dir b" "trade_path dir a \<noteq> bookticker_path dir b"
  "orderbook_path dir a \<noteq> trade_path dir b" "orderbook_path dir a \<noteq> bookticker_path dir b"
  "bookticker_path dir a \<noteq> trade_path dir b" "bookticker_path dir a \<noteq> orderbook_path dir b"
  by (simp_all add: trade_path_def orderbook_path_def bookticker_path_def)

lemma trade_path_inj [simp]: "trade_path dir a = trade_path dir b \<longleftrightarrow> a = b"
  by (simp add: trade_path_def)

lemma touch_other [simp]: "p \<noteq> q \<Longrightarrow> touch p d q = d q"
  by (simp add: touch_def split: option.splits)

lemma put_other [simp]: "p \<noteq> q \<Longrightarrow> put p t d q = d q"
  by (simp add: put_def)

lemma orderbook_path_inj [simp]: "orderbook_path dir a = orderbook_path dir b \<longleftrightarrow> a = b"
  by (simp add: orderbook_path_def)

text \<open>A file with a header line, opened for append.\<close>
definition with_header :: "string \<Rightarrow> string \<Rightarrow> text_disk \<Rightarrow> text_disk" where
  "with_header p h d = (if tellp p (touch p d) = 0 then put p h (touch p d) else touch p d)"

lemma with_header_other [simp]: "p \<noteq> q \<Longrightarrow> with_header p h d q = d q"
  by (simp add: with_header_def)

lemma with_header_same: "with_header p h d p = (case d p of None \<Rightarrow> Some h | Some [] \<Rightarrow> Some h | Some x \<Rightarrow> Some x)"
  by (auto simp: with_header_def tellp_def touch_def put_def split: option.splits list.splits)

lemma RotateIfNeeded_stays:
  "rotate_ts ts div kUsecsPerDay = cw_current_date_day w \<Longrightarrow> cw_trade_file w \<noteq> None \<Longrightarrow>
   RotateIfNeeded opens ts w d = (True, w, d)"
  by (simp add: RotateIfNeeded_def Let_def)

text \<open>A rotation on a disk on which files can be opened.\<close>
lemma RotateIfNeeded_rotates:
  assumes "\<forall>p. opens p" "rotate_ts ts div kUsecsPerDay \<noteq> cw_current_date_day w \<or> cw_trade_file w = None"
  shows "RotateIfNeeded opens ts w d =
    (let date = TimestampToDate (rotate_ts ts) in
     (True,
      w\<lparr>cw_trade_file := Some (trade_path (cw_dir w) date), cw_orderbook_file := Some (orderbook_path (cw_dir w) date),
        cw_bookticker_file := Some (bookticker_path (cw_dir w) date), cw_current_date := date,
        cw_current_date_day := rotate_ts ts div kUsecsPerDay, cw_header_written := False, cw_depth_level := 0\<rparr>,
      with_header (bookticker_path (cw_dir w) date) bookticker_header
        (touch (orderbook_path (cw_dir w) date) (with_header (trade_path (cw_dir w) date) trade_header d))))"
  using assms by (auto simp: RotateIfNeeded_def Let_def CsvWriter_Close_def with_header_def)

text \<open>What the trade file of a date holds after the ticks of \<open>ts\<close>.\<close>
definition trade_text :: "(double \<Rightarrow> string) \<Rightarrow> TickData list \<Rightarrow> string \<Rightarrow> string option" where
  "trade_text fmt_double ticks date =
     (let day_ticks = filter (\<lambda>t. TimestampToDate (rotate_ts (tick_exchange_timestamp t)) = date) ticks
      in if day_ticks = [] then None else Some (trade_header @ concat (map (trade_row fmt_double) day_ticks)))"

lemma trade_text_snoc:
  "trade_text fd (ts @ [t]) date =
     (if TimestampToDate (rotate_ts (tick_exchange_timestamp t)) = date
      then Some ((case trade_text fd ts date of None \<Rightarrow> trade_header | Some x \<Rightarrow> x) @ trade_row fd t)
      else trade_text fd ts date)"
  by (auto simp: trade_text_def Let_def)

text \<open>
  The writer between two ticks: its trade stream is open exactly on the file of its current day,
  and that day has a header already.
\<close>
definition csv_inv :: "CsvWriter \<Rightarrow> bool" where
  "csv_inv w \<longleftrightarrow> (\<forall>p. cw_trade_file w = Some p \<longrightarrow>
     (\<exists>ts \<le> kMaxValidUsec. cw_current_date_day w = ts div kUsecsPerDay
        \<and> p = trade_path (cw_dir w) (TimestampToDate ts)))"

lemma rotate_ts_le: "ts \<le> kMaxValidUsec \<Longrightarrow> rotate_ts ts \<le> kMaxValidUsec"
  by (simp add: rotate_ts_def kMaxValidUsec_def word_le_def)

lemma trade_header_not_Nil [simp]: "trade_header \<noteq> []"
  by (simp add: trade_header_def)

lemma RotateIfNeeded_ok:
  assumes "csv_inv w" "\<forall>p. opens p" "ts \<le> kMaxValidUsec" "RotateIfNeeded opens ts w d = (r, w', d')"
    "\<And>p. cw_trade_file w = Some p \<Longrightarrow> d p \<noteq> None \<and> d p \<noteq> Some []"
  shows "r \<and> csv_inv w' \<and> cw_dir w' = cw_dir w
    \<and> cw_trade_file w' = Some (trade_path (cw_dir w) (TimestampToDate (rotate_ts ts)))
    \<and> d' (trade_path (cw_dir w) (TimestampToDate (rotate_ts ts)))
        = (case d (trade_path (cw_dir w) (TimestampToDate (rotate_ts ts))) of
             None \<Rightarrow> Some trade_header | Some [] \<Rightarrow> Some trade_header | Some x \<Rightarrow> Some x)
    \<and> (\<forall>date. date \<noteq> TimestampToDate (rotate_ts ts) \<longrightarrow> d' (trade_path (cw_dir w) date) = d (trade_path (cw_dir w) date))"
proof (cases "rotate_ts ts div kUsecsPerDay = cw_current_date_day w \<and> cw_trade_file w \<noteq> None")
  case True
  then obtain p ts' where p: "cw_trade_file w = Some p" "ts' \<le> kMaxValidUsec"
    "rotate_ts ts div kUsecsPerDay = ts' div kUsecsPerDay" "p = trade_path (cw_dir w) (TimestampToDate ts')"
    using assms(1) by (auto simp: csv_inv_def)
  have same: "TimestampToDate (rotate_ts ts) = TimestampToDate ts'"
    using p(3) by (simp add: TimestampToDate_def)
  obtain x where "d p = Some x" "x \<noteq> []" using assms(5) [OF p(1)] by auto
  then show ?thesis
    using assms(1,4) True p(1,4) same RotateIfNeeded_stays [of ts w opens d] by (auto split: list.splits)
next
  case False
  have "csv_inv w'" if "cw_trade_file w' = Some (trade_path (cw_dir w') (TimestampToDate (rotate_ts ts)))"
    "cw_current_date_day w' = rotate_ts ts div kUsecsPerDay"
    using that rotate_ts_le [OF assms(3)] by (auto simp: csv_inv_def)
  then show ?thesis
    using assms(4) RotateIfNeeded_rotates [OF assms(2), of ts w d] False
    by (auto simp: Let_def with_header_same)
qed

fun append_ticks ::
  "(double \<Rightarrow> string) \<Rightarrow> (string \<Rightarrow> bool) \<Rightarrow> TickData list \<Rightarrow> CsvWriter \<Rightarrow> text_disk \<Rightarrow> CsvWriter \<times> text_disk" where
  "append_ticks fd opens [] w d = (w, d)"
| "append_ticks fd opens (t # ts) w d = (case AppendTick fd opens t w d of (w', d') \<Rightarrow> append_ticks fd opens ts w' d')"

lemma trade_text_not_Nil: "trade_text fd ts date \<noteq> Some []"
  by (simp add: trade_text_def Let_def)

lemma AppendTick_text:
  assumes "csv_inv w" "\<forall>p. opens p" "tick_exchange_timestamp t \<le> kMaxValidUsec"
    "\<forall>date. d (trade_path (cw_dir w) date) = trade_text fd done date"
    "\<And>p. cw_trade_file w = Some p \<Longrightarrow> d p \<noteq> None" "AppendTick fd opens t w d = (w', d')"
  shows "csv_inv w' \<and> cw_dir w' = cw_dir w \<and> (\<forall>date. d' (trade_path (cw_dir w) date) = trade_text fd (done @ [t]) date)
    \<and> (\<forall>p. cw_trade_file w' = Some p \<longrightarrow> d' p \<noteq> None)"
proof -
  let ?date = "TimestampToDate (rotate_ts (tick_exchange_timestamp t))"
  let ?p = "trade_path (cw_dir w) ?date"
  obtain r w1 d1 where rot: "RotateIfNeeded opens (tick_exchange_timestamp t) w d = (r, w1, d1)"
    by (metis prod_cases3)
  have ne: "d p \<noteq> None \<and> d p \<noteq> Some []" if tf: "cw_trade_file w = Some p" for p
  proof -
    obtain date where "p = trade_path (cw_dir w) date" using assms(1) tf by (auto simp: csv_inv_def)
    then show ?thesis using assms(4) assms(5) [OF tf] trade_text_not_Nil [of fd "done" date] by simp
  qed
  note k = RotateIfNeeded_ok [OF assms(1,2,3) rot ne]
  have "d1 ?p = Some (case trade_text fd done ?date of None \<Rightarrow> trade_header | Some x \<Rightarrow> x)"
    using k assms(4) trade_text_not_Nil [of fd "done" ?date] by (auto split: option.splits list.splits)
  moreover have "w' = w1" "d' = put ?p (trade_row fd t) d1"
    using k rot assms(6) by (auto simp: AppendTick_def)
  ultimately show ?thesis
    using k assms(4) by (auto simp: trade_text_snoc put_def)
qed

lemma append_ticks_text:
  assumes "csv_inv w" "\<forall>p. opens p" "\<forall>t\<in>set ts. tick_exchange_timestamp t \<le> kMaxValidUsec"
    "\<forall>date. d (trade_path (cw_dir w) date) = trade_text fd done date"
    "\<forall>p. cw_trade_file w = Some p \<longrightarrow> d p \<noteq> None" "append_ticks fd opens ts w d = (w', d')"
  shows "cw_dir w' = cw_dir w \<and> (\<forall>date. d' (trade_path (cw_dir w) date) = trade_text fd (done @ ts) date)"
  using assms(1,3-)
proof (induction ts arbitrary: w d "done")
  case (Cons t ts)
  obtain w1 d1 where a: "AppendTick fd opens t w d = (w1, d1)" by (cases "AppendTick fd opens t w d")
  note k = AppendTick_text [OF Cons.prems(1) assms(2) _ Cons.prems(3) _ a]
  show ?case using Cons.IH [of w1 d1 "done @ [t]"] k Cons.prems a by simp
qed simp

text \<open>
  C31: The trade files are exact. Starting from an opened writer and no trade files, after any
  sequence of ticks, also out of order in time, the trade file of each date holds the header line
  once and then one row per tick of that date in the order of arrival; dates without ticks have
  no file. For timestamps the validation accepts and a disk on which files can be opened.
\<close>
theorem csv_trades_exact:
  assumes "CsvWriter_Open mkdir root exchange ctype symbol CsvWriter_new = (True, w)" "\<forall>p. opens p"
    "\<forall>t\<in>set ticks. tick_exchange_timestamp t \<le> kMaxValidUsec"
    "\<forall>date. d (trade_path (cw_dir w) date) = None" "append_ticks fd opens ticks w d = (w', d')"
  shows "d' (trade_path (cw_dir w) date) =
    (let day_ticks = filter (\<lambda>t. TimestampToDate (rotate_ts (tick_exchange_timestamp t)) = date) ticks
     in if day_ticks = [] then None else Some (trade_header @ concat (map (trade_row fd) day_ticks)))"
proof -
  have w: "cw_trade_file w = None" "csv_inv w"
    using assms(1)
    by (auto simp: CsvWriter_Open_def CsvWriter_new_def Let_def csv_inv_def split: if_splits)
  have "\<forall>date. d (trade_path (cw_dir w) date) = trade_text fd [] date"
    using assms(4) by (simp add: trade_text_def)
  then show ?thesis
    using append_ticks_text [OF w(2) assms(2,3) _ _ assms(5), of "[]"] w(1) by (simp add: trade_text_def)
qed

definition sample_tick :: "u64 \<Rightarrow> TickData" where
  "sample_tick ts = tick_zero\<lparr>tick_exchange_timestamp := ts, tick_trade_id := 5\<rparr>"

definition opened_writer :: CsvWriter where
  "opened_writer = CsvWriter_new\<lparr>cw_dir := ''./binance/spot/BTCUSDT/''\<rparr>"

lemma opened_writer_Open:
  "CsvWriter_Open (\<lambda>_. MkdirOk) ''.'' ''binance'' ''spot'' ''BTCUSDT'' CsvWriter_new = (True, opened_writer)"
  by (simp add: CsvWriter_Open_def EnsureTrailingSlash_def EnsureDirExists_def Let_def opened_writer_def
      CsvWriter_new_def)

theorem csv_trades_exact_witness:
  "snd (append_ticks (\<lambda>_. ''0'') (\<lambda>_. True) [sample_tick 3, sample_tick 4] opened_writer Map.empty)
      (trade_path ''./binance/spot/BTCUSDT/'' (TimestampToDate 3))
    = Some (trade_header @ ''3,0,0,0,1'' @ newline @ ''4,0,0,0,1'' @ newline)"
proof -
  let ?ts = "[sample_tick 3, sample_tick 4]"
  obtain w d where a: "append_ticks (\<lambda>_. ''0'') (\<lambda>_. True) ?ts opened_writer Map.empty = (w, d)"
    by (metis surj_pair)
  have "TimestampToDate 4 = TimestampToDate 3"
    by (subst same_date_iff_same_day) (simp_all add: kMaxValidUsec_def kUsecsPerDay_def word_le_def)
  moreover have "tick_exchange_timestamp (sample_tick n) = n" "tick_local_diff (sample_tick n) = 0"
      "tick_is_buyer_maker (sample_tick n) = False" for n
    by (simp_all add: sample_tick_def tick_zero_def)
  moreover have "dec 3 = ''3''" "dec 4 = ''4''" "dec 0 = ''0''"
    by code_simp+
  ultimately show ?thesis
    using csv_trades_exact [OF opened_writer_Open _ _ _ a, of "TimestampToDate 3"] a
    by (simp add: rotate_ts_def trade_row_def Let_def kMaxValidUsec_def word_le_def
        opened_writer_def CsvWriter_new_def)
qed


section \<open>Orderbook files\<close>

text \<open>
  One orderbook snapshot appends to the orderbook file of its date and touches no other date's
  orderbook file: just the row when the writer already has that file open and has written its
  header, and header plus row after every rotation. The rotation does not look for a header in a
  file that already has text, so a channel that returns to an earlier date (late events, a
  restart) gets a second header line in the middle of that file.
\<close>
theorem AppendOrderbook_text:
  assumes "\<forall>p. opens p" "AppendOrderbook fd opens e lat depth w d = (w', d')"
    "cw_trade_file w \<noteq> None \<longrightarrow> cw_orderbook_file w = Some (orderbook_path (cw_dir w) (cw_current_date w))"
  shows "let ts = rotate_ts (dep_exchange_timestamp e);
             rotates = (ts div kUsecsPerDay \<noteq> cw_current_date_day w \<or> cw_trade_file w = None);
             path = orderbook_path (cw_dir w) (if rotates then TimestampToDate ts else cw_current_date w);
             old = (case d path of None \<Rightarrow> [] | Some t \<Rightarrow> t)
         in d' path = Some (old @
              (if rotates \<or> \<not> cw_header_written w
               then orderbook_header (unat depth) @ orderbook_row fd e lat (unat depth)
               else orderbook_row fd e lat (cw_depth_level w)))
            \<and> (\<forall>date. orderbook_path (cw_dir w) date \<noteq> path \<longrightarrow>
                 d' (orderbook_path (cw_dir w) date) = d (orderbook_path (cw_dir w) date))"
proof (cases "rotate_ts (dep_exchange_timestamp e) div kUsecsPerDay = cw_current_date_day w \<and> cw_trade_file w \<noteq> None")
  case True
  then have "RotateIfNeeded opens (dep_exchange_timestamp e) w d = (True, w, d)"
    by (simp add: RotateIfNeeded_def Let_def)
  then show ?thesis
    using assms(2,3) True
    by (cases "cw_header_written w") (auto simp: AppendOrderbook_def Let_def put_def split: option.splits)
next
  case False
  let ?date = "TimestampToDate (rotate_ts (dep_exchange_timestamp e))"
  let ?p = "orderbook_path (cw_dir w) ?date"
  obtain w1 d1 where r: "RotateIfNeeded opens (dep_exchange_timestamp e) w d = (True, w1, d1)"
    by (metis RotateIfNeeded_rotates [OF assms(1)] False)
  then have w1: "cw_orderbook_file w1 = Some ?p" "\<not> cw_header_written w1"
    and d1: "d1 ?p = touch ?p d ?p" "\<forall>q. q \<noteq> ?date \<longrightarrow> d1 (orderbook_path (cw_dir w) q) = d (orderbook_path (cw_dir w) q)"
    using RotateIfNeeded_rotates [OF assms(1), of "dep_exchange_timestamp e" w d] False
    by (auto simp: Let_def touch_def split: option.splits)
  have "d' = put ?p (orderbook_row fd e lat (unat depth)) (put ?p (orderbook_header (unat depth)) d1)"
    using assms(2) r w1 by (auto simp: AppendOrderbook_def Let_def)
  then have "d' ?p = Some ((case d ?p of None \<Rightarrow> [] | Some t \<Rightarrow> t) @ orderbook_header (unat depth)
        @ orderbook_row fd e lat (unat depth))"
    "\<forall>q. q \<noteq> ?date \<longrightarrow> d' (orderbook_path (cw_dir w) q) = d (orderbook_path (cw_dir w) q)"
    using d1 by (auto simp: put_def touch_def split: option.splits)
  then show ?thesis using False by (auto simp: Let_def)
qed

text \<open>An orderbook file with text, and a writer that is on the day before: a second header.\<close>

theorem AppendOrderbook_text_witness:
  "snd (AppendOrderbook (\<lambda>_. ''0'') (\<lambda>_. True) (depth_zero\<lparr>dep_exchange_timestamp := 7\<rparr>) 9 0
       (CsvWriter_new\<lparr>cw_dir := ''x/''\<rparr>) [orderbook_path ''x/'' (TimestampToDate 7) \<mapsto> ''old''])
     (orderbook_path ''x/'' (TimestampToDate 7))
   = Some (''old'' @ orderbook_header 0 @ orderbook_row (\<lambda>_. ''0'') (depth_zero\<lparr>dep_exchange_timestamp := 7\<rparr>) 9 0)"
proof -
  let ?e = "depth_zero\<lparr>dep_exchange_timestamp := 7\<rparr>" and ?w = "CsvWriter_new\<lparr>cw_dir := ''x/''\<rparr>"
  let ?d = "[orderbook_path ''x/'' (TimestampToDate 7) \<mapsto> ''old'']"
  obtain w' d' where a: "AppendOrderbook (\<lambda>_. ''0'') (\<lambda>_. True) ?e 9 0 ?w ?d = (w', d')" by (metis surj_pair)
  show ?thesis
    using AppendOrderbook_text [OF _ a] a
    by (simp add: CsvWriter_new_def Let_def rotate_ts_def)
qed

end
