(* ===== verification/Byte_Layout.thy ===== *)
theory Byte_Layout
  imports Events
begin

text \<open>
  The bytes of the structs the collector copies as memory: \<open>TickData\<close>, \<open>StorageTickEnvelope\<close>,
  \<open>DepthUpdateEvent\<close>, \<open>BookTickerEvent\<close>, and the two record layouts of
  \<open>src/storage/record_layout.h\<close>. The layout is that of the x86-64 ABI: little endian, every member
  aligned to its size, \<open>TickData\<close> to 64 bytes. Bytes that belong to no member are arguments, since
  \<open>memcpy\<close> copies whatever they hold. Each layout comes with a reader and the proof that reading gives
  back what was written.
\<close>

section \<open>Words and characters as bytes\<close>

definition le_bytes :: "nat \<Rightarrow> 'a::len word \<Rightarrow> u8 list" where
  "le_bytes n w = map (\<lambda>i. ucast (drop_bit (8 * i) w)) [0..<n]"

fun le_word :: "u8 list \<Rightarrow> 'a::len word" where
  "le_word [] = 0"
| "le_word (b # bs) = ucast b OR push_bit 8 (le_word bs)"

definition char_byte :: "char \<Rightarrow> u8" where
  "char_byte c = of_nat (of_char c)"

definition byte_char :: "u8 \<Rightarrow> char" where
  "byte_char b = char_of (unat b)"

definition bool_byte :: "bool \<Rightarrow> u8" where
  "bool_byte b = (if b then 1 else 0)"

lemma length_le_bytes [simp]: "length (le_bytes n w) = n"
  by (simp add: le_bytes_def)

lemma le_bytes_Suc: "le_bytes (Suc n) w = ucast w # le_bytes n (drop_bit 8 w)"
proof -
  have "[0..<Suc n] = 0 # map Suc [0..<n]" by (simp add: map_Suc_upt upt_conv_Cons)
  then show ?thesis by (simp add: le_bytes_def comp_def add.commute)
qed

lemma le_word_le_bytes_aux: "LENGTH('a) \<le> 8 * n + k \<Longrightarrow> k \<le> LENGTH('a) \<Longrightarrow>
   le_word (le_bytes n (drop_bit k (w :: 'a::len word))) = drop_bit k w"
proof (induction n arbitrary: k)
  case 0
  then have "k = LENGTH('a)" by simp
  then show ?case by (simp add: le_bytes_def)
next
  case (Suc n)
  show ?case
  proof (cases "k + 8 \<le> LENGTH('a)")
    case True
    have "le_word (le_bytes n (drop_bit (8 + k) w)) = drop_bit (8 + k) w"
      using Suc.IH [of "8 + k"] Suc.prems True by simp
    moreover have "(ucast (ucast (drop_bit k w) :: u8) :: 'a word) OR push_bit 8 (drop_bit (8 + k) w) = drop_bit k w"
    proof (rule bit_word_eqI)
      fix n assume "n < LENGTH('a)"
      moreover have "8 + k + (n - 8) = k + n" if "8 \<le> n" using that by simp
      ultimately show "bit ((ucast (ucast (drop_bit k w) :: u8) :: 'a word) OR push_bit 8 (drop_bit (8 + k) w)) n
          = bit (drop_bit k w) n"
        by (cases "8 \<le> n") (auto simp: bit_simps)
    qed
    ultimately show ?thesis by (simp add: le_bytes_Suc)
  next
    case False
    have z: "drop_bit 8 (drop_bit k w) = 0"
      using False by (simp add: drop_bit_word_beyond)
    have "le_word (le_bytes m (0 :: 'a word)) = (0 :: 'a word)" for m
      by (induction m) (simp_all add: le_bytes_Suc, simp add: le_bytes_def)
    moreover have "(ucast (ucast (drop_bit k w) :: u8) :: 'a word) = drop_bit k w"
      using False by (intro bit_word_eqI) (auto simp: bit_simps dest: bit_imp_le_length)
    ultimately show ?thesis using z by (simp add: le_bytes_Suc)
  qed
qed

lemma le_word_le_bytes [simp]: "LENGTH('a) \<le> 8 * n \<Longrightarrow> le_word (le_bytes n (w :: 'a::len word)) = w"
  using le_word_le_bytes_aux [of n 0 w] by simp

lemma byte_char_char_byte [simp]: "byte_char (char_byte c) = c"
  by (simp add: byte_char_def char_byte_def unat_of_nat take_bit_nat_eq_self_iff)

lemma bool_byte_neq_0 [simp]: "bool_byte b \<noteq> 0 \<longleftrightarrow> b"
  by (simp add: bool_byte_def)

section \<open>Structs as sequences of members\<close>

fun split_sizes :: "nat list \<Rightarrow> 'a list \<Rightarrow> 'a list list" where
  "split_sizes [] xs = []"
| "split_sizes (n # ns) xs = take n xs # split_sizes ns (drop n xs)"

lemma split_sizes_concat: "map length fs = ns \<Longrightarrow> split_sizes ns (concat fs @ rest) = fs"
  by (induction fs arbitrary: ns) auto

lemma split_sizes_concat': "map length fs = ns \<Longrightarrow> split_sizes ns (concat fs) = fs"
  using split_sizes_concat [of fs ns "[]"] by simp

definition symbol_bytes :: "char_array \<Rightarrow> u8 list" where
  "symbol_bytes s = map char_byte s"

lemma length_symbol_bytes [simp]: "length (symbol_bytes s) = length s"
  by (simp add: symbol_bytes_def)

lemma map_byte_char_symbol [simp]: "map byte_char (symbol_bytes s) = s"
  by (simp add: symbol_bytes_def comp_def)

definition level_bytes :: "PriceLevel \<Rightarrow> u8 list" where
  "level_bytes l = le_bytes 8 (lvl_price l) @ le_bytes 8 (lvl_quantity l)"

definition read_level :: "u8 list \<Rightarrow> PriceLevel" where
  "read_level bs = \<lparr>lvl_price = le_word (take 8 bs), lvl_quantity = le_word (drop 8 bs)\<rparr>"

definition levels_bytes :: "PriceLevel list \<Rightarrow> u8 list" where
  "levels_bytes ls = concat (map level_bytes ls)"

definition read_levels :: "nat \<Rightarrow> u8 list \<Rightarrow> PriceLevel list" where
  "read_levels n bs = map read_level (split_sizes (replicate n 16) bs)"

lemma length_level_bytes [simp]: "length (level_bytes l) = 16"
  by (simp add: level_bytes_def)

lemma read_level_bytes [simp]: "read_level (level_bytes l) = l"
  by (simp add: read_level_def level_bytes_def)

lemma length_levels_bytes [simp]: "length (levels_bytes ls) = 16 * length ls"
  by (induction ls) (simp_all add: levels_bytes_def)

lemma levels_sizes: "map length (map level_bytes ls) = replicate (length ls) 16"
  by (induction ls) simp_all

lemma read_levels_bytes [simp]: "length ls = n \<Longrightarrow> read_levels n (levels_bytes ls) = ls"
  using split_sizes_concat' [OF levels_sizes, of ls]
  by (simp add: read_levels_def levels_bytes_def comp_def)

section \<open>Event layouts\<close>

definition tick_fields :: "u8 list \<Rightarrow> TickData \<Rightarrow> u8 list list" where
  "tick_fields pad t = [le_bytes 8 (tick_exchange_timestamp t), le_bytes 8 (tick_local_diff t),
     le_bytes 8 (tick_trade_id t), le_bytes 8 (tick_price t), le_bytes 8 (tick_quantity t),
     le_bytes 4 (tick_channel_id t), symbol_bytes (tick_symbol t), [bool_byte (tick_is_buyer_maker t)], pad]"

text \<open>\<open>padding[3]\<close> and the four bytes up to the alignment of 64 are \<open>pad\<close>.\<close>
definition tick_bytes :: "u8 list \<Rightarrow> TickData \<Rightarrow> u8 list" where
  "tick_bytes pad t = concat (tick_fields pad t)"

definition read_tick :: "u8 list \<Rightarrow> TickData option" where
  "read_tick bs = (case split_sizes [8, 8, 8, 8, 8, 4, 12, 1, 7] bs of
     [ts, ld, tid, p, q, cid, s, m, pad] \<Rightarrow>
       Some \<lparr>tick_exchange_timestamp = le_word ts, tick_local_diff = le_word ld, tick_trade_id = le_word tid,
         tick_price = le_word p, tick_quantity = le_word q, tick_channel_id = le_word cid,
         tick_symbol = map byte_char s, tick_is_buyer_maker = (m \<noteq> [0])\<rparr>
   | _ \<Rightarrow> None)"

text \<open>\<open>p1\<close> behind the channel id and \<open>p2\<close> behind the symbol are alignment gaps of four bytes.\<close>
definition depth_fields :: "u8 list \<Rightarrow> u8 list \<Rightarrow> DepthUpdateEvent \<Rightarrow> u8 list list" where
  "depth_fields p1 p2 e = [le_bytes 8 (dep_last_update_id e), le_bytes 4 (dep_channel_id e), p1,
     le_bytes 8 (dep_exchange_timestamp e), le_bytes 8 (dep_local_diff e), symbol_bytes (dep_symbol e), p2,
     levels_bytes (dep_bids e), levels_bytes (dep_asks e),
     le_bytes 4 (of_nat (dep_bid_count e) :: u32), le_bytes 4 (of_nat (dep_ask_count e) :: u32)]"

definition depth_bytes :: "u8 list \<Rightarrow> u8 list \<Rightarrow> DepthUpdateEvent \<Rightarrow> u8 list" where
  "depth_bytes p1 p2 e = concat (depth_fields p1 p2 e)"

definition read_depth :: "u8 list \<Rightarrow> DepthUpdateEvent option" where
  "read_depth bs = (case split_sizes [8, 4, 4, 8, 8, 12, 4, 1600, 1600, 4, 4] bs of
     [u, cid, p1, ts, ld, s, p2, b, a, bc, ac] \<Rightarrow>
       Some \<lparr>dep_last_update_id = le_word u, dep_channel_id = le_word cid, dep_exchange_timestamp = le_word ts,
         dep_local_diff = le_word ld, dep_symbol = map byte_char s, dep_bids = read_levels 100 b,
         dep_asks = read_levels 100 a, dep_bid_count = unat (le_word bc :: u32),
         dep_ask_count = unat (le_word ac :: u32)\<rparr>
   | _ \<Rightarrow> None)"

definition book_ticker_fields :: "u8 list \<Rightarrow> u8 list \<Rightarrow> BookTickerEvent \<Rightarrow> u8 list list" where
  "book_ticker_fields p1 p2 e = [le_bytes 4 (bt_channel_id e), p1, le_bytes 8 (bt_exchange_timestamp e),
     le_bytes 8 (bt_local_diff e), symbol_bytes (bt_symbol e), p2,
     le_bytes 8 (bt_best_bid_price e), le_bytes 8 (bt_best_bid_qty e),
     le_bytes 8 (bt_best_ask_price e), le_bytes 8 (bt_best_ask_qty e)]"

definition book_ticker_bytes :: "u8 list \<Rightarrow> u8 list \<Rightarrow> BookTickerEvent \<Rightarrow> u8 list" where
  "book_ticker_bytes p1 p2 e = concat (book_ticker_fields p1 p2 e)"

definition read_book_ticker :: "u8 list \<Rightarrow> BookTickerEvent option" where
  "read_book_ticker bs = (case split_sizes [4, 4, 8, 8, 12, 4, 8, 8, 8, 8] bs of
     [cid, p1, ts, ld, s, p2, bp, bq, ap, aq] \<Rightarrow>
       Some \<lparr>bt_channel_id = le_word cid, bt_exchange_timestamp = le_word ts, bt_local_diff = le_word ld,
         bt_symbol = map byte_char s, bt_best_bid_price = le_word bp, bt_best_bid_qty = le_word bq,
         bt_best_ask_price = le_word ap, bt_best_ask_qty = le_word aq\<rparr>
   | _ \<Rightarrow> None)"

section \<open>Objects as the code creates them\<close>

definition tick_wf :: "TickData \<Rightarrow> bool" where
  "tick_wf t \<longleftrightarrow> length (tick_symbol t) = 12"

definition depth_wf :: "DepthUpdateEvent \<Rightarrow> bool" where
  "depth_wf e \<longleftrightarrow> length (dep_symbol e) = 12 \<and> length (dep_bids e) = 100 \<and> length (dep_asks e) = 100
     \<and> dep_bid_count e \<le> 100 \<and> dep_ask_count e \<le> 100"

definition book_ticker_wf :: "BookTickerEvent \<Rightarrow> bool" where
  "book_ticker_wf e \<longleftrightarrow> length (bt_symbol e) = 12"

lemma tick_sizes: "tick_wf t \<Longrightarrow> length pad = 7 \<Longrightarrow> map length (tick_fields pad t) = [8, 8, 8, 8, 8, 4, 12, 1, 7]"
  by (simp add: tick_fields_def tick_wf_def)

lemma depth_sizes: "depth_wf e \<Longrightarrow> length p1 = 4 \<Longrightarrow> length p2 = 4 \<Longrightarrow>
   map length (depth_fields p1 p2 e) = [8, 4, 4, 8, 8, 12, 4, 1600, 1600, 4, 4]"
  by (simp add: depth_fields_def depth_wf_def)

lemma book_ticker_sizes: "book_ticker_wf e \<Longrightarrow> length p1 = 4 \<Longrightarrow> length p2 = 4 \<Longrightarrow>
   map length (book_ticker_fields p1 p2 e) = [4, 4, 8, 8, 12, 4, 8, 8, 8, 8]"
  by (simp add: book_ticker_fields_def book_ticker_wf_def)

lemma length_tick_bytes: "tick_wf t \<Longrightarrow> length pad = 7 \<Longrightarrow> length (tick_bytes pad t) = 64"
  using tick_sizes [of t pad] by (simp add: tick_bytes_def length_concat)

lemma length_depth_bytes:
  "depth_wf e \<Longrightarrow> length p1 = 4 \<Longrightarrow> length p2 = 4 \<Longrightarrow> length (depth_bytes p1 p2 e) = 3256"
  using depth_sizes [of e p1 p2] by (simp add: depth_bytes_def length_concat)

lemma length_book_ticker_bytes:
  "book_ticker_wf e \<Longrightarrow> length p1 = 4 \<Longrightarrow> length p2 = 4 \<Longrightarrow> length (book_ticker_bytes p1 p2 e) = 72"
  using book_ticker_sizes [of e p1 p2] by (simp add: book_ticker_bytes_def length_concat)

lemma read_tick_bytes: "tick_wf t \<Longrightarrow> length pad = 7 \<Longrightarrow> read_tick (tick_bytes pad t @ rest) = Some t"
  unfolding read_tick_def tick_bytes_def
  by (subst split_sizes_concat [OF tick_sizes]) (simp_all add: tick_fields_def)

lemma read_depth_bytes:
  "depth_wf e \<Longrightarrow> length p1 = 4 \<Longrightarrow> length p2 = 4 \<Longrightarrow> read_depth (depth_bytes p1 p2 e @ rest) = Some e"
  unfolding read_depth_def depth_bytes_def
  by (subst split_sizes_concat [OF depth_sizes])
    (simp_all add: depth_fields_def depth_wf_def unat_of_nat take_bit_nat_eq_self_iff)

lemma read_book_ticker_bytes:
  "book_ticker_wf e \<Longrightarrow> length p1 = 4 \<Longrightarrow> length p2 = 4 \<Longrightarrow>
   read_book_ticker (book_ticker_bytes p1 p2 e @ rest) = Some e"
  unfolding read_book_ticker_def book_ticker_bytes_def
  by (subst split_sizes_concat [OF book_ticker_sizes]) (simp_all add: book_ticker_fields_def)

section \<open>Storage records\<close>

text \<open>\<open>StorageTickEnvelope\<close>: 72 bytes of members, rounded up to the alignment of 64; value-initialised.\<close>
definition envelope_bytes :: "StorageTickEnvelope \<Rightarrow> u8 list" where
  "envelope_bytes e = tick_bytes (replicate 7 0) (env_data e) @ le_bytes 4 (env_storage_target e)
     @ le_bytes 4 (env_recovery_status e) @ replicate 56 0"

definition read_envelope :: "u8 list \<Rightarrow> StorageTickEnvelope option" where
  "read_envelope bs = map_option (\<lambda>t. \<lparr>env_data = t, env_storage_target = le_word (take 4 (drop 64 bs)),
     env_recovery_status = le_word (take 4 (drop 68 bs))\<rparr>) (read_tick bs)"

record OrderbookRecordHeader =
  oh_exchange_timestamp :: u64
  oh_local_diff :: u64
  oh_symbol :: char_array
  oh_bid_count :: u32
  oh_ask_count :: u32

definition ob_header_fields :: "OrderbookRecordHeader \<Rightarrow> u8 list list" where
  "ob_header_fields h = [le_bytes 8 (oh_exchange_timestamp h), le_bytes 8 (oh_local_diff h),
     symbol_bytes (oh_symbol h), le_bytes 4 (oh_bid_count h), le_bytes 4 (oh_ask_count h)]"

definition ob_header_bytes :: "OrderbookRecordHeader \<Rightarrow> u8 list" where
  "ob_header_bytes h = concat (ob_header_fields h)"

definition read_ob_header :: "u8 list \<Rightarrow> OrderbookRecordHeader option" where
  "read_ob_header bs = (case split_sizes [8, 8, 32, 4, 4] bs of
     [ts, ld, s, b, a] \<Rightarrow> Some \<lparr>oh_exchange_timestamp = le_word ts, oh_local_diff = le_word ld,
       oh_symbol = map byte_char s, oh_bid_count = le_word b, oh_ask_count = le_word a\<rparr>
   | _ \<Rightarrow> None)"

record BookTickerRecord =
  br_exchange_timestamp :: u64
  br_local_diff :: u64
  br_symbol :: char_array
  br_best_bid_price :: double
  br_best_bid_qty :: double
  br_best_ask_price :: double
  br_best_ask_qty :: double

definition bt_record_fields :: "BookTickerRecord \<Rightarrow> u8 list list" where
  "bt_record_fields r = [le_bytes 8 (br_exchange_timestamp r), le_bytes 8 (br_local_diff r),
     symbol_bytes (br_symbol r), le_bytes 8 (br_best_bid_price r), le_bytes 8 (br_best_bid_qty r),
     le_bytes 8 (br_best_ask_price r), le_bytes 8 (br_best_ask_qty r)]"

definition bt_record_bytes :: "BookTickerRecord \<Rightarrow> u8 list" where
  "bt_record_bytes r = concat (bt_record_fields r)"

definition read_bt_record :: "u8 list \<Rightarrow> BookTickerRecord option" where
  "read_bt_record bs = (case split_sizes [8, 8, 32, 8, 8, 8, 8] bs of
     [ts, ld, s, bp, bq, ap, aq] \<Rightarrow> Some \<lparr>br_exchange_timestamp = le_word ts, br_local_diff = le_word ld,
       br_symbol = map byte_char s, br_best_bid_price = le_word bp, br_best_bid_qty = le_word bq,
       br_best_ask_price = le_word ap, br_best_ask_qty = le_word aq\<rparr>
   | _ \<Rightarrow> None)"

lemma length_envelope_bytes: "tick_wf (env_data e) \<Longrightarrow> length (envelope_bytes e) = 128"
  by (simp add: envelope_bytes_def length_tick_bytes)

lemma read_envelope_bytes: "tick_wf (env_data e) \<Longrightarrow> read_envelope (envelope_bytes e @ rest) = Some e"
  by (simp add: read_envelope_def envelope_bytes_def read_tick_bytes length_tick_bytes)

lemma length_ob_header_bytes: "length (oh_symbol h) = 32 \<Longrightarrow> length (ob_header_bytes h) = 56"
  by (simp add: ob_header_bytes_def ob_header_fields_def)

lemma read_ob_header_bytes:
  "length (oh_symbol h) = 32 \<Longrightarrow> read_ob_header (ob_header_bytes h @ rest) = Some h"
  unfolding read_ob_header_def ob_header_bytes_def
  by (subst split_sizes_concat) (simp_all add: ob_header_fields_def)

lemma length_bt_record_bytes: "length (br_symbol r) = 32 \<Longrightarrow> length (bt_record_bytes r) = 80"
  by (simp add: bt_record_bytes_def bt_record_fields_def)

lemma read_bt_record_bytes:
  "length (br_symbol r) = 32 \<Longrightarrow> read_bt_record (bt_record_bytes r @ rest) = Some r"
  unfolding read_bt_record_def bt_record_bytes_def
  by (subst split_sizes_concat) (simp_all add: bt_record_fields_def)

end
