(* ===== verification/Mmap_Engine.thy ===== *)
theory Mmap_Engine
  imports Byte_Layout Text_Format
begin

text \<open>
  The memory-mapped log files (\<open>src/storage/engine/mmap_engine.cpp\<close>). The disk maps file names to
  files; a shared mapping writes through to its file. The first 64 bytes of a file hold the header,
  whose two members are fields of the file; the other bytes are a function of the offset. What the
  operating system answers to \<open>mkdir\<close>, \<open>open\<close>, \<open>ftruncate\<close> and \<open>mmap\<close> during a call, and the page
  size, are the environment of that call. Offsets stay far below \<open>2 ^ 64\<close> and are naturals.
\<close>

section \<open>Definitions\<close>

definition kHeaderSize :: nat where
  "kHeaderSize = 64"

text \<open>A file with its \<open>MmapMetaHeader\<close>.\<close>
record mfile =
  mf_write_offset :: nat
  mf_file_size :: nat
  mf_bytes :: "nat \<Rightarrow> u8"
  mf_len :: nat

type_synonym disk = "string \<rightharpoonup> mfile"

record os_env =
  os_mkdir :: "string \<Rightarrow> mkdir_result"
  os_open :: "string \<Rightarrow> bool"
  os_ftruncate :: "string \<Rightarrow> bool"
  os_mmap :: "string \<Rightarrow> bool"
  os_page_size :: nat

record MmapStorageEngine =
  me_max_file_size :: nat
  me_mmap_size :: nat
  me_fd :: bool
  me_map :: "string option"
  me_offset :: nat
  me_output_path :: string
  me_file_prefix :: string
  me_file_sequence :: nat

definition kDefaultMaxFileSize :: nat where
  "kDefaultMaxFileSize = 2 * 1024 * 1024 * 1024"

definition MmapStorageEngine_new :: "nat \<Rightarrow> MmapStorageEngine" where
  "MmapStorageEngine_new max_file_size = \<lparr>me_max_file_size = max_file_size, me_mmap_size = 0, me_fd = False,
     me_map = None, me_offset = kHeaderSize, me_output_path = [], me_file_prefix = [], me_file_sequence = 0\<rparr>"

definition IsOpen :: "MmapStorageEngine \<Rightarrow> bool" where
  "IsOpen e \<longleftrightarrow> me_fd e \<and> me_map e \<noteq> None"

text \<open>\<open>snprintf\<close> into a buffer of 128 characters keeps the first 127.\<close>
definition MakeFileName :: "MmapStorageEngine \<Rightarrow> nat \<Rightarrow> string" where
  "MakeFileName e seqno =
     take 127 (c_str (me_output_path e) @ c_str (me_file_prefix e) @ ''_'' @ dec_pad 4 seqno @ ''.bin'')"

definition mfile_empty :: mfile where
  "mfile_empty = \<lparr>mf_write_offset = 0, mf_file_size = 0, mf_bytes = (\<lambda>_. 0), mf_len = 0\<rparr>"

definition file_truncate :: "nat \<Rightarrow> mfile \<Rightarrow> mfile" where
  "file_truncate n f = f\<lparr>mf_bytes := (\<lambda>i. if i < mf_len f \<and> i < n then mf_bytes f i else 0), mf_len := n\<rparr>"

definition page_round :: "nat \<Rightarrow> nat \<Rightarrow> nat" where
  "page_round page_size n = ((n + page_size - 1) div page_size) * page_size"

text \<open>
  Opening, sizing and mapping the file \<open>fname\<close> and resetting its header, as both \<open>OpenOrCreate\<close>
  and \<open>RollNewFile\<close> do. Each failure closes the descriptor.
\<close>
definition open_and_map :: "os_env \<Rightarrow> string \<Rightarrow> MmapStorageEngine \<Rightarrow> disk \<Rightarrow> bool \<times> MmapStorageEngine \<times> disk" where
  "open_and_map os fname e d =
     (if \<not> os_open os fname then (False, e\<lparr>me_fd := False\<rparr>, d)
      else
        let f = (case d fname of None \<Rightarrow> mfile_empty | Some f \<Rightarrow> f);
            mmap_size = page_round (os_page_size os) (me_max_file_size e)
        in if \<not> os_ftruncate os fname then (False, e\<lparr>me_fd := False\<rparr>, d(fname \<mapsto> f))
           else if \<not> os_mmap os fname
             then (False, e\<lparr>me_fd := False, me_map := None\<rparr>, d(fname \<mapsto> file_truncate mmap_size f))
           else (True,
             e\<lparr>me_fd := True, me_map := Some fname, me_mmap_size := mmap_size, me_offset := kHeaderSize\<rparr>,
             d(fname \<mapsto> (file_truncate mmap_size f)\<lparr>mf_file_size := me_max_file_size e,
                 mf_write_offset := kHeaderSize\<rparr>)))"

definition OpenOrCreate ::
  "os_env \<Rightarrow> string \<Rightarrow> string \<Rightarrow> MmapStorageEngine \<Rightarrow> disk \<Rightarrow> bool \<times> MmapStorageEngine \<times> disk" where
  "OpenOrCreate os output_path file_prefix e d =
     (let e1 = e\<lparr>me_output_path := EnsureTrailingSlash output_path, me_file_prefix := file_prefix\<rparr>
      in if \<not> fst (EnsureDirExists (\<lambda>p u. (os_mkdir os p, u)) (me_output_path e1) ())
         then (False, e1, d)
         else open_and_map os (MakeFileName e1 (me_file_sequence e1)) e1 d)"

text \<open>\<open>msync\<close> makes the mapped bytes durable; the contents do not change.\<close>
definition Sync :: "MmapStorageEngine \<Rightarrow> MmapStorageEngine" where
  "Sync e = e"

definition Close :: "MmapStorageEngine \<Rightarrow> MmapStorageEngine" where
  "Close e = (Sync e)\<lparr>me_map := None, me_fd := False\<rparr>"

definition RollNewFile :: "os_env \<Rightarrow> MmapStorageEngine \<Rightarrow> disk \<Rightarrow> bool \<times> MmapStorageEngine \<times> disk" where
  "RollNewFile os e d =
     (let e1 = (Sync e)\<lparr>me_map := None, me_fd := False\<rparr>;
          e2 = e1\<lparr>me_file_sequence := Suc (me_file_sequence e1)\<rparr>
      in open_and_map os (MakeFileName e2 (me_file_sequence e2)) e2 d)"

text \<open>The copy into the mapping and the release store of the write offset.\<close>
definition write_at :: "u8 list \<Rightarrow> MmapStorageEngine \<Rightarrow> disk \<Rightarrow> MmapStorageEngine \<times> disk" where
  "write_at bs e d =
     (case me_map e of
        None \<Rightarrow> (e, d)
      | Some fname \<Rightarrow>
          (e\<lparr>me_offset := me_offset e + length bs\<rparr>,
           d(fname := map_option (\<lambda>f. f\<lparr>
               mf_bytes := (\<lambda>i. if me_offset e \<le> i \<and> i < me_offset e + length bs
                                then bs ! (i - me_offset e) else mf_bytes f i),
               mf_write_offset := me_offset e + length bs\<rparr>) (d fname))))"

definition AppendRaw :: "os_env \<Rightarrow> u8 list \<Rightarrow> MmapStorageEngine \<Rightarrow> disk \<Rightarrow> MmapStorageEngine \<times> disk" where
  "AppendRaw os bs e d =
     (if \<not> IsOpen e \<or> length bs = 0 then (e, d)
      else if me_max_file_size e \<le> me_offset e + length bs then
        (case RollNewFile os e d of
           (False, e', d') \<Rightarrow> (e', d')
         | (True, e', d') \<Rightarrow> write_at bs e' d')
      else write_at bs e d)"

text \<open>\<open>AppendRecord\<close>: the same steps on the 128 bytes of the envelope.\<close>
definition AppendRecord :: "os_env \<Rightarrow> TickData \<Rightarrow> u32 \<Rightarrow> MmapStorageEngine \<Rightarrow> disk \<Rightarrow> MmapStorageEngine \<times> disk" where
  "AppendRecord os tick storage_target e d =
     (if \<not> IsOpen e then (e, d)
      else
        let bs = envelope_bytes \<lparr>env_data = tick, env_storage_target = storage_target, env_recovery_status = 0\<rparr>
        in if me_max_file_size e \<le> me_offset e + 128 then
             (case RollNewFile os e d of
                (False, e', d') \<Rightarrow> (e', d')
              | (True, e', d') \<Rightarrow> write_at bs e' d')
           else write_at bs e d)"

section \<open>Invariant\<close>

text \<open>What a reader of a file sees: the bytes between the header and the published write offset.\<close>
definition file_data :: "mfile \<Rightarrow> u8 list" where
  "file_data f = map (mf_bytes f) [kHeaderSize..<mf_write_offset f]"

definition engine_inv :: "MmapStorageEngine \<Rightarrow> disk \<Rightarrow> bool" where
  "engine_inv e d \<longleftrightarrow> (IsOpen e \<longrightarrow> (\<exists>f. me_map e = Some (MakeFileName e (me_file_sequence e))
     \<and> d (MakeFileName e (me_file_sequence e)) = Some f
     \<and> mf_write_offset f = me_offset e \<and> kHeaderSize \<le> me_offset e \<and> me_offset e \<le> mf_len f
     \<and> me_max_file_size e \<le> mf_len f \<and> mf_len f = me_mmap_size e))"

lemma page_round_ge: "0 < p \<Longrightarrow> n \<le> page_round p n"
proof -
  assume "0 < p"
  then have "(n + p - 1) mod p \<le> p - 1" using mod_less_divisor [of p "n + p - 1"] by linarith
  moreover have "page_round p n = n + p - 1 - (n + p - 1) mod p"
    by (simp add: page_round_def minus_mod_eq_div_mult)
  ultimately show ?thesis using \<open>0 < p\<close> by linarith
qed

lemma MakeFileName_cong:
  "me_output_path e = me_output_path e' \<Longrightarrow> me_file_prefix e = me_file_prefix e' \<Longrightarrow>
   MakeFileName e k = MakeFileName e' k"
  by (simp add: MakeFileName_def)

lemma MakeFileName_update [simp]:
  "MakeFileName (e\<lparr>me_fd := a\<rparr>) k = MakeFileName e k"
  "MakeFileName (e\<lparr>me_map := b\<rparr>) k = MakeFileName e k"
  "MakeFileName (e\<lparr>me_mmap_size := c\<rparr>) k = MakeFileName e k"
  "MakeFileName (e\<lparr>me_offset := c\<rparr>) k = MakeFileName e k"
  "MakeFileName (e\<lparr>me_file_sequence := c\<rparr>) k = MakeFileName e k"
  by (simp_all add: MakeFileName_def)

text \<open>The name is short enough for the 128-character buffer up to sequence number 9999.\<close>
definition short_names :: "MmapStorageEngine \<Rightarrow> bool" where
  "short_names e \<longleftrightarrow> length (me_output_path e) + length (me_file_prefix e) \<le> 118"

lemma MakeFileName_inj:
  assumes "short_names e" "j < 10000" "k < 10000" "MakeFileName e j = MakeFileName e k"
  shows "j = k"
proof -
  have "length (c_str s) \<le> length s" for s
    by (simp add: c_str_def length_takeWhile_le)
  note l = this [of "me_output_path e"] this [of "me_file_prefix e"]
  have "MakeFileName e i = c_str (me_output_path e) @ c_str (me_file_prefix e) @ ''_'' @ dec_pad 4 i @ ''.bin''"
    if "i < 10000" for i
    using that l assms(1) length_dec_pad [of i 4] by (simp add: MakeFileName_def short_names_def)
  then show ?thesis using assms by (simp add: dec_pad_inj)
qed

lemma open_and_map_ok:
  assumes "open_and_map os fname e d = (True, e', d')" "0 < os_page_size os"
  shows "\<exists>f. d' = d(fname \<mapsto> f) \<and> file_data f = [] \<and> mf_write_offset f = kHeaderSize
    \<and> me_max_file_size e \<le> mf_len f
    \<and> e' = e\<lparr>me_fd := True, me_map := Some fname, me_mmap_size := mf_len f, me_offset := kHeaderSize\<rparr>"
  using assms page_round_ge [OF assms(2), of "me_max_file_size e"]
  by (auto simp: open_and_map_def Let_def file_truncate_def file_data_def split: if_splits)

lemma open_and_map_fail:
  "open_and_map os fname e d = (False, e', d') \<Longrightarrow> \<not> me_fd e' \<and> (\<forall>n. n \<noteq> fname \<longrightarrow> d' n = d n)"
  by (auto simp: open_and_map_def Let_def split: if_splits)

lemma write_at_data:
  assumes "me_map e = Some fname" "d fname = Some f" "mf_write_offset f = me_offset e" "kHeaderSize \<le> me_offset e"
  shows "\<exists>f'. write_at bs e d = (e\<lparr>me_offset := me_offset e + length bs\<rparr>, d(fname \<mapsto> f'))
    \<and> file_data f' = file_data f @ bs \<and> mf_write_offset f' = me_offset e + length bs \<and> mf_len f' = mf_len f"
proof -
  let ?f' = "f\<lparr>mf_bytes := (\<lambda>i. if me_offset e \<le> i \<and> i < me_offset e + length bs
      then bs ! (i - me_offset e) else mf_bytes f i), mf_write_offset := me_offset e + length bs\<rparr>"
  have "file_data ?f' = file_data f @ bs"
  proof (rule nth_equalityI)
    fix i assume "i < length (file_data ?f')"
    then show "file_data ?f' ! i = (file_data f @ bs) ! i"
      using assms(3,4) by (auto simp: file_data_def nth_append add.commute)
  qed (use assms(3,4) in \<open>simp add: file_data_def\<close>)
  then show ?thesis using assms by (auto simp: write_at_def)
qed


section \<open>The log of an engine\<close>

definition file_log :: "disk \<Rightarrow> string \<Rightarrow> u8 list" where
  "file_log d n = (case d n of None \<Rightarrow> [] | Some f \<Rightarrow> file_data f)"

text \<open>The published data of all files of an engine, in the order of their sequence numbers.\<close>
definition engine_log :: "MmapStorageEngine \<Rightarrow> disk \<Rightarrow> u8 list" where
  "engine_log e d = concat (map (\<lambda>k. file_log d (MakeFileName e k)) [0..<Suc (me_file_sequence e)])"

definition os_ok :: "os_env \<Rightarrow> bool" where
  "os_ok os \<longleftrightarrow> (\<forall>n. os_open os n) \<and> (\<forall>n. os_ftruncate os n) \<and> (\<forall>n. os_mmap os n) \<and> 0 < os_page_size os"

lemma engine_log_cong:
  assumes "me_output_path e = me_output_path e'" "me_file_prefix e = me_file_prefix e'"
    "me_file_sequence e = me_file_sequence e'"
    "\<And>k. k < me_file_sequence e \<Longrightarrow> file_log d (MakeFileName e k) = file_log d' (MakeFileName e k)"
    "file_log d' (MakeFileName e (me_file_sequence e)) = file_log d (MakeFileName e (me_file_sequence e)) @ bs"
  shows "engine_log e' d' = engine_log e d @ bs"
proof -
  have n: "MakeFileName e' k = MakeFileName e k" for k
    using assms(1,2) by (intro MakeFileName_cong) simp_all
  have "map (\<lambda>k. file_log d' (MakeFileName e k)) [0..<me_file_sequence e]
      = map (\<lambda>k. file_log d (MakeFileName e k)) [0..<me_file_sequence e]"
    using assms(4) by simp
  then have "concat (map (\<lambda>k. file_log d' (MakeFileName e k)) [0..<me_file_sequence e])
      = concat (map (\<lambda>k. file_log d (MakeFileName e k)) [0..<me_file_sequence e])"
    by (rule arg_cong)
  then show ?thesis using assms(5) by (simp add: engine_log_def n flip: assms(3))
qed

text \<open>Writing through the mapping extends the log by the bytes written and nothing else.\<close>
lemma write_at_log:
  assumes inv: "engine_inv e d" "IsOpen e" and short: "short_names e" "me_file_sequence e < 10000"
    and fits: "me_offset e + length bs \<le> me_mmap_size e" and w: "write_at bs e d = (e', d')"
  shows "engine_inv e' d' \<and> IsOpen e' \<and> engine_log e' d' = engine_log e d @ bs
    \<and> e' = e\<lparr>me_offset := me_offset e + length bs\<rparr>"
proof -
  let ?n = "MakeFileName e (me_file_sequence e)"
  obtain f where f: "me_map e = Some ?n" "d ?n = Some f" "mf_write_offset f = me_offset e"
    "kHeaderSize \<le> me_offset e" "me_max_file_size e \<le> mf_len f" "mf_len f = me_mmap_size e"
    using inv by (auto simp: engine_inv_def)
  then obtain f' where f': "e' = e\<lparr>me_offset := me_offset e + length bs\<rparr>" "d' = d(?n \<mapsto> f')"
    "file_data f' = file_data f @ bs" "mf_write_offset f' = me_offset e + length bs" "mf_len f' = mf_len f"
    using write_at_data [where e = e and d = d and fname = ?n and f = f and bs = bs] f w by auto
  have "engine_log e' d' = engine_log e d @ bs"
  proof (rule engine_log_cong)
    fix k assume "k < me_file_sequence e"
    then have "MakeFileName e k \<noteq> ?n" using MakeFileName_inj [OF short(1), of k "me_file_sequence e"] short(2) by auto
    then show "file_log d (MakeFileName e k) = file_log d' (MakeFileName e k)"
      by (simp add: f'(2) file_log_def)
  qed (simp_all add: f' f(2) file_log_def)
  then show ?thesis using f f' inv(2) fits by (simp add: engine_inv_def IsOpen_def)
qed

lemma RollNewFile_ok:
  assumes "os_ok os" "short_names e" "Suc (me_file_sequence e) < 10000" and fits: "kHeaderSize \<le> me_max_file_size e"
  shows "\<exists>e' d'. RollNewFile os e d = (True, e', d') \<and> engine_inv e' d' \<and> IsOpen e'
    \<and> engine_log e' d' = engine_log e d \<and> me_file_sequence e' = Suc (me_file_sequence e)
    \<and> me_offset e' = kHeaderSize \<and> me_max_file_size e' = me_max_file_size e \<and> me_max_file_size e \<le> me_mmap_size e'
    \<and> short_names e'"
proof -
  let ?e2 = "(e\<lparr>me_map := None, me_fd := False\<rparr>)\<lparr>me_file_sequence := Suc (me_file_sequence e)\<rparr>"
  let ?n = "MakeFileName e (Suc (me_file_sequence e))"
  obtain e' d' where r: "RollNewFile os e d = (True, e', d')" and o: "open_and_map os ?n ?e2 d = (True, e', d')"
    using assms(1) by (auto simp: RollNewFile_def Sync_def Let_def open_and_map_def os_ok_def)
  obtain f where f: "d' = d(?n \<mapsto> f)" "file_data f = []" "mf_write_offset f = kHeaderSize"
      "me_max_file_size e \<le> mf_len f"
      "e' = ?e2\<lparr>me_fd := True, me_map := Some ?n, me_mmap_size := mf_len f, me_offset := kHeaderSize\<rparr>"
    using open_and_map_ok [OF o] assms(1) by (auto simp: os_ok_def)
  have n: "MakeFileName e' k = MakeFileName e k" for k by (simp add: f(5) MakeFileName_def)
  have s: "me_file_sequence e' = Suc (me_file_sequence e)" "me_max_file_size e' = me_max_file_size e"
      "me_offset e' = kHeaderSize" "me_map e' = Some ?n" "me_fd e'" "me_output_path e' = me_output_path e"
      "me_file_prefix e' = me_file_prefix e" "me_mmap_size e' = mf_len f"
    by (simp_all add: f(5))
  have "MakeFileName e k \<noteq> ?n" if "k < Suc (me_file_sequence e)" for k
    using MakeFileName_inj [OF assms(2), of k "Suc (me_file_sequence e)"] that assms(3) by auto
  then have "engine_log e' d' = engine_log e d"
    using f(1,2) by (auto simp: engine_log_def file_log_def s(1) n intro!: arg_cong [of _ _ concat] map_cong)
  moreover have "engine_inv e' d'"
    using f(1,3,4) s fits by (simp add: engine_inv_def n)
  ultimately show ?thesis
    using r s f(4) assms(2) by (auto simp: IsOpen_def short_names_def)
qed


lemma AppendRaw_ok:
  assumes "os_ok os" "engine_inv e d" "IsOpen e" "short_names e" "Suc (me_file_sequence e) < 10000"
    "kHeaderSize + length bs \<le> me_max_file_size e" "AppendRaw os bs e d = (e', d')"
  shows "engine_inv e' d' \<and> IsOpen e' \<and> engine_log e' d' = engine_log e d @ bs \<and> short_names e'
    \<and> me_max_file_size e' = me_max_file_size e \<and> me_file_sequence e' \<le> Suc (me_file_sequence e)"
proof (cases "bs = []")
  case True
  then show ?thesis using assms by (simp add: AppendRaw_def)
next
  case ne: False
  show ?thesis
  proof (cases "me_max_file_size e \<le> me_offset e + length bs")
    case False
    then have w: "write_at bs e d = (e', d')" using assms ne by (simp add: AppendRaw_def)
    have "me_max_file_size e \<le> me_mmap_size e" using assms(2,3) by (auto simp: engine_inv_def)
    then have "me_offset e + length bs \<le> me_mmap_size e" using False by simp
    then show ?thesis
      using write_at_log [OF assms(2,3,4) _ _ w] assms(4,5) by (auto simp: short_names_def)
  next
    case True
    obtain e1 d1 where r: "RollNewFile os e d = (True, e1, d1)" "engine_inv e1 d1" "IsOpen e1"
      "engine_log e1 d1 = engine_log e d" "me_file_sequence e1 = Suc (me_file_sequence e)"
      "me_offset e1 = kHeaderSize" "me_max_file_size e1 = me_max_file_size e"
      "me_max_file_size e \<le> me_mmap_size e1" "short_names e1"
      using RollNewFile_ok [OF assms(1,4,5), of d] assms(6) by auto
    then have w: "write_at bs e1 d1 = (e', d')" using assms True ne by (simp add: AppendRaw_def)
    show ?thesis
      using write_at_log [OF r(2,3,9) _ _ w] r assms(5,6) by (auto simp: short_names_def)
  qed
qed

lemma AppendRecord_AppendRaw:
  "tick_wf tick \<Longrightarrow> AppendRecord os tick target e d =
     AppendRaw os (envelope_bytes \<lparr>env_data = tick, env_storage_target = target, env_recovery_status = 0\<rparr>) e d"
proof -
  assume "tick_wf tick"
  then have "length (envelope_bytes \<lparr>env_data = tick, env_storage_target = target, env_recovery_status = 0\<rparr>) = 128"
    by (simp add: length_envelope_bytes)
  then show ?thesis by (simp add: AppendRecord_def AppendRaw_def Let_def)
qed

fun append_all :: "os_env \<Rightarrow> u8 list list \<Rightarrow> MmapStorageEngine \<Rightarrow> disk \<Rightarrow> MmapStorageEngine \<times> disk" where
  "append_all os [] e d = (e, d)"
| "append_all os (bs # rest) e d = (case AppendRaw os bs e d of (e', d') \<Rightarrow> append_all os rest e' d')"

lemma append_all_ok:
  assumes "os_ok os" "engine_inv e d" "IsOpen e" "short_names e" "me_file_sequence e + length bss < 10000"
    "\<forall>bs\<in>set bss. kHeaderSize + length bs \<le> me_max_file_size e" "append_all os bss e d = (e', d')"
  shows "engine_inv e' d' \<and> IsOpen e' \<and> engine_log e' d' = engine_log e d @ concat bss"
  using assms(2-)
proof (induction bss arbitrary: e d)
  case (Cons bs bss)
  obtain e1 d1 where a: "AppendRaw os bs e d = (e1, d1)" by (cases "AppendRaw os bs e d")
  note k = AppendRaw_ok [OF assms(1) Cons.prems(1-3) _ _ a]
  show ?case using Cons.IH [of e1 d1] k Cons.prems a by simp
qed simp

lemma OpenOrCreate_ok:
  assumes "OpenOrCreate os path prefix (MmapStorageEngine_new m) d = (True, e, d')" "0 < os_page_size os" "kHeaderSize \<le> m"
  shows "engine_inv e d' \<and> IsOpen e \<and> engine_log e d' = [] \<and> me_file_sequence e = 0 \<and> me_max_file_size e = m
    \<and> me_offset e = kHeaderSize \<and> me_output_path e = EnsureTrailingSlash path \<and> me_file_prefix e = prefix"
proof -
  let ?e = "(MmapStorageEngine_new m)\<lparr>me_output_path := EnsureTrailingSlash path, me_file_prefix := prefix\<rparr>"
  have o: "open_and_map os (MakeFileName ?e 0) ?e d = (True, e, d')"
    using assms(1) by (simp add: OpenOrCreate_def Let_def MmapStorageEngine_new_def split: if_splits)
  obtain f where f: "d' = d(MakeFileName ?e 0 \<mapsto> f)" "file_data f = []" "mf_write_offset f = kHeaderSize"
      "me_max_file_size ?e \<le> mf_len f"
      "e = ?e\<lparr>me_fd := True, me_map := Some (MakeFileName ?e 0), me_mmap_size := mf_len f, me_offset := kHeaderSize\<rparr>"
    using open_and_map_ok [OF o assms(2)] by blast
  have n: "MakeFileName e k = MakeFileName ?e k" for k by (simp add: f(5) MakeFileName_def)
  have s: "me_file_sequence e = 0" "me_max_file_size e = m" "me_offset e = kHeaderSize"
      "me_map e = Some (MakeFileName ?e 0)" "me_fd e" "me_mmap_size e = mf_len f"
      "me_output_path e = EnsureTrailingSlash path" "me_file_prefix e = prefix"
    by (simp_all add: f(5) MmapStorageEngine_new_def)
  have "m \<le> mf_len f" using f(4) by (simp add: MmapStorageEngine_new_def)
  then show ?thesis
    using s f(1-3) assms(3) by (simp add: engine_inv_def engine_log_def file_log_def IsOpen_def n)
qed


definition os_fine :: os_env where
  "os_fine = \<lparr>os_mkdir = (\<lambda>_. MkdirOk), os_open = (\<lambda>_. True), os_ftruncate = (\<lambda>_. True),
     os_mmap = (\<lambda>_. True), os_page_size = 16\<rparr>"


text \<open>
  Opening resets the log: a file left by an earlier run keeps its bytes, but its published write
  offset goes back to the header, so its data is no longer part of the log and the next append
  overwrites it.
\<close>
theorem reopen_resets_log:
  assumes "OpenOrCreate os path prefix (MmapStorageEngine_new m) d = (True, e, d')" "0 < os_page_size os"
    "kHeaderSize \<le> m"
  shows "engine_log e d' = [] \<and> me_offset e = kHeaderSize"
  using OpenOrCreate_ok [OF assms] by blast

theorem reopen_resets_log_witness:
  "\<exists>e d'. OpenOrCreate os_fine ''d'' ''tick'' (MmapStorageEngine_new 70)
       [''d/tick_0000.bin'' \<mapsto> \<lparr>mf_write_offset = 66, mf_file_size = 70, mf_bytes = (\<lambda>_. 9), mf_len = 80\<rparr>] = (True, e, d')
     \<and> engine_log e d' = []"
proof -
  let ?d = "[''d/tick_0000.bin'' \<mapsto> \<lparr>mf_write_offset = 66, mf_file_size = 70, mf_bytes = (\<lambda>_. 9), mf_len = 80\<rparr>]"
  obtain e d1 where o: "OpenOrCreate os_fine ''d'' ''tick'' (MmapStorageEngine_new 70) ?d = (True, e, d1)"
    by (simp add: OpenOrCreate_def EnsureDirExists_def EnsureTrailingSlash_def os_fine_def Let_def
        open_and_map_def MmapStorageEngine_new_def)
  then show ?thesis
    using reopen_resets_log [OF o] by (simp add: os_fine_def kHeaderSize_def)
qed

end
