(* ===== verification/Storage_Backend.thy ===== *)
theory Storage_Backend
  imports Csv_Writer Mmap_Engine
begin

text \<open>
  The storage strategy interface (\<open>src/storage/i_storage_backend.h\<close>) and its two file backends,
  \<open>CsvBackend\<close> (\<open>src/storage/backend/csv_backend.cpp\<close>) and \<open>MmapBackend\<close>
  (\<open>src/storage/backend/mmap_backend.cpp\<close>). The locale \<open>storage_backend\<close> holds the laws the router
  relies on. The mutex of a backend makes each insert one atomic step, so an insert is a function
  on the backend and the disk.
\<close>

section \<open>The interface\<close>

text \<open>The three \<open>Insert*\<close> calls; an orderbook carries its latency and the channel's depth.\<close>
datatype storage_event = SE_Tick TickData | SE_Orderbook DepthUpdateEvent u64 u32 | SE_BookTicker BookTickerEvent

fun event_channel :: "storage_event \<Rightarrow> u32" where
  "event_channel (SE_Tick t) = tick_channel_id t"
| "event_channel (SE_Orderbook e _ _) = dep_channel_id e"
| "event_channel (SE_BookTicker e) = bt_channel_id e"

text \<open>
  What the router relies on: registering a channel makes at most that channel known, inserting an
  event changes nothing about which channels are known, and an event of an unknown channel is
  dropped without a trace. \<open>'env\<close> is what the operating system answers during a call.
\<close>
locale storage_backend =
  fixes reg :: "'env \<Rightarrow> u32 \<Rightarrow> string \<Rightarrow> string \<Rightarrow> string \<Rightarrow> u32 \<Rightarrow> 's \<Rightarrow> 's"
    and ins :: "'env \<Rightarrow> storage_event \<Rightarrow> 's \<Rightarrow> 's"
    and known :: "'s \<Rightarrow> u32 \<Rightarrow> bool"
  assumes reg_known: "known (reg env c e m s dl st) c' \<Longrightarrow> c' \<noteq> c \<Longrightarrow> known st c'"
    and ins_known: "known (ins env ev st) c \<longleftrightarrow> known st c"
    and ins_unknown: "\<not> known st (event_channel ev) \<Longrightarrow> ins env ev st = st"
begin

primrec ins_all :: "('env \<times> storage_event) list \<Rightarrow> 's \<Rightarrow> 's" where
  "ins_all [] st = st"
| "ins_all (x # xs) st = ins_all xs (ins (fst x) (snd x) st)"

text \<open>Events of unknown channels can be taken out of any history.\<close>
lemma ins_all_filter:
  "ins_all xs st = ins_all (filter (\<lambda>x. known st (event_channel (snd x))) xs) st"
proof (induction xs arbitrary: st)
  case (Cons x xs)
  show ?case
    using Cons [of "ins (fst x) (snd x) st"] Cons [of st]
    by (cases "known st (event_channel (snd x))") (simp_all add: ins_known ins_unknown)
qed simp

lemma ins_all_known: "known (ins_all xs st) c \<longleftrightarrow> known st c"
  by (induction xs arbitrary: st) (simp_all add: ins_known)

end

section \<open>CSV backend\<close>

record CsvBackend =
  cb_output_root :: string
  cb_writers :: "u32 \<rightharpoonup> CsvWriter"
  cb_disk :: text_disk

record csv_env =
  ce_mkdir :: "string \<Rightarrow> mkdir_result"
  ce_opens :: "string \<Rightarrow> bool"

text \<open>\<open>emplace\<close> keeps an entry that is already there.\<close>
definition emplace :: "'k \<Rightarrow> 'v \<Rightarrow> ('k \<rightharpoonup> 'v) \<Rightarrow> ('k \<rightharpoonup> 'v)" where
  "emplace k v m = (case m k of None \<Rightarrow> m(k \<mapsto> v) | Some _ \<Rightarrow> m)"

definition CsvBackend_RegisterChannel ::
  "csv_env \<Rightarrow> u32 \<Rightarrow> string \<Rightarrow> string \<Rightarrow> string \<Rightarrow> u32 \<Rightarrow> CsvBackend \<Rightarrow> CsvBackend" where
  "CsvBackend_RegisterChannel env channel_id exchange market_type symbol depth_level b =
     (case CsvWriter_Open (ce_mkdir env) (cb_output_root b) exchange market_type symbol CsvWriter_new of
        (True, w) \<Rightarrow> b\<lparr>cb_writers := emplace channel_id w (cb_writers b)\<rparr>
      | (False, _) \<Rightarrow> b)"

text \<open>The lookup and the locked append shared by the three inserts.\<close>
definition csv_append ::
  "u32 \<Rightarrow> (CsvWriter \<Rightarrow> text_disk \<Rightarrow> CsvWriter \<times> text_disk) \<Rightarrow> CsvBackend \<Rightarrow> CsvBackend" where
  "csv_append channel_id f b =
     (case cb_writers b channel_id of
        None \<Rightarrow> b
      | Some w \<Rightarrow> (case f w (cb_disk b) of
          (w', d') \<Rightarrow> b\<lparr>cb_writers := (cb_writers b)(channel_id \<mapsto> w'), cb_disk := d'\<rparr>))"

definition CsvBackend_InsertTick :: "(double \<Rightarrow> string) \<Rightarrow> csv_env \<Rightarrow> TickData \<Rightarrow> CsvBackend \<Rightarrow> CsvBackend" where
  "CsvBackend_InsertTick fd env tick = csv_append (tick_channel_id tick) (AppendTick fd (ce_opens env) tick)"

definition CsvBackend_InsertOrderbook ::
  "(double \<Rightarrow> string) \<Rightarrow> csv_env \<Rightarrow> DepthUpdateEvent \<Rightarrow> u64 \<Rightarrow> u32 \<Rightarrow> CsvBackend \<Rightarrow> CsvBackend" where
  "CsvBackend_InsertOrderbook fd env event local_ts depth_level =
     csv_append (dep_channel_id event) (AppendOrderbook fd (ce_opens env) event local_ts depth_level)"

definition CsvBackend_InsertBookTicker ::
  "(double \<Rightarrow> string) \<Rightarrow> csv_env \<Rightarrow> BookTickerEvent \<Rightarrow> CsvBackend \<Rightarrow> CsvBackend" where
  "CsvBackend_InsertBookTicker fd env event =
     csv_append (bt_channel_id event) (AppendBookTicker fd (ce_opens env) event)"

definition CsvBackend_FlushAndClose :: "CsvBackend \<Rightarrow> CsvBackend" where
  "CsvBackend_FlushAndClose b = b\<lparr>cb_writers := (\<lambda>k. map_option CsvWriter_Close (cb_writers b k))\<rparr>"

fun csv_insert :: "(double \<Rightarrow> string) \<Rightarrow> csv_env \<Rightarrow> storage_event \<Rightarrow> CsvBackend \<Rightarrow> CsvBackend" where
  "csv_insert fd env (SE_Tick t) = CsvBackend_InsertTick fd env t"
| "csv_insert fd env (SE_Orderbook e l dl) = CsvBackend_InsertOrderbook fd env e l dl"
| "csv_insert fd env (SE_BookTicker e) = CsvBackend_InsertBookTicker fd env e"

definition csv_known :: "CsvBackend \<Rightarrow> u32 \<Rightarrow> bool" where
  "csv_known b c \<longleftrightarrow> cb_writers b c \<noteq> None"

lemma csv_append_known: "csv_known (csv_append c f b) c' \<longleftrightarrow> csv_known b c'"
  by (auto simp: csv_append_def csv_known_def split: option.splits prod.splits)

lemma csv_append_unknown: "\<not> csv_known b c \<Longrightarrow> csv_append c f b = b"
  by (simp add: csv_append_def csv_known_def)

lemmas csv_insert_defs =
  CsvBackend_InsertTick_def CsvBackend_InsertOrderbook_def CsvBackend_InsertBookTicker_def

interpretation csv: storage_backend CsvBackend_RegisterChannel "csv_insert fd" csv_known for fd
proof
  fix env c e m s dl and st :: CsvBackend and c' :: u32
  assume "csv_known (CsvBackend_RegisterChannel env c e m s dl st) c'" "c' \<noteq> c"
  then show "csv_known st c'"
    by (auto simp: CsvBackend_RegisterChannel_def csv_known_def emplace_def
        split: option.splits prod.splits bool.splits)
next
  fix env ev and st :: CsvBackend and c
  show "csv_known (csv_insert fd env ev st) c \<longleftrightarrow> csv_known st c"
    by (cases ev) (simp_all add: csv_insert_defs csv_append_known)
next
  fix ev env and st :: CsvBackend
  assume "\<not> csv_known st (event_channel ev)"
  then show "csv_insert fd env ev st = st"
    by (cases ev) (simp_all add: csv_insert_defs csv_append_unknown)
qed

section \<open>Binary backend\<close>

record MmapBackend =
  mb_output_root :: string
  mb_tick_engines :: "u32 \<rightharpoonup> MmapStorageEngine"
  mb_ob_engines :: "u32 \<rightharpoonup> MmapStorageEngine"
  mb_bt_engines :: "u32 \<rightharpoonup> MmapStorageEngine"
  mb_fallback :: "MmapStorageEngine option"
  mb_disk :: disk

definition MmapBackend_new :: "disk \<Rightarrow> MmapBackend" where
  "MmapBackend_new d = \<lparr>mb_output_root = [], mb_tick_engines = Map.empty, mb_ob_engines = Map.empty,
     mb_bt_engines = Map.empty, mb_fallback = None, mb_disk = d\<rparr>"

text \<open>
  The header, and the levels in use of each side. The record member \<open>symbol\<close> starts zeroed and takes
  the twelve bytes of the event's buffer.
\<close>
definition ob_record_header :: "DepthUpdateEvent \<Rightarrow> u64 \<Rightarrow> OrderbookRecordHeader" where
  "ob_record_header event local_ts =
     \<lparr>oh_exchange_timestamp = dep_exchange_timestamp event, oh_local_diff = local_ts,
      oh_symbol = CopySymbol_record (replicate kSymbolFieldBytes NUL) (dep_symbol event) 12,
      oh_bid_count = of_nat (dep_bid_count event), oh_ask_count = of_nat (dep_ask_count event)\<rparr>"

definition WriteOrderbook ::
  "os_env \<Rightarrow> DepthUpdateEvent \<Rightarrow> u64 \<Rightarrow> MmapStorageEngine \<Rightarrow> disk \<Rightarrow> MmapStorageEngine \<times> disk" where
  "WriteOrderbook os event local_ts e d =
     (let (e1, d1) = AppendRaw os (ob_header_bytes (ob_record_header event local_ts)) e d;
          (e2, d2) = (if dep_bid_count event > 0
                      then AppendRaw os (levels_bytes (take (dep_bid_count event) (dep_bids event))) e1 d1
                      else (e1, d1))
      in if dep_ask_count event > 0
         then AppendRaw os (levels_bytes (take (dep_ask_count event) (dep_asks event))) e2 d2
         else (e2, d2))"

definition bt_record :: "BookTickerEvent \<Rightarrow> BookTickerRecord" where
  "bt_record event =
     \<lparr>br_exchange_timestamp = bt_exchange_timestamp event, br_local_diff = bt_local_diff event,
      br_symbol = CopySymbol_record (replicate kSymbolFieldBytes NUL) (bt_symbol event) 12,
      br_best_bid_price = bt_best_bid_price event, br_best_bid_qty = bt_best_bid_qty event,
      br_best_ask_price = bt_best_ask_price event, br_best_ask_qty = bt_best_ask_qty event\<rparr>"

definition WriteBookTicker :: "os_env \<Rightarrow> BookTickerEvent \<Rightarrow> MmapStorageEngine \<Rightarrow> disk \<Rightarrow> MmapStorageEngine \<times> disk" where
  "WriteBookTicker os event e d = AppendRaw os (bt_record_bytes (bt_record event)) e d"

text \<open>One engine of a channel: registered when its file could be opened.\<close>
definition open_engine ::
  "os_env \<Rightarrow> string \<Rightarrow> string \<Rightarrow> u32 \<Rightarrow> (u32 \<rightharpoonup> MmapStorageEngine) \<Rightarrow> disk \<Rightarrow> (u32 \<rightharpoonup> MmapStorageEngine) \<times> disk" where
  "open_engine os dir prefix channel_id engines d =
     (case OpenOrCreate os dir prefix (MmapStorageEngine_new kDefaultMaxFileSize) d of
        (True, e, d') \<Rightarrow> (emplace channel_id e engines, d')
      | (False, e, d') \<Rightarrow> (engines, d'))"

definition MmapBackend_RegisterChannel ::
  "os_env \<Rightarrow> u32 \<Rightarrow> string \<Rightarrow> string \<Rightarrow> string \<Rightarrow> u32 \<Rightarrow> MmapBackend \<Rightarrow> MmapBackend" where
  "MmapBackend_RegisterChannel os channel_id exchange market_type symbol depth_level b =
     (let key = exchange @ ''/'' @ market_type @ ''/'' @ symbol;
          mmap_dir = JoinPath (EnsureTrailingSlash (mb_output_root b)) (key @ ''/'');
          (ticks, d1) = open_engine os mmap_dir ''tick'' channel_id (mb_tick_engines b) (mb_disk b);
          (obs, d2) = open_engine os mmap_dir ''ob'' channel_id (mb_ob_engines b) d1;
          (bts, d3) = open_engine os mmap_dir ''bt'' channel_id (mb_bt_engines b) d2
      in b\<lparr>mb_tick_engines := ticks, mb_ob_engines := obs, mb_bt_engines := bts, mb_disk := d3\<rparr>)"

definition MmapBackend_InsertTick :: "os_env \<Rightarrow> TickData \<Rightarrow> MmapBackend \<Rightarrow> MmapBackend" where
  "MmapBackend_InsertTick os tick b =
     (case mb_tick_engines b (tick_channel_id tick) of
        None \<Rightarrow> b
      | Some e \<Rightarrow> (case AppendRecord os tick 0 e (mb_disk b) of
          (e', d') \<Rightarrow> b\<lparr>mb_tick_engines := (mb_tick_engines b)(tick_channel_id tick \<mapsto> e'), mb_disk := d'\<rparr>))"

definition MmapBackend_InsertOrderbook :: "os_env \<Rightarrow> DepthUpdateEvent \<Rightarrow> u64 \<Rightarrow> u32 \<Rightarrow> MmapBackend \<Rightarrow> MmapBackend" where
  "MmapBackend_InsertOrderbook os event local_ts depth_level b =
     (case mb_ob_engines b (dep_channel_id event) of
        None \<Rightarrow> b
      | Some e \<Rightarrow> (case WriteOrderbook os event local_ts e (mb_disk b) of
          (e', d') \<Rightarrow> b\<lparr>mb_ob_engines := (mb_ob_engines b)(dep_channel_id event \<mapsto> e'), mb_disk := d'\<rparr>))"

definition MmapBackend_InsertBookTicker :: "os_env \<Rightarrow> BookTickerEvent \<Rightarrow> MmapBackend \<Rightarrow> MmapBackend" where
  "MmapBackend_InsertBookTicker os event b =
     (case mb_bt_engines b (bt_channel_id event) of
        None \<Rightarrow> b
      | Some e \<Rightarrow> (case WriteBookTicker os event e (mb_disk b) of
          (e', d') \<Rightarrow> b\<lparr>mb_bt_engines := (mb_bt_engines b)(bt_channel_id event \<mapsto> e'), mb_disk := d'\<rparr>))"

definition MmapBackend_FlushAndClose :: "MmapBackend \<Rightarrow> MmapBackend" where
  "MmapBackend_FlushAndClose b =
     b\<lparr>mb_tick_engines := (\<lambda>k. map_option (Close \<circ> Sync) (mb_tick_engines b k)),
       mb_ob_engines := (\<lambda>k. map_option (Close \<circ> Sync) (mb_ob_engines b k)),
       mb_bt_engines := (\<lambda>k. map_option (Close \<circ> Sync) (mb_bt_engines b k)),
       mb_fallback := None\<rparr>"

definition EnsureFallback :: "os_env \<Rightarrow> MmapBackend \<Rightarrow> MmapBackend" where
  "EnsureFallback os b =
     (case mb_fallback b of
        Some _ \<Rightarrow> b
      | None \<Rightarrow>
          (case OpenOrCreate os (JoinPath (EnsureTrailingSlash (mb_output_root b)) ''degraded/'') ''tick''
                  (MmapStorageEngine_new kDefaultMaxFileSize) (mb_disk b) of
             (False, _, d') \<Rightarrow> b\<lparr>mb_disk := d'\<rparr>
           | (True, e, d') \<Rightarrow> b\<lparr>mb_fallback := Some e, mb_disk := d'\<rparr>))"

text \<open>The three \<open>AppendFallback*\<close> calls write through the fallback engine when there is one.\<close>
definition on_fallback ::
  "(MmapStorageEngine \<Rightarrow> disk \<Rightarrow> MmapStorageEngine \<times> disk) \<Rightarrow> MmapBackend \<Rightarrow> MmapBackend" where
  "on_fallback f b =
     (case mb_fallback b of
        None \<Rightarrow> b
      | Some e \<Rightarrow> (case f e (mb_disk b) of (e', d') \<Rightarrow> b\<lparr>mb_fallback := Some e', mb_disk := d'\<rparr>))"

definition AppendFallbackTick :: "os_env \<Rightarrow> TickData \<Rightarrow> MmapBackend \<Rightarrow> MmapBackend" where
  "AppendFallbackTick os tick = on_fallback (AppendRecord os tick 1)"

definition AppendFallbackOrderbook :: "os_env \<Rightarrow> DepthUpdateEvent \<Rightarrow> u64 \<Rightarrow> MmapBackend \<Rightarrow> MmapBackend" where
  "AppendFallbackOrderbook os event local_ts = on_fallback (WriteOrderbook os event local_ts)"

definition AppendFallbackBookTicker :: "os_env \<Rightarrow> BookTickerEvent \<Rightarrow> MmapBackend \<Rightarrow> MmapBackend" where
  "AppendFallbackBookTicker os event = on_fallback (WriteBookTicker os event)"

fun mmap_insert :: "os_env \<Rightarrow> storage_event \<Rightarrow> MmapBackend \<Rightarrow> MmapBackend" where
  "mmap_insert os (SE_Tick t) = MmapBackend_InsertTick os t"
| "mmap_insert os (SE_Orderbook e l dl) = MmapBackend_InsertOrderbook os e l dl"
| "mmap_insert os (SE_BookTicker e) = MmapBackend_InsertBookTicker os e"

definition mmap_known :: "MmapBackend \<Rightarrow> u32 \<Rightarrow> bool" where
  "mmap_known b c \<longleftrightarrow> mb_tick_engines b c \<noteq> None \<or> mb_ob_engines b c \<noteq> None \<or> mb_bt_engines b c \<noteq> None"

lemma open_engine_other:
  "open_engine os dir prefix c m d = (m', d') \<Longrightarrow> c' \<noteq> c \<Longrightarrow> m' c' = m c'"
  by (auto simp: open_engine_def emplace_def split: prod.splits bool.splits option.splits)

interpretation mmap: storage_backend MmapBackend_RegisterChannel mmap_insert mmap_known
proof
  fix os c e m s dl and st :: MmapBackend and c' :: u32
  assume a: "mmap_known (MmapBackend_RegisterChannel os c e m s dl st) c'" "c' \<noteq> c"
  then show "mmap_known st c'"
    by (auto simp: MmapBackend_RegisterChannel_def mmap_known_def Let_def open_engine_other split: prod.splits)
next
  fix os ev and st :: MmapBackend and c
  show "mmap_known (mmap_insert os ev st) c \<longleftrightarrow> mmap_known st c"
    by (cases ev) (auto simp: MmapBackend_InsertTick_def MmapBackend_InsertOrderbook_def
        MmapBackend_InsertBookTicker_def mmap_known_def split: option.splits prod.splits)
next
  fix ev os and st :: MmapBackend
  assume "\<not> mmap_known st (event_channel ev)"
  then show "mmap_insert os ev st = st"
    by (cases ev) (simp_all add: MmapBackend_InsertTick_def MmapBackend_InsertOrderbook_def
        MmapBackend_InsertBookTicker_def mmap_known_def)
qed


section \<open>Reading back the binary orderbook log\<close>

text \<open>The record of one snapshot: header, then the levels in use.\<close>
definition ob_record_blobs :: "DepthUpdateEvent \<times> u64 \<Rightarrow> u8 list list" where
  "ob_record_blobs x = [ob_header_bytes (ob_record_header (fst x) (snd x)),
     levels_bytes (take (dep_bid_count (fst x)) (dep_bids (fst x))),
     levels_bytes (take (dep_ask_count (fst x)) (dep_asks (fst x)))]"

lemma append_all_append:
  "append_all os (xs @ ys) e d = (case append_all os xs e d of (e', d') \<Rightarrow> append_all os ys e' d')"
  by (induction xs arbitrary: e d) (auto split: prod.splits)

lemma AppendRaw_Nil [simp]: "AppendRaw os [] e d = (e, d)"
  by (simp add: AppendRaw_def)

lemma levels_bytes_Nil [simp]: "levels_bytes [] = []"
  by (simp add: levels_bytes_def)

lemma WriteOrderbook_blobs: "WriteOrderbook os ev lat e d = append_all os (ob_record_blobs (ev, lat)) e d"
  by (simp add: WriteOrderbook_def ob_record_blobs_def Let_def split: prod.splits)

fun write_orderbooks :: "os_env \<Rightarrow> (DepthUpdateEvent \<times> u64) list \<Rightarrow> MmapStorageEngine \<Rightarrow> disk \<Rightarrow> MmapStorageEngine \<times> disk" where
  "write_orderbooks os [] e d = (e, d)"
| "write_orderbooks os (x # xs) e d =
     (case WriteOrderbook os (fst x) (snd x) e d of (e', d') \<Rightarrow> write_orderbooks os xs e' d')"

lemma write_orderbooks_blobs:
  "write_orderbooks os xs e d = append_all os (concat (map ob_record_blobs xs)) e d"
  by (induction xs arbitrary: e d) (simp_all add: append_all_append WriteOrderbook_blobs split: prod.splits)

text \<open>A reader of the log: header, bids and asks of each record.\<close>
function read_ob_stream :: "u8 list \<Rightarrow> (OrderbookRecordHeader \<times> PriceLevel list \<times> PriceLevel list) list" where
  "read_ob_stream bs =
     (if length bs < 56 then []
      else case read_ob_header bs of
        None \<Rightarrow> []
      | Some h \<Rightarrow>
          let nb = unat (oh_bid_count h); na = unat (oh_ask_count h)
          in (h, read_levels nb (take (16 * nb) (drop 56 bs)), read_levels na (take (16 * na) (drop (56 + 16 * nb) bs)))
             # read_ob_stream (drop (56 + 16 * nb + 16 * na) bs))"
  by auto
termination
  by (relation "measure length") auto

declare read_ob_stream.simps [simp del]

lemma length_record_symbol: "length s = 12 \<Longrightarrow> length (CopySymbol_record (replicate kSymbolFieldBytes NUL) s 12) = 32"
  using CopySymbol_record_length [of "replicate kSymbolFieldBytes NUL" s 12] by (simp add: kSymbolFieldBytes_def)

lemma c_str_record_symbol: "length s = 12 \<Longrightarrow> c_str (CopySymbol_record (replicate kSymbolFieldBytes NUL) s 12) = c_str s"
  by (rule CopySymbol_record_c_str) (simp_all add: kSymbolFieldBytes_def)

lemma read_ob_stream_record:
  assumes "depth_wf ev"
  shows "read_ob_stream (concat (ob_record_blobs (ev, lat)) @ rest) =
    (ob_record_header ev lat, take (dep_bid_count ev) (dep_bids ev), take (dep_ask_count ev) (dep_asks ev))
      # read_ob_stream rest"
proof -
  let ?h = "ob_record_header ev lat"
  let ?hb = "ob_header_bytes ?h" and ?bb = "levels_bytes (take (dep_bid_count ev) (dep_bids ev))"
    and ?ab = "levels_bytes (take (dep_ask_count ev) (dep_asks ev))"
  have w: "length (dep_symbol ev) = 12" "length (dep_bids ev) = 100" "length (dep_asks ev) = 100"
    "dep_bid_count ev \<le> 100" "dep_ask_count ev \<le> 100"
    using assms by (simp_all add: depth_wf_def)
  then have h: "length ?hb = 56" "read_ob_header (?hb @ r) = Some ?h" for r
    by (simp_all add: length_ob_header_bytes read_ob_header_bytes ob_record_header_def length_record_symbol)
  have c: "unat (oh_bid_count ?h) = dep_bid_count ev" "unat (oh_ask_count ?h) = dep_ask_count ev"
    using w by (simp_all add: ob_record_header_def unat_of_nat take_bit_nat_eq_self_iff)
  have "read_ob_stream (?hb @ ?bb @ ?ab @ rest) =
      (?h, read_levels (dep_bid_count ev) ?bb, read_levels (dep_ask_count ev) ?ab) # read_ob_stream rest"
    using w by (subst read_ob_stream.simps) (simp add: h c Let_def min_absorb2)
  then show ?thesis using w by (simp add: ob_record_blobs_def)
qed

lemma read_ob_stream_records:
  "\<forall>x\<in>set xs. depth_wf (fst x) \<Longrightarrow> read_ob_stream (concat (concat (map ob_record_blobs xs))) =
     map (\<lambda>x. (ob_record_header (fst x) (snd x), take (dep_bid_count (fst x)) (dep_bids (fst x)),
               take (dep_ask_count (fst x)) (dep_asks (fst x)))) xs"
proof (induction xs)
  case Nil
  show ?case by (subst read_ob_stream.simps) simp
next
  case (Cons x xs)
  show ?case using read_ob_stream_record [of "fst x" "snd x"] Cons by simp
qed

lemma ob_blob_lengths: "depth_wf (fst x) \<Longrightarrow> bs \<in> set (ob_record_blobs x) \<Longrightarrow> length bs \<le> 1600"
  by (auto simp: ob_record_blobs_def depth_wf_def length_ob_header_bytes ob_record_header_def length_record_symbol)


definition sample_depth :: DepthUpdateEvent where
  "sample_depth = depth_zero\<lparr>dep_exchange_timestamp := 7, dep_bid_count := 2, dep_ask_count := 1\<rparr>"


end
