(* ===== verification/Dolphindb_Backend.thy ===== *)
theory Dolphindb_Backend
  imports Dolphindb_Client Storage_Backend
begin

text \<open>
  The database backend (\<open>src/storage/backend/dolphindb_backend.cpp\<close>): the tick double buffer, the
  degrade, reconnect, retry and fall-back sequence around every insert, and the binary fallback log.
  Each call is modelled as one thread executes it. What other threads do while the call waits for
  their reconnect attempt is an argument of the call.
\<close>

section \<open>State\<close>

text \<open>
  \<open>be_disk\<close> is the disk while no fallback exists; a created fallback owns it until it is released.
  \<open>be_crashed\<close> records the dereference of a missing fallback.
\<close>
record 's DolphinDBBackend =
  be_host :: string
  be_port :: u16
  be_user :: string
  be_password :: string
  be_buffer_size :: u32
  be_flush_interval_ns :: u64
  be_client :: "'s DolphinDBClient"
  be_degraded :: bool
  be_reconnecting :: bool
  be_fallback :: "MmapBackend option"
  be_fallback_once :: bool
  be_mmap_output_path :: string
  be_tick_buffer_a :: "TickData list"
  be_tick_buffer_b :: "TickData list"
  be_active_buffer :: nat
  be_last_flush_ns :: u64
  be_disk :: disk
  be_crashed :: bool

definition DolphinDBBackend_new :: "'s \<Rightarrow> disk \<Rightarrow> 's DolphinDBBackend" where
  "DolphinDBBackend_new server d =
     \<lparr>be_host = [], be_port = 0, be_user = [], be_password = [], be_buffer_size = 2000,
      be_flush_interval_ns = 10000000, be_client = DolphinDBClient_new server, be_degraded = False,
      be_reconnecting = False, be_fallback = None, be_fallback_once = False, be_mmap_output_path = [],
      be_tick_buffer_a = [], be_tick_buffer_b = [], be_active_buffer = 0, be_last_flush_ns = 0, be_disk = d,
      be_crashed = False\<rparr>"

text \<open>
  \<open>bn_first\<close>, \<open>bn_reconnect\<close> and \<open>bn_retry\<close> are the database's answers in the three phases of an
  insert, \<open>bn_os\<close> those of the file system. \<open>bn_wait\<close> is the outcome of waiting for another thread's
  reconnect: \<open>None\<close> on shutdown or timeout, otherwise the client and the degraded flag it left.
\<close>
record ('v, 's) backend_env =
  bn_first :: "('v, 's) client_env"
  bn_reconnect :: "('v, 's) client_env"
  bn_retry :: "('v, 's) client_env"
  bn_wait :: "('s DolphinDBClient \<times> bool) option"
  bn_os :: os_env
  bn_now_ns :: u64
  bn_later_ns :: u64

definition Configure ::
  "('v, 's) client_env \<Rightarrow> string \<Rightarrow> u16 \<Rightarrow> string \<Rightarrow> string \<Rightarrow> u32 \<Rightarrow> u64 \<Rightarrow> string
     \<Rightarrow> 's DolphinDBBackend \<Rightarrow> 's DolphinDBBackend" where
  "Configure env host port user password buffer_size flush_interval_ns mmap_output_path b =
     b\<lparr>be_host := host, be_port := port, be_user := user, be_password := password, be_buffer_size := buffer_size,
       be_flush_interval_ns := flush_interval_ns, be_mmap_output_path := mmap_output_path,
       be_client := snd (Connect env host port user password (be_client b))\<rparr>"

definition DolphinDBBackend_RegisterChannel ::
  "bool \<Rightarrow> u32 \<Rightarrow> string \<Rightarrow> string \<Rightarrow> string \<Rightarrow> u32 \<Rightarrow> 's DolphinDBBackend \<Rightarrow> 's DolphinDBBackend option" where
  "DolphinDBBackend_RegisterChannel ndebug channel_id exchange market_type symbol depth_level b =
     map_option (\<lambda>c. b\<lparr>be_client := c\<rparr>)
       (client_RegisterChannel ndebug channel_id exchange market_type symbol depth_level (be_client b))"

definition DolphinDBBackend_FreezeChannels :: "'s DolphinDBBackend \<Rightarrow> 's DolphinDBBackend" where
  "DolphinDBBackend_FreezeChannels b = b\<lparr>be_client := client_FreezeChannels (be_client b)\<rparr>"

section \<open>Degradation\<close>

definition TryReconnect :: "('v, 's) backend_env \<Rightarrow> 's DolphinDBBackend \<Rightarrow> bool \<times> 's DolphinDBBackend" where
  "TryReconnect env b =
     (if be_reconnecting b
      then case bn_wait env of
             None \<Rightarrow> (False, b)
           | Some (c, degraded) \<Rightarrow>
               (\<not> degraded, b\<lparr>be_client := c, be_degraded := degraded, be_reconnecting := False\<rparr>)
      else case Reconnect (bn_reconnect env) (be_client b) of
             (ok, c) \<Rightarrow> (ok, b\<lparr>be_client := c, be_degraded := (if ok then False else be_degraded b),
                              be_reconnecting := False\<rparr>))"

text \<open>An insert attempt under the shared lock: skipped when degraded, and degrading when it fails.\<close>
definition attempt ::
  "('s DolphinDBClient \<Rightarrow> bool \<times> 's DolphinDBClient) \<Rightarrow> 's DolphinDBBackend \<Rightarrow> bool \<times> 's DolphinDBBackend" where
  "attempt try_insert b =
     (if be_degraded b then (False, b)
      else case try_insert (be_client b) of
             (True, c) \<Rightarrow> (True, b\<lparr>be_client := c\<rparr>)
           | (False, c) \<Rightarrow> (False, b\<lparr>be_client := c, be_degraded := True\<rparr>))"

definition InsertWithFallback ::
  "('v, 's) backend_env \<Rightarrow> (('v, 's) client_env \<Rightarrow> 's DolphinDBClient \<Rightarrow> bool \<times> 's DolphinDBClient)
     \<Rightarrow> ('s DolphinDBBackend \<Rightarrow> 's DolphinDBBackend) \<Rightarrow> bool \<Rightarrow> 's DolphinDBBackend \<Rightarrow> bool \<times> 's DolphinDBBackend" where
  "InsertWithFallback env try_insert fallback retry_after_reconnect b =
     (case attempt (try_insert (bn_first env)) b of
        (True, b1) \<Rightarrow> (True, b1)
      | (False, b1) \<Rightarrow>
          (case TryReconnect env b1 of (reconnected, b2) \<Rightarrow>
             (case (if reconnected \<and> retry_after_reconnect then attempt (try_insert (bn_retry env)) b2 else (False, b2)) of
                (True, b3) \<Rightarrow> (True, b3)
              | (False, b3) \<Rightarrow> (False, fallback b3))))"

text \<open>\<open>call_once\<close> creates the fallback; afterwards the pointer is used as it is.\<close>
definition FallbackRef :: "os_env \<Rightarrow> 's DolphinDBBackend \<Rightarrow> 's DolphinDBBackend" where
  "FallbackRef os b =
     (if be_fallback_once b then b
      else b\<lparr>be_fallback_once := True,
             be_fallback := Some (EnsureFallback os ((MmapBackend_new (be_disk b))\<lparr>mb_output_root := be_mmap_output_path b\<rparr>))\<rparr>)"

definition with_fallback :: "os_env \<Rightarrow> (MmapBackend \<Rightarrow> MmapBackend) \<Rightarrow> 's DolphinDBBackend \<Rightarrow> 's DolphinDBBackend" where
  "with_fallback os f b =
     (let b1 = FallbackRef os b
      in case be_fallback b1 of
           None \<Rightarrow> b1\<lparr>be_crashed := True\<rparr>
         | Some fb \<Rightarrow> b1\<lparr>be_fallback := Some (f fb)\<rparr>)"

section \<open>Inserts\<close>

text \<open>The filter of \<open>FlushBuffer\<close>; the date cache is shared with the client.\<close>
fun valid_batch :: "int \<Rightarrow> TickData list \<Rightarrow> date_cache \<Rightarrow> TickData list \<times> date_cache" where
  "valid_batch now [] dates = ([], dates)"
| "valid_batch now (t # ts) dates =
     (case IsValidExchangeTimestamp now (tick_exchange_timestamp t) dates of (ok, dates1) \<Rightarrow>
        (case valid_batch now ts dates1 of (vs, dates2) \<Rightarrow> (if ok then t # vs else vs, dates2)))"

definition set_dates :: "date_cache \<Rightarrow> 's DolphinDBBackend \<Rightarrow> 's DolphinDBBackend" where
  "set_dates dates b = b\<lparr>be_client := (be_client b)\<lparr>dbc_dates := dates\<rparr>\<rparr>"

definition FlushBuffer :: "('v, 's) backend_env \<Rightarrow> TickData list \<Rightarrow> 's DolphinDBBackend \<Rightarrow> 's DolphinDBBackend" where
  "FlushBuffer env batch b =
     (if batch = [] then b
      else case valid_batch (cl_now_s (bn_first env)) batch (dbc_dates (be_client b)) of (valid, dates) \<Rightarrow>
        (if valid = [] then set_dates dates b
         else snd (InsertWithFallback env (\<lambda>e. TableInsertTrades e valid)
                (with_fallback (bn_os env) (fold (AppendFallbackTick (bn_os env)) valid)) False (set_dates dates b))))"

definition active_ticks :: "'s DolphinDBBackend \<Rightarrow> TickData list" where
  "active_ticks b = (if be_active_buffer b = 0 then be_tick_buffer_a b else be_tick_buffer_b b)"

definition set_active :: "TickData list \<Rightarrow> 's DolphinDBBackend \<Rightarrow> 's DolphinDBBackend" where
  "set_active ts b =
     (if be_active_buffer b = 0 then b\<lparr>be_tick_buffer_a := ts\<rparr> else b\<lparr>be_tick_buffer_b := ts\<rparr>)"

text \<open>The part of \<open>InsertTick\<close> under the buffer lock: what is to be flushed, and the new state.\<close>
definition buffer_tick :: "('v, 's) backend_env \<Rightarrow> TickData \<Rightarrow> 's DolphinDBBackend \<Rightarrow> TickData list \<times> 's DolphinDBBackend" where
  "buffer_tick env tick b =
     (let active = active_ticks b @ [tick];
          threshold_reached = unat (be_buffer_size b) \<le> length active;
          time_elapsed = (\<not> threshold_reached \<and> bn_now_ns env - be_last_flush_ns b > be_flush_interval_ns b)
      in if threshold_reached \<or> time_elapsed
         then (active, (set_active [] b)\<lparr>be_active_buffer := 1 - be_active_buffer b, be_last_flush_ns := bn_later_ns env\<rparr>)
         else ([], set_active active b))"

definition DolphinDBBackend_InsertTick :: "('v, 's) backend_env \<Rightarrow> TickData \<Rightarrow> 's DolphinDBBackend \<Rightarrow> 's DolphinDBBackend" where
  "DolphinDBBackend_InsertTick env tick b =
     (case buffer_tick env tick b of (to_flush, b1) \<Rightarrow> if to_flush = [] then b1 else FlushBuffer env to_flush b1)"

definition DolphinDBBackend_InsertOrderbook ::
  "('v, 's) backend_env \<Rightarrow> DepthUpdateEvent \<Rightarrow> u64 \<Rightarrow> u32 \<Rightarrow> 's DolphinDBBackend \<Rightarrow> 's DolphinDBBackend" where
  "DolphinDBBackend_InsertOrderbook env event local_ts depth_level b =
     (case IsValidExchangeTimestamp (cl_now_s (bn_first env)) (dep_exchange_timestamp event) (dbc_dates (be_client b)) of
        (False, dates) \<Rightarrow> set_dates dates b
      | (True, dates) \<Rightarrow>
          snd (InsertWithFallback env (\<lambda>e. TableInsertOrderbook e event local_ts)
            (with_fallback (bn_os env) (AppendFallbackOrderbook (bn_os env) event local_ts)) True (set_dates dates b)))"

definition DolphinDBBackend_InsertBookTicker ::
  "('v, 's) backend_env \<Rightarrow> BookTickerEvent \<Rightarrow> 's DolphinDBBackend \<Rightarrow> 's DolphinDBBackend" where
  "DolphinDBBackend_InsertBookTicker env event b =
     (case IsValidExchangeTimestamp (cl_now_s (bn_first env)) (bt_exchange_timestamp event) (dbc_dates (be_client b)) of
        (False, dates) \<Rightarrow> set_dates dates b
      | (True, dates) \<Rightarrow>
          snd (InsertWithFallback env (\<lambda>e. TableInsertBookTicker e event)
            (with_fallback (bn_os env) (AppendFallbackBookTicker (bn_os env) event)) True (set_dates dates b)))"

definition DolphinDBBackend_FlushAndClose ::
  "('v, 's) backend_env \<Rightarrow> ('v, 's) backend_env \<Rightarrow> 's DolphinDBBackend \<Rightarrow> 's DolphinDBBackend" where
  "DolphinDBBackend_FlushAndClose env_a env_b b =
     (let drain_a = be_tick_buffer_a b; drain_b = be_tick_buffer_b b;
          b1 = b\<lparr>be_tick_buffer_a := [], be_tick_buffer_b := []\<rparr>;
          b2 = (if drain_a = [] then b1 else FlushBuffer env_a drain_a b1);
          b3 = (if drain_b = [] then b2 else FlushBuffer env_b drain_b b2);
          b4 = (case be_fallback b3 of
                  None \<Rightarrow> b3
                | Some fb \<Rightarrow> b3\<lparr>be_fallback := None, be_disk := mb_disk (MmapBackend_FlushAndClose fb)\<rparr>)
      in b4\<lparr>be_client := Disconnect (be_client b4)\<rparr>)"

section \<open>The fallback log\<close>

definition tick_envelope :: "TickData \<Rightarrow> u8 list" where
  "tick_envelope t = envelope_bytes \<lparr>env_data = t, env_storage_target = 1, env_recovery_status = 0\<rparr>"

text \<open>Room for \<open>n\<close> more records: an open engine whose next \<open>n\<close> file numbers still have four digits.\<close>
definition engine_ready :: "nat \<Rightarrow> MmapStorageEngine \<Rightarrow> disk \<Rightarrow> bool" where
  "engine_ready n e d \<longleftrightarrow> engine_inv e d \<and> IsOpen e \<and> short_names e \<and> me_file_sequence e + n < 10000
     \<and> kHeaderSize + 128 \<le> me_max_file_size e"

definition mmap_ready :: "nat \<Rightarrow> MmapBackend \<Rightarrow> bool" where
  "mmap_ready n fb \<longleftrightarrow> (case mb_fallback fb of None \<Rightarrow> False | Some e \<Rightarrow> engine_ready n e (mb_disk fb))"

definition mmap_fallback_log :: "MmapBackend \<Rightarrow> u8 list" where
  "mmap_fallback_log fb = (case mb_fallback fb of None \<Rightarrow> [] | Some e \<Rightarrow> engine_log e (mb_disk fb))"

lemma AppendFallbackTick_ready:
  assumes "os_ok os" "mmap_ready (Suc n) fb" "tick_wf t"
  shows "mmap_ready n (AppendFallbackTick os t fb)
    \<and> mmap_fallback_log (AppendFallbackTick os t fb) = mmap_fallback_log fb @ tick_envelope t"
proof -
  obtain e where e: "mb_fallback fb = Some e" "engine_ready (Suc n) e (mb_disk fb)"
    using assms(2) by (auto simp: mmap_ready_def split: option.splits)
  obtain e' d' where a: "AppendRaw os (tick_envelope t) e (mb_disk fb) = (e', d')" by fastforce
  have "length (tick_envelope t) = 128" using assms(3) by (simp add: tick_envelope_def length_envelope_bytes)
  then have "engine_ready n e' d' \<and> engine_log e' d' = engine_log e (mb_disk fb) @ tick_envelope t"
    using AppendRaw_ok [OF assms(1) _ _ _ _ _ a] e(2) by (auto simp: engine_ready_def)
  then show ?thesis
    using a e(1) assms(3) by (simp add: AppendFallbackTick_def on_fallback_def AppendRecord_AppendRaw mmap_ready_def
        mmap_fallback_log_def tick_envelope_def)
qed

lemma append_fallback_ticks:
  "os_ok os \<Longrightarrow> mmap_ready (length ts + n) fb \<Longrightarrow> \<forall>t\<in>set ts. tick_wf t \<Longrightarrow>
   mmap_ready n (fold (AppendFallbackTick os) ts fb)
   \<and> mmap_fallback_log (fold (AppendFallbackTick os) ts fb) = mmap_fallback_log fb @ concat (map tick_envelope ts)"
proof (induction ts arbitrary: fb)
  case (Cons t ts)
  then show ?case using AppendFallbackTick_ready [of os "length ts + n" fb t] by simp
qed simp

definition fallback_log :: "'s DolphinDBBackend \<Rightarrow> u8 list" where
  "fallback_log b = (case be_fallback b of None \<Rightarrow> [] | Some fb \<Rightarrow> mmap_fallback_log fb)"

text \<open>The fallback is there, or can be created, and has room for \<open>n\<close> more records.\<close>
definition fallback_ready :: "os_env \<Rightarrow> nat \<Rightarrow> 's DolphinDBBackend \<Rightarrow> bool" where
  "fallback_ready os n b \<longleftrightarrow> (be_fallback_once b \<or> be_fallback b = None)
     \<and> (case be_fallback (FallbackRef os b) of None \<Rightarrow> False | Some fb \<Rightarrow> mmap_ready n fb)"

lemma FallbackRef_log:
  assumes "os_ok os" "fallback_ready os n b"
  shows "fallback_log (FallbackRef os b) = fallback_log b"
proof (cases "be_fallback_once b")
  case False
  let ?fb = "(MmapBackend_new (be_disk b))\<lparr>mb_output_root := be_mmap_output_path b\<rparr>"
  have n: "be_fallback b = None" using assms(2) False by (simp add: fallback_ready_def)
  have "mmap_fallback_log (EnsureFallback os ?fb) = []"
    using OpenOrCreate_ok [of os _ "''tick''" kDefaultMaxFileSize "be_disk b"] assms(1)
    by (auto simp: EnsureFallback_def MmapBackend_new_def mmap_fallback_log_def os_ok_def kDefaultMaxFileSize_def
        kHeaderSize_def split: prod.splits bool.splits)
  then show ?thesis using n False by (simp add: FallbackRef_def fallback_log_def)
qed (simp add: FallbackRef_def)

lemma with_fallback_ticks:
  assumes "os_ok os" "fallback_ready os (length ts + n) b" "\<forall>t\<in>set ts. tick_wf t"
  defines "b' \<equiv> with_fallback os (fold (AppendFallbackTick os) ts) b"
  shows "fallback_ready os n b' \<and> fallback_log b' = fallback_log b @ concat (map tick_envelope ts)
    \<and> be_client b' = be_client b \<and> be_reconnecting b' = be_reconnecting b
    \<and> be_tick_buffer_a b' = be_tick_buffer_a b \<and> be_tick_buffer_b b' = be_tick_buffer_b b
    \<and> be_active_buffer b' = be_active_buffer b \<and> be_buffer_size b' = be_buffer_size b"
proof -
  obtain fb where fb: "be_fallback (FallbackRef os b) = Some fb" "mmap_ready (length ts + n) fb"
    using assms(2) by (auto simp: fallback_ready_def split: option.splits)
  have once: "be_fallback_once (FallbackRef os b)" by (simp add: FallbackRef_def)
  have b': "b' = (FallbackRef os b)\<lparr>be_fallback := Some (fold (AppendFallbackTick os) ts fb)\<rparr>"
    using fb(1) by (simp add: b'_def with_fallback_def Let_def)
  have "fallback_log b = mmap_fallback_log fb"
    using FallbackRef_log [OF assms(1,2)] fb(1) by (simp add: fallback_log_def)
  then have "fallback_log b' = fallback_log b @ concat (map tick_envelope ts)" "fallback_ready os n b'"
    using append_fallback_ticks [OF assms(1) fb(2) assms(3)] once
    by (simp_all add: b' fallback_log_def fallback_ready_def FallbackRef_def)
  then show ?thesis by (simp add: b' FallbackRef_def)
qed

section \<open>No trade is lost\<close>

lemma TableInsertTrades_rows:
  assumes "TableInsertTrades env ts c = (ok, c')" "date_cache_inv (dbc_dates c)" "0 \<le> cl_now_s env"
  shows "(\<exists>n. dbc_trades c' = dbc_trades c @ map (trade_table_row_of c) (take n ts) \<and> (ok \<longrightarrow> n = length ts))
    \<and> dbc_registry c' = dbc_registry c \<and> date_cache_inv (dbc_dates c')"
proof -
  have loop: "(\<exists>n. dbc_trades c' = dbc_trades c @ map (trade_table_row_of c) (take n ts) \<and> (ok \<longrightarrow> n = length ts))
      \<and> dbc_registry c' = dbc_registry c \<and> date_cache_inv (dbc_dates c')"
    if "insert_trades env i ts c = (ok, c')" "date_cache_inv (dbc_dates c)" for i ok c'
    using that
  proof (induction ts arbitrary: i c)
    case (Cons t ts)
    obtain v dates where v: "IsValidTradeDate (cl_now_s env) (UsecToDateInt (tick_exchange_timestamp t)) (dbc_dates c) = (v, dates)"
      by fastforce
    then have d: "date_cache_inv dates" using IsValidTradeDate_cached(2) [OF assms(3) Cons.prems(2)] by (metis snd_conv)
    let ?c1 = "c\<lparr>dbc_dates := dates, dbc_trades := dbc_trades c @ [trade_table_row_of c t]\<rparr>"
    have r: "trade_table_row_of ?c1 = trade_table_row_of c"
      by (rule ext) (simp add: trade_table_row_of_def resolve_def)
    show ?case
    proof (cases "v \<and> cl_insert env i")
      case True
      then have "insert_trades env (Suc i) ts ?c1 = (ok, c')" using Cons.prems(1) v by simp
      from Cons.IH [OF this] d obtain n where
        "dbc_trades c' = dbc_trades ?c1 @ map (trade_table_row_of ?c1) (take n ts)" "ok \<longrightarrow> n = length ts"
        "dbc_registry c' = dbc_registry c \<and> date_cache_inv (dbc_dates c')" by auto
      then show ?thesis unfolding r by (intro conjI exI [of _ "Suc n"]) simp_all
    next
      case False
      then show ?thesis using Cons.prems(1) v d by (intro conjI exI [of _ 0]) (auto split: bool.splits if_splits)
    qed
  qed simp
  obtain r c1 where c1: "insert_trades env 0 ts c = (r, c1)" by fastforce
  show ?thesis
    using assms(1,2) loop [OF c1 assms(2)] c1
    by (auto simp: TableInsertTrades_def split: if_splits bool.splits intro: exI [of _ 0])
qed

lemma finish_connect_frame:
  "finish_connect env c = (ok, c') \<Longrightarrow> dbc_trades c' = dbc_trades c \<and> dbc_registry c' = dbc_registry c \<and> dbc_dates c' = dbc_dates c"
  by (auto simp: finish_connect_def client_InitSchema_def InitWriters_def DestroyWriters_def close_and_reset_def Let_def
      split: if_splits prod.splits sum.splits option.splits bool.splits)

lemma Reconnect_frame:
  "Reconnect env c = (ok, c') \<Longrightarrow> dbc_trades c' = dbc_trades c \<and> dbc_registry c' = dbc_registry c \<and> dbc_dates c' = dbc_dates c"
  by (auto simp: Reconnect_def DestroyWriters_def Let_def split: if_splits dest!: finish_connect_frame)

text \<open>The rule a timestamp is accepted by at the wall-clock second \<open>now\<close>.\<close>
definition accepted :: "int \<Rightarrow> u64 \<Rightarrow> bool" where
  "accepted now ts \<longleftrightarrow> kMinValidDate \<le> UsecToDateInt ts \<and> UsecToDateInt ts \<le> max_date_on (now div 86400)"

lemma valid_batch_filter:
  "0 \<le> now \<Longrightarrow> date_cache_inv dates \<Longrightarrow> valid_batch now ts dates = (vs, dates') \<Longrightarrow>
   vs = filter (\<lambda>t. accepted now (tick_exchange_timestamp t)) ts \<and> date_cache_inv dates'"
proof (induction ts arbitrary: dates vs)
  case (Cons t ts)
  have "fst (IsValidExchangeTimestamp now (tick_exchange_timestamp t) dates) \<longleftrightarrow> accepted now (tick_exchange_timestamp t)"
    "date_cache_inv (snd (IsValidExchangeTimestamp now (tick_exchange_timestamp t) dates))"
    using IsValidTradeDate_cached [OF Cons.prems(1,2)] by (simp_all add: IsValidExchangeTimestamp_def accepted_def)
  then show ?case using Cons by (auto split: prod.splits if_splits)
qed simp

text \<open>What holds of a backend between two calls of one thread, with room for \<open>n\<close> fallback records.\<close>
definition backend_ok :: "os_env \<Rightarrow> nat \<Rightarrow> 's DolphinDBBackend \<Rightarrow> bool" where
  "backend_ok os n b \<longleftrightarrow> fallback_ready os n b \<and> \<not> be_reconnecting b \<and> date_cache_inv (dbc_dates (be_client b))"

lemma fallback_ready_cong:
  "be_fallback b' = be_fallback b \<Longrightarrow> be_fallback_once b' = be_fallback_once b \<Longrightarrow>
   be_mmap_output_path b' = be_mmap_output_path b \<Longrightarrow> be_disk b' = be_disk b \<Longrightarrow>
   fallback_ready os n b' = fallback_ready os n b \<and> fallback_log b' = fallback_log b"
  by (simp add: fallback_ready_def FallbackRef_def fallback_log_def)

lemma fallback_ready_le: "fallback_ready os m b \<Longrightarrow> n \<le> m \<Longrightarrow> fallback_ready os n b"
  by (auto simp: fallback_ready_def mmap_ready_def engine_ready_def split: option.splits)

text \<open>Same buffers, same registered channels.\<close>
definition same_frame :: "'s DolphinDBBackend \<Rightarrow> 's DolphinDBBackend \<Rightarrow> bool" where
  "same_frame b b' \<longleftrightarrow> be_tick_buffer_a b' = be_tick_buffer_a b \<and> be_tick_buffer_b b' = be_tick_buffer_b b
     \<and> be_active_buffer b' = be_active_buffer b \<and> be_buffer_size b' = be_buffer_size b
     \<and> dbc_registry (be_client b') = dbc_registry (be_client b)"

text \<open>\<open>rows\<close> went to the database and \<open>recs\<close> to the fallback log between two states.\<close>
definition stored_between :: "'s DolphinDBBackend \<Rightarrow> TickData list \<Rightarrow> TickData list \<Rightarrow> 's DolphinDBBackend \<Rightarrow> bool" where
  "stored_between b rows recs b' \<longleftrightarrow>
     dbc_trades (be_client b') = dbc_trades (be_client b) @ map (trade_table_row_of (be_client b)) rows
   \<and> fallback_log b' = fallback_log b @ concat (map tick_envelope recs)"

lemma insert_batch_stores:
  assumes "os_ok os" "backend_ok os (length ts + n) b" "\<forall>t\<in>set ts. tick_wf t" "bn_os env = os"
    "0 \<le> cl_now_s (bn_first env)"
    and b': "InsertWithFallback env (\<lambda>e. TableInsertTrades e ts)
      (with_fallback os (fold (AppendFallbackTick os) ts)) False b = (ok, b')"
  shows "\<exists>rows recs. stored_between b rows recs b' \<and> set ts = set rows \<union> set recs \<and> backend_ok os n b' \<and> same_frame b b'"
proof -
  obtain ok1 b1 where a: "attempt (TableInsertTrades (bn_first env) ts) b = (ok1, b1)" by fastforce
  obtain k where k: "dbc_trades (be_client b1) = dbc_trades (be_client b) @ map (trade_table_row_of (be_client b)) (take k ts)"
    "ok1 \<longrightarrow> k = length ts" "date_cache_inv (dbc_dates (be_client b1))" "same_frame b b1" "\<not> be_reconnecting b1"
    and r1: "fallback_ready os (length ts + n) b1" "fallback_log b1 = fallback_log b"
  proof (cases "be_degraded b")
    case True
    then show ?thesis using a assms(2) that [of 0] by (auto simp: attempt_def same_frame_def backend_ok_def)
  next
    case False
    then obtain c where c: "TableInsertTrades (bn_first env) ts (be_client b) = (ok1, c)"
      "b1 = b\<lparr>be_client := c, be_degraded := \<not> ok1\<rparr>"
      using a by (auto simp: attempt_def split: prod.splits bool.splits)
    then show ?thesis
      using TableInsertTrades_rows [OF c(1)] assms(2,5) that
        fallback_ready_cong [of b1 b os "length ts + n"] by (auto simp: same_frame_def backend_ok_def)
  qed
  show ?thesis
  proof (cases ok1)
    case True
    then have "b' = b1" using b' a by (simp add: InsertWithFallback_def)
    then show ?thesis
      using k r1 True fallback_ready_le [OF r1(1), of n]
      by (intro exI [of _ ts] exI [of _ "[]"]) (auto simp: stored_between_def backend_ok_def)
  next
    case False
    obtain ok2 b2 where t: "TryReconnect env b1 = (ok2, b2)" by fastforce
    then have f: "dbc_trades (be_client b2) = dbc_trades (be_client b1)" "same_frame b1 b2" "\<not> be_reconnecting b2"
      "dbc_dates (be_client b2) = dbc_dates (be_client b1)"
      "fallback_ready os (length ts + n) b2" "fallback_log b2 = fallback_log b1"
      using k(5) r1(1) fallback_ready_cong [of b2 b1 os "length ts + n"]
      by (auto simp: TryReconnect_def same_frame_def split: prod.splits dest: Reconnect_frame)
    have "b' = with_fallback os (fold (AppendFallbackTick os) ts) b2"
      using b' a t False by (simp add: InsertWithFallback_def)
    then show ?thesis
      using with_fallback_ticks [OF assms(1) f(5) assms(3)] f k r1
      by (intro exI [of _ "take k ts"] exI [of _ ts])
        (use set_take_subset [of k ts] in \<open>auto simp: stored_between_def backend_ok_def same_frame_def\<close>)
  qed
qed

lemma FlushBuffer_stores:
  assumes "os_ok os" "backend_ok os (length ts + n) b" "\<forall>t\<in>set ts. tick_wf t" "bn_os env = os"
    "0 \<le> cl_now_s (bn_first env)"
  shows "\<exists>rows recs. stored_between b rows recs (FlushBuffer env ts b)
    \<and> {t\<in>set ts. accepted (cl_now_s (bn_first env)) (tick_exchange_timestamp t)} = set rows \<union> set recs
    \<and> backend_ok os n (FlushBuffer env ts b) \<and> same_frame b (FlushBuffer env ts b)"
proof -
  obtain vs dates where v: "valid_batch (cl_now_s (bn_first env)) ts (dbc_dates (be_client b)) = (vs, dates)" by fastforce
  have vs: "vs = filter (\<lambda>t. accepted (cl_now_s (bn_first env)) (tick_exchange_timestamp t)) ts" "date_cache_inv dates"
    using valid_batch_filter [OF assms(5) _ v] assms(2) by (simp_all add: backend_ok_def)
  let ?b = "set_dates dates b"
  have c: "fallback_ready os m ?b = fallback_ready os m b \<and> fallback_log ?b = fallback_log b" for m
    by (rule fallback_ready_cong) (simp_all add: set_dates_def)
  have le: "length vs \<le> length ts" using vs(1) by simp
  have e: "{t\<in>set ts. accepted (cl_now_s (bn_first env)) (tick_exchange_timestamp t)} = set vs"
    by (simp only: vs(1) set_filter)
  have ok: "backend_ok os (length vs + n) ?b"
    using assms(2) c vs fallback_ready_le [of os "length ts + n" b "length vs + n"] le
    by (simp add: backend_ok_def set_dates_def)
  have row: "trade_table_row_of (be_client ?b) = trade_table_row_of (be_client b)"
    by (rule ext) (simp add: trade_table_row_of_def resolve_def set_dates_def)
  have sb: "stored_between b rows recs b' \<longleftrightarrow> stored_between ?b rows recs b'" "same_frame b b' \<longleftrightarrow> same_frame ?b b'" for rows recs b'
    unfolding stored_between_def same_frame_def row using c by (simp_all add: set_dates_def)
  show ?thesis
  proof (cases "vs = []")
    case True
    have "stored_between b [] [] b" "stored_between ?b [] [] ?b" "same_frame b b" "same_frame ?b ?b"
      by (simp_all add: stored_between_def same_frame_def)
    moreover have "FlushBuffer env ts b = (if ts = [] then b else ?b)"
      using v True by (simp add: FlushBuffer_def)
    moreover have "{t\<in>set ts. accepted (cl_now_s (bn_first env)) (tick_exchange_timestamp t)} = {}"
      using e True by simp
    moreover have "backend_ok os n ?b" "ts = [] \<longrightarrow> backend_ok os n b" using ok assms(2) True by auto
    ultimately show ?thesis using sb by (intro exI [of _ "[]"]) (cases "ts = []"; simp)
  next
    case False
    then have "ts \<noteq> []" using vs(1) by auto
    obtain r b' where i: "InsertWithFallback env (\<lambda>e. TableInsertTrades e vs)
      (with_fallback os (fold (AppendFallbackTick os) vs)) False ?b = (r, b')" by fastforce
    have wf: "\<forall>t\<in>set vs. tick_wf t" using assms(3) vs(1) by simp
    have "FlushBuffer env ts b = b'" using v False \<open>ts \<noteq> []\<close> i assms(4) by (simp add: FlushBuffer_def)
    then show ?thesis
      using insert_batch_stores [OF assms(1) ok wf assms(4,5) i] unfolding sb e by simp
  qed
qed

text \<open>The buffer not in use is empty.\<close>
definition buffers_ok :: "'s DolphinDBBackend \<Rightarrow> bool" where
  "buffers_ok b \<longleftrightarrow> (be_active_buffer b = 0 \<and> be_tick_buffer_b b = []) \<or> (be_active_buffer b = 1 \<and> be_tick_buffer_a b = [])"

lemma buffer_tick_conserves:
  assumes "buffers_ok b" "buffer_tick env t b = (fl, b1)"
  shows "buffers_ok b1 \<and> (fl = [] \<and> active_ticks b1 = active_ticks b @ [t] \<or> fl = active_ticks b @ [t] \<and> active_ticks b1 = [])
    \<and> be_client b1 = be_client b \<and> be_reconnecting b1 = be_reconnecting b
    \<and> fallback_ready os n b1 = fallback_ready os n b \<and> fallback_log b1 = fallback_log b"
  using assms fallback_ready_cong [of b1 b os n]
  by (auto simp: buffer_tick_def buffers_ok_def active_ticks_def set_active_def Let_def split: if_splits)

lemma same_frame_buffers: "same_frame b b' \<Longrightarrow> buffers_ok b' = buffers_ok b \<and> active_ticks b' = active_ticks b"
  by (simp add: same_frame_def buffers_ok_def active_ticks_def)

fun insert_ticks :: "(('v, 's) backend_env \<times> TickData) list \<Rightarrow> 's DolphinDBBackend \<Rightarrow> 's DolphinDBBackend" where
  "insert_ticks [] b = b"
| "insert_ticks ((env, t) # xs) b = insert_ticks xs (DolphinDBBackend_InsertTick env t b)"

definition calls_ok :: "os_env \<Rightarrow> (('v, 's) backend_env \<times> TickData) list \<Rightarrow> bool" where
  "calls_ok os xs \<longleftrightarrow> (\<forall>(env, t)\<in>set xs. bn_os env = os \<and> 0 \<le> cl_now_s (bn_first env) \<and> tick_wf t)"

lemma stored_between_trans:
  assumes "stored_between b rows recs b1" "stored_between b1 rows' recs' b2"
    "dbc_registry (be_client b1) = dbc_registry (be_client b)"
  shows "stored_between b (rows @ rows') (recs @ recs') b2"
proof -
  have "trade_table_row_of (be_client b1) = trade_table_row_of (be_client b)"
    using assms(3) by (intro ext) (simp add: trade_table_row_of_def resolve_def)
  then show ?thesis using assms(1,2) by (simp add: stored_between_def)
qed

lemma InsertTick_stores:
  assumes "os_ok os" "buffers_ok b" "backend_ok os (length (active_ticks b) + Suc n) b" "\<forall>t\<in>set (active_ticks b). tick_wf t"
    "bn_os env = os" "0 \<le> cl_now_s (bn_first env)" "tick_wf t"
  defines "b' \<equiv> DolphinDBBackend_InsertTick env t b"
  shows "\<exists>rows recs. stored_between b rows recs b' \<and> buffers_ok b' \<and> backend_ok os (length (active_ticks b') + n) b'
    \<and> {x \<in> insert t (set (active_ticks b)). accepted (cl_now_s (bn_first env)) (tick_exchange_timestamp x)}
        \<subseteq> set rows \<union> set recs \<union> set (active_ticks b')
    \<and> set (active_ticks b') \<subseteq> insert t (set (active_ticks b))
    \<and> dbc_registry (be_client b') = dbc_registry (be_client b)"
proof -
  obtain fl b1 where f: "buffer_tick env t b = (fl, b1)" by fastforce
  note bt = buffer_tick_conserves [OF assms(2) f, of os]
  have ok1: "backend_ok os m b1 = backend_ok os m b" for m using bt by (simp add: backend_ok_def)
  have sb: "stored_between b rows recs x \<longleftrightarrow> stored_between b1 rows recs x" for rows recs x
    using bt by (simp add: stored_between_def)
  show ?thesis
  proof (cases "fl = []")
    case True
    then have "b' = b1" "active_ticks b1 = active_ticks b @ [t]" using f bt by (auto simp: b'_def DolphinDBBackend_InsertTick_def)
    moreover have "stored_between b [] [] b1" using bt by (simp add: stored_between_def)
    ultimately show ?thesis using bt ok1 assms(3) by (intro exI [of _ "[]"]) auto
  next
    case False
    then have fl: "fl = active_ticks b @ [t]" "active_ticks b1 = []" and b': "b' = FlushBuffer env fl b1"
      using f bt by (auto simp: b'_def DolphinDBBackend_InsertTick_def)
    have p: "backend_ok os (length fl + n) b1" "\<forall>x\<in>set fl. tick_wf x" using ok1 assms(3,4,7) fl by auto
    obtain rows recs where r: "stored_between b1 rows recs b'"
      "{t\<in>set fl. accepted (cl_now_s (bn_first env)) (tick_exchange_timestamp t)} = set rows \<union> set recs"
      "backend_ok os n b'" "same_frame b1 b'"
      using FlushBuffer_stores [OF assms(1) p assms(5,6)] unfolding b' by blast
    then show ?thesis
      using same_frame_buffers [OF r(4)] fl bt
      by (intro exI [of _ rows] exI [of _ recs]) (auto simp: sb same_frame_def)
  qed
qed


definition sample_backend :: "(bool \<times> bool) DolphinDBBackend" where
  "sample_backend = (DolphinDBBackend_new (True, True) Map.empty)\<lparr>be_mmap_output_path := ''m'', be_buffer_size := 1\<rparr>"

definition recent_tick :: TickData where
  "recent_tick = tick_zero\<lparr>tick_exchange_timestamp := 1700000000000000\<rparr>"

text \<open>A database that cannot be reached.\<close>
definition down_env :: "(bool, bool \<times> bool) backend_env" where
  "down_env = \<lparr>bn_first = env_fine, bn_reconnect = env_fine\<lparr>cl_connect := None\<rparr>, bn_retry = env_fine, bn_wait = None,
     bn_os = os_fine, bn_now_ns = 0, bn_later_ns = 0\<rparr>"

lemma sample_accepted: "accepted 1700000000 1700000000000000"
  by code_simp

lemma sample_backend_ok: "backend_ok os_fine 1 sample_backend"
proof -
  let ?fb = "(MmapBackend_new Map.empty)\<lparr>mb_output_root := ''m''\<rparr>"
  obtain e d where o: "OpenOrCreate os_fine ''m/degraded/'' ''tick'' (MmapStorageEngine_new kDefaultMaxFileSize) Map.empty = (True, e, d)"
    by (simp add: OpenOrCreate_def EnsureDirExists_def EnsureTrailingSlash_def os_fine_def Let_def
        open_and_map_def MmapStorageEngine_new_def)
  have "engine_ready 1 e d"
    using OpenOrCreate_ok [OF o] by (simp add: engine_ready_def short_names_def os_fine_def kHeaderSize_def
        kDefaultMaxFileSize_def EnsureTrailingSlash_def)
  moreover have "EnsureFallback os_fine ?fb = ?fb\<lparr>mb_fallback := Some e, mb_disk := d\<rparr>"
    by (simp add: EnsureFallback_def MmapBackend_new_def JoinPath_def EnsureTrailingSlash_def o)
  ultimately have "fallback_ready os_fine 1 sample_backend"
    by (simp add: fallback_ready_def FallbackRef_def sample_backend_def DolphinDBBackend_new_def mmap_ready_def)
  then show ?thesis
    by (simp add: backend_ok_def sample_backend_def DolphinDBBackend_new_def DolphinDBClient_new_def date_cache_inv_def
        date_cache_init_def)
qed


end
