(* ===== verification/Storage_Router.thy ===== *)
theory Storage_Router
  imports Dolphindb_Backend
begin

text \<open>
  The storage facade (\<open>src/storage/storage_router.cpp\<close>) and the backend factory
  (\<open>src/storage/storage_backend_factory.cpp\<close>). The polymorphic backend is a datatype with one
  constructor per class; a virtual call is a case distinction. The two persistence flags are checked
  at registration only.
\<close>

section \<open>Backend selection\<close>

datatype 's IStorageBackend = BCsv CsvBackend | BMmap MmapBackend | BDolphinDB "'s DolphinDBBackend"

text \<open>What the environment answers during a call: file system, database, and the printing of a double.\<close>
record ('v, 's) router_env =
  rn_double :: "double \<Rightarrow> string"
  rn_csv :: csv_env
  rn_os :: os_env
  rn_db :: "('v, 's) backend_env"
  rn_close_db :: "('v, 's) backend_env"
  rn_ndebug :: bool

definition MakeBackend ::
  "('v, 's) router_env \<Rightarrow> 's \<Rightarrow> disk \<Rightarrow> text_disk \<Rightarrow> StorageConfig \<Rightarrow> 's IStorageBackend" where
  "MakeBackend env server d td cfg =
     (if sc_use_engine cfg = ''mmap''
      then BMmap ((MmapBackend_new d)\<lparr>mb_output_root := mc_output_path (sc_mmap cfg)\<rparr>)
      else if sc_use_engine cfg = ''dolphindb''
      then let dd = sc_dolphindb cfg
           in BDolphinDB (Configure (bn_first (rn_db env)) (dc_host dd) (dc_port dd) (dc_user dd) (dc_password dd)
                (dc_buffer_size dd) (ucast (dc_flush_interval_ms dd) * 1000000) (mc_output_path (sc_mmap cfg))
                (DolphinDBBackend_new server d))
      else BCsv \<lparr>cb_output_root = cc_output_path (sc_csv cfg), cb_writers = Map.empty, cb_disk = td\<rparr>)"

record 's StorageRouter =
  sr_persist_to_disk :: bool
  sr_backend :: "'s IStorageBackend"

definition StorageRouter_new ::
  "('v, 's) router_env \<Rightarrow> 's \<Rightarrow> disk \<Rightarrow> text_disk \<Rightarrow> StorageConfig \<Rightarrow> 's StorageRouter" where
  "StorageRouter_new env server d td cfg =
     \<lparr>sr_persist_to_disk = sc_persist_to_disk cfg, sr_backend = MakeBackend env server d td cfg\<rparr>"

section \<open>Operations\<close>

text \<open>\<open>None\<close> when the registry's debug assertion against late registration fails.\<close>
fun backend_RegisterChannel ::
  "('v, 's) router_env \<Rightarrow> u32 \<Rightarrow> string \<Rightarrow> string \<Rightarrow> string \<Rightarrow> u32 \<Rightarrow> 's IStorageBackend \<Rightarrow> 's IStorageBackend option" where
  "backend_RegisterChannel env i e m s dl (BCsv b) = Some (BCsv (CsvBackend_RegisterChannel (rn_csv env) i e m s dl b))"
| "backend_RegisterChannel env i e m s dl (BMmap b) = Some (BMmap (MmapBackend_RegisterChannel (rn_os env) i e m s dl b))"
| "backend_RegisterChannel env i e m s dl (BDolphinDB b) =
     map_option BDolphinDB (DolphinDBBackend_RegisterChannel (rn_ndebug env) i e m s dl b)"

definition StorageRouter_RegisterChannel ::
  "('v, 's) router_env \<Rightarrow> u32 \<Rightarrow> ChannelInfo \<Rightarrow> bool \<Rightarrow> 's StorageRouter \<Rightarrow> 's StorageRouter option" where
  "StorageRouter_RegisterChannel env channel_id info persist_to_disk r =
     (if \<not> sr_persist_to_disk r \<or> \<not> persist_to_disk then Some r
      else map_option (\<lambda>b. r\<lparr>sr_backend := b\<rparr>)
             (backend_RegisterChannel env channel_id (ci_exchange info) (ChannelTypeName (ci_type info)) (ci_symbol info)
                (ci_depth_level info) (sr_backend r)))"

fun backend_FreezeChannels :: "'s IStorageBackend \<Rightarrow> 's IStorageBackend" where
  "backend_FreezeChannels (BDolphinDB b) = BDolphinDB (DolphinDBBackend_FreezeChannels b)"
| "backend_FreezeChannels b = b"

definition StorageRouter_FreezeChannels :: "'s StorageRouter \<Rightarrow> 's StorageRouter" where
  "StorageRouter_FreezeChannels r = r\<lparr>sr_backend := backend_FreezeChannels (sr_backend r)\<rparr>"

fun dolphindb_insert :: "('v, 's) backend_env \<Rightarrow> storage_event \<Rightarrow> 's DolphinDBBackend \<Rightarrow> 's DolphinDBBackend" where
  "dolphindb_insert env (SE_Tick t) = DolphinDBBackend_InsertTick env t"
| "dolphindb_insert env (SE_Orderbook e l dl) = DolphinDBBackend_InsertOrderbook env e l dl"
| "dolphindb_insert env (SE_BookTicker e) = DolphinDBBackend_InsertBookTicker env e"

text \<open>The three virtual insert calls.\<close>
fun backend_insert :: "('v, 's) router_env \<Rightarrow> storage_event \<Rightarrow> 's IStorageBackend \<Rightarrow> 's IStorageBackend" where
  "backend_insert env ev (BCsv b) = BCsv (csv_insert (rn_double env) (rn_csv env) ev b)"
| "backend_insert env ev (BMmap b) = BMmap (mmap_insert (rn_os env) ev b)"
| "backend_insert env ev (BDolphinDB b) = BDolphinDB (dolphindb_insert (rn_db env) ev b)"

definition RouteTick :: "('v, 's) router_env \<Rightarrow> TickData \<Rightarrow> ChannelInfo \<Rightarrow> 's StorageRouter \<Rightarrow> 's StorageRouter" where
  "RouteTick env tick info r = r\<lparr>sr_backend := backend_insert env (SE_Tick tick) (sr_backend r)\<rparr>"

definition RouteOrderbook ::
  "('v, 's) router_env \<Rightarrow> DepthUpdateEvent \<Rightarrow> u64 \<Rightarrow> ChannelInfo \<Rightarrow> 's StorageRouter \<Rightarrow> 's StorageRouter" where
  "RouteOrderbook env event local_ts info r =
     r\<lparr>sr_backend := backend_insert env (SE_Orderbook event local_ts (ci_depth_level info)) (sr_backend r)\<rparr>"

definition RouteBookTicker :: "('v, 's) router_env \<Rightarrow> BookTickerEvent \<Rightarrow> ChannelInfo \<Rightarrow> 's StorageRouter \<Rightarrow> 's StorageRouter" where
  "RouteBookTicker env event info r = r\<lparr>sr_backend := backend_insert env (SE_BookTicker event) (sr_backend r)\<rparr>"

fun backend_FlushAndClose :: "('v, 's) router_env \<Rightarrow> 's IStorageBackend \<Rightarrow> 's IStorageBackend" where
  "backend_FlushAndClose env (BCsv b) = BCsv (CsvBackend_FlushAndClose b)"
| "backend_FlushAndClose env (BMmap b) = BMmap (MmapBackend_FlushAndClose b)"
| "backend_FlushAndClose env (BDolphinDB b) = BDolphinDB (DolphinDBBackend_FlushAndClose (rn_db env) (rn_close_db env) b)"

definition StorageRouter_FlushAndClose :: "('v, 's) router_env \<Rightarrow> 's StorageRouter \<Rightarrow> 's StorageRouter" where
  "StorageRouter_FlushAndClose env r = r\<lparr>sr_backend := backend_FlushAndClose env (sr_backend r)\<rparr>"

section \<open>Persistence flags\<close>

text \<open>Registrations in order, each with its channel, its information and its persistence flag.\<close>
fun register_all ::
  "('v, 's) router_env \<Rightarrow> (u32 \<times> ChannelInfo \<times> bool) list \<Rightarrow> 's StorageRouter \<Rightarrow> 's StorageRouter option" where
  "register_all env [] r = Some r"
| "register_all env ((c, info, p) # rest) r =
     Option.bind (StorageRouter_RegisterChannel env c info p r) (register_all env rest)"

text \<open>The channels a file backend stores.\<close>
fun file_backend_known :: "'s IStorageBackend \<Rightarrow> u32 \<Rightarrow> bool" where
  "file_backend_known (BCsv b) c = csv_known b c"
| "file_backend_known (BMmap b) c = mmap_known b c"
| "file_backend_known (BDolphinDB b) c = True"

fun is_file_backend :: "'s IStorageBackend \<Rightarrow> bool" where
  "is_file_backend (BDolphinDB b) = False"
| "is_file_backend _ = True"

fun route_all :: "(('v, 's) router_env \<times> storage_event) list \<Rightarrow> 's IStorageBackend \<Rightarrow> 's IStorageBackend" where
  "route_all [] b = b"
| "route_all ((env, ev) # rest) b = route_all rest (backend_insert env ev b)"

lemma register_known:
  assumes "StorageRouter_RegisterChannel env c info p r = Some r'" "is_file_backend (sr_backend r)"
    "c' \<noteq> c \<or> \<not> p"
  shows "is_file_backend (sr_backend r') \<and> (file_backend_known (sr_backend r') c' \<longrightarrow> file_backend_known (sr_backend r) c')"
  using assms csv.reg_known mmap.reg_known
  by (cases "sr_backend r") (fastforce simp: StorageRouter_RegisterChannel_def split: if_splits)+

lemma register_all_known:
  "register_all env regs r = Some r' \<Longrightarrow> is_file_backend (sr_backend r) \<Longrightarrow> \<forall>(c', info, p)\<in>set regs. c' = c \<longrightarrow> \<not> p \<Longrightarrow>
   is_file_backend (sr_backend r') \<and> (file_backend_known (sr_backend r') c \<longrightarrow> file_backend_known (sr_backend r) c)"
proof (induction regs arbitrary: r)
  case (Cons x regs)
  obtain d info p where x: "x = (d, info, p)" by (cases x)
  obtain r1 where r1: "StorageRouter_RegisterChannel env d info p r = Some r1" "register_all env regs r1 = Some r'"
    using Cons.prems(1) by (auto simp: x Option.bind_eq_Some_conv)
  show ?case
    using register_known [OF r1(1) Cons.prems(2), of c] Cons.IH [OF r1(2)] Cons.prems(3) by (auto simp: x)
qed simp

lemma file_insert_laws:
  assumes "is_file_backend b"
  shows "is_file_backend (backend_insert env ev b)"
    "file_backend_known (backend_insert env ev b) c \<longleftrightarrow> file_backend_known b c"
    "\<not> file_backend_known b (event_channel ev) \<Longrightarrow> backend_insert env ev b = b"
  using assms csv.ins_known csv.ins_unknown mmap.ins_known mmap.ins_unknown by (cases b; simp)+

lemma route_all_unknown:
  "is_file_backend b \<Longrightarrow> \<not> file_backend_known b c \<Longrightarrow>
   route_all xs b = route_all (filter (\<lambda>x. event_channel (snd x) \<noteq> c) xs) b"
proof (induction xs arbitrary: b)
  case (Cons x xs)
  obtain env ev where x: "x = (env, ev)" by fastforce
  show ?case
    using Cons.IH [of "backend_insert env ev b"] Cons.IH [of b] Cons.prems
      file_insert_laws [OF Cons.prems(1), where env = env and ev = ev] by (auto simp: x)
qed simp

text \<open>
  C32: With a file engine, the persistence flags hold to the end. Starting from a router made from any
  configuration that does not select the database, a channel that is only ever registered with its
  persistence flag off leaves no trace in storage: routing any sequence of events has the same effect
  as routing the sequence without that channel's events.
\<close>
theorem unpersisted_channel_not_stored:
  assumes "sc_use_engine cfg \<noteq> ''dolphindb''" "register_all env regs (StorageRouter_new env server d td cfg) = Some r"
    "\<forall>(c', info, p)\<in>set regs. c' = c \<longrightarrow> \<not> p"
  shows "route_all xs (sr_backend r) = route_all (filter (\<lambda>x. event_channel (snd x) \<noteq> c) xs) (sr_backend r)"
proof -
  let ?r0 = "StorageRouter_new env server d td cfg"
  have "is_file_backend (sr_backend ?r0)" "\<not> file_backend_known (sr_backend ?r0) c"
    using assms(1) by (simp_all add: StorageRouter_new_def MakeBackend_def csv_known_def mmap_known_def MmapBackend_new_def)
  then have "is_file_backend (sr_backend r)" "\<not> file_backend_known (sr_backend r) c"
    using register_all_known [OF assms(2) _ assms(3)] by simp_all
  then show ?thesis by (rule route_all_unknown)
qed

definition router_info :: ChannelInfo where
  "router_info = \<lparr>ci_id = 7, ci_exchange = ''binance'', ci_type = Spot, ci_symbol = ''BTCUSDT'', ci_depth_level = 5,
     ci_topic_prefix = ''binance:spot:BTCUSDT''\<rparr>"

definition sample_router_env :: "(bool, bool \<times> bool) router_env" where
  "sample_router_env = \<lparr>rn_double = (\<lambda>_. ''0''), rn_csv = \<lparr>ce_mkdir = (\<lambda>_. MkdirOk), ce_opens = (\<lambda>_. True)\<rparr>,
     rn_os = os_fine, rn_db = down_env, rn_close_db = down_env, rn_ndebug = True\<rparr>"

theorem unpersisted_channel_not_stored_witness:
  "route_all [(sample_router_env, SE_Tick (tick_zero\<lparr>tick_channel_id := 7\<rparr>))]
     (sr_backend (StorageRouter_new sample_router_env (True, True) Map.empty Map.empty default_storage)) =
   sr_backend (StorageRouter_new sample_router_env (True, True) Map.empty Map.empty default_storage)"
proof -
  let ?r = "StorageRouter_new sample_router_env (True, True) Map.empty Map.empty default_storage"
  show ?thesis
    using unpersisted_channel_not_stored [of default_storage sample_router_env "[(7, router_info, False)]" "(True, True)"
        Map.empty Map.empty ?r 7 "[(sample_router_env, SE_Tick (tick_zero\<lparr>tick_channel_id := 7\<rparr>))]"]
    by (simp add: default_storage_def StorageRouter_RegisterChannel_def)
qed

text \<open>
  With the database engine the flags do not stop an event: a ticker of a channel that was never
  registered, which is what a persistence flag that is off leads to, is handed to the database as
  soon as the client is connected, as a row with empty exchange and market type.
\<close>
theorem dolphindb_stores_unregistered:
  assumes "dbc_connected (be_client b)" "dbc_bt_writer (be_client b)" "\<not> be_degraded b"
    "Find (dbc_registry (be_client b)) (bt_channel_id e) = None" "date_cache_inv (dbc_dates (be_client b))"
    "0 \<le> cl_now_s (bn_first (rn_db env))" "accepted (cl_now_s (bn_first (rn_db env))) (bt_exchange_timestamp e)"
    "cl_insert (bn_first (rn_db env)) 0"
  shows "\<exists>b' row. backend_insert env (SE_BookTicker e) (BDolphinDB b) = BDolphinDB b'
    \<and> dbc_booktickers (be_client b') = dbc_booktickers (be_client b) @ [row]
    \<and> bo_exchange row = [] \<and> bo_market_type row = [] \<and> bo_symbol row = c_str (bt_symbol e)"
proof -
  let ?now = "cl_now_s (bn_first (rn_db env))" and ?date = "UsecToDateInt (bt_exchange_timestamp e)"
  obtain d1 where d1: "IsValidTradeDate ?now ?date (dbc_dates (be_client b)) = (True, d1)" "date_cache_inv d1"
    using IsValidTradeDate_cached [OF assms(6,5), of ?date] assms(7)
    by (cases "IsValidTradeDate ?now ?date (dbc_dates (be_client b))") (auto simp: accepted_def)
  obtain d2 where d2: "IsValidTradeDate ?now ?date d1 = (True, d2)"
    using IsValidTradeDate_cached [OF assms(6) d1(2), of ?date] assms(7)
    by (cases "IsValidTradeDate ?now ?date d1") (auto simp: accepted_def)
  show ?thesis
    using assms d1 d2 by (simp add: DolphinDBBackend_InsertBookTicker_def IsValidExchangeTimestamp_def
        InsertWithFallback_def attempt_def set_dates_def TableInsertBookTicker_def bookticker_table_row_of_def resolve_def)
qed

definition up_backend :: "(bool \<times> bool) DolphinDBBackend" where
  "up_backend = sample_backend\<lparr>be_client := (DolphinDBClient_new (True, True))\<lparr>dbc_connected := True, dbc_bt_writer := True\<rparr>\<rparr>"

theorem dolphindb_stores_unregistered_witness:
  "\<exists>b' row. backend_insert sample_router_env
       (SE_BookTicker (book_ticker_zero\<lparr>bt_exchange_timestamp := 1700000000000000\<rparr>)) (BDolphinDB up_backend) = BDolphinDB b'
     \<and> dbc_booktickers (be_client b') = [row] \<and> bo_exchange row = []"
proof -
  have b: "dbc_connected (be_client up_backend)" "dbc_bt_writer (be_client up_backend)" "\<not> be_degraded up_backend"
    "Find (dbc_registry (be_client up_backend)) c = None" "date_cache_inv (dbc_dates (be_client up_backend))"
    "dbc_booktickers (be_client up_backend) = []" for c
    by (simp_all add: up_backend_def sample_backend_def DolphinDBBackend_new_def DolphinDBClient_new_def
        StorageChannelRegistry_new_def Find_def date_cache_inv_def date_cache_init_def)
  have e: "bn_first (rn_db sample_router_env) = env_fine" by (simp add: sample_router_env_def down_env_def)
  show ?thesis
    using dolphindb_stores_unregistered [OF b(1-3), of "book_ticker_zero\<lparr>bt_exchange_timestamp := 1700000000000000\<rparr>"
        sample_router_env] b(4-6) sample_accepted by (auto simp: e)
qed

end
