(* ===== verification/Pub_Worker.thy ===== *)
theory Pub_Worker
  imports Spsc_Queue Byte_Layout Channel_Registry
begin

text \<open>
  The publisher (\<open>src/pubsub/\<close>): per-shard SPSC queues filled by the parser threads, the serializers,
  the buffer pool that hands out zero-copy payload buffers, and the round-robin dispatch loop of the
  publishing thread. ZeroMQ is a parameter: the result of each of the two \<open>send\<close> calls, and which
  buffers it has finished with. A payload frame is not copied, so what reaches the wire is what the
  buffer holds when ZeroMQ is done with it. Exceptions thrown by a socket in a failed state are not
  modelled.
\<close>

section \<open>Messages\<close>

datatype PubMsgType = kTick | kDepth | kBookTicker

fun tag_byte :: "PubMsgType \<Rightarrow> u8" where
  "tag_byte kTick = 1"
| "tag_byte kDepth = 2"
| "tag_byte kBookTicker = 3"

definition kMaxPayloadSize :: nat where
  "kMaxPayloadSize = 3256 + 1"

definition kMaxTopicLen :: nat where
  "kMaxTopicLen = 64"

text \<open>The items of the three queues of a shard.\<close>
datatype pub_event = PE_Tick TickData | PE_Depth DepthUpdateEvent | PE_BookTicker BookTickerEvent

fun pe_type :: "pub_event \<Rightarrow> PubMsgType" where
  "pe_type (PE_Tick _) = kTick"
| "pe_type (PE_Depth _) = kDepth"
| "pe_type (PE_BookTicker _) = kBookTicker"

fun pe_channel :: "pub_event \<Rightarrow> u32" where
  "pe_channel (PE_Tick t) = tick_channel_id t"
| "pe_channel (PE_Depth e) = dep_channel_id e"
| "pe_channel (PE_BookTicker e) = bt_channel_id e"

text \<open>The \<open>event_suffix\<close> arguments of \<open>TrySendOne\<close>.\<close>
fun pe_suffix :: "pub_event \<Rightarrow> string" where
  "pe_suffix (PE_Tick _) = ''tick''"
| "pe_suffix (PE_Depth _) = ''depth''"
| "pe_suffix (PE_BookTicker _) = ''book_ticker''"

text \<open>What the object's padding bytes hold: of a trade, and the two gaps of the other two.\<close>
record pads =
  pad_tick :: "u8 list"
  pad_first :: "u8 list"
  pad_second :: "u8 list"

definition pads_ok :: "pads \<Rightarrow> bool" where
  "pads_ok p \<longleftrightarrow> length (pad_tick p) = 7 \<and> length (pad_first p) = 4 \<and> length (pad_second p) = 4"

fun pe_bytes :: "pads \<Rightarrow> pub_event \<Rightarrow> u8 list" where
  "pe_bytes p (PE_Tick t) = tick_bytes (pad_tick p) t"
| "pe_bytes p (PE_Depth e) = depth_bytes (pad_first p) (pad_second p) e"
| "pe_bytes p (PE_BookTicker e) = book_ticker_bytes (pad_first p) (pad_second p) e"

text \<open>\<open>wire_size\<close> is the length of the result.\<close>
definition serialize :: "pads \<Rightarrow> pub_event \<Rightarrow> u8 list" where
  "serialize p e = tag_byte (pe_type e) # pe_bytes p e"

section \<open>State\<close>

record ShardQueues =
  shq_tick :: "TickData SPSCQueue"
  shq_depth :: "DepthUpdateEvent SPSCQueue"
  shq_book_ticker :: "BookTickerEvent SPSCQueue"

definition ShardQueues_new :: ShardQueues where
  "ShardQueues_new = \<lparr>shq_tick = spsc_new tick_zero 12, shq_depth = spsc_new depth_zero 12,
     shq_book_ticker = spsc_new book_ticker_zero 12\<rparr>"

record Slot =
  sl_data :: "u8 list"
  sl_in_use :: bool

definition kPoolSize :: nat where
  "kPoolSize = 64"

record ZmqBufferPool =
  zp_pool :: "Slot list"
  zp_next :: u64

definition ZmqBufferPool_new :: ZmqBufferPool where
  "ZmqBufferPool_new = \<lparr>zp_pool = replicate kPoolSize \<lparr>sl_data = replicate kMaxPayloadSize 0, sl_in_use = False\<rparr>, zp_next = 0\<rparr>"

text \<open>A message ZeroMQ has accepted and not yet finished with: it refers to its payload buffer.\<close>
record flight =
  fl_topic :: string
  fl_slot :: nat
  fl_size :: nat

text \<open>\<open>pw_wire\<close>: the messages that left, oldest first. \<open>pw_sends\<close> numbers the calls of \<open>SendTyped\<close>.\<close>
record PubWorker =
  pw_shards :: "ShardQueues list"
  pw_pool :: ZmqBufferPool
  pw_dropped_queue :: u64
  pw_dropped_buffer :: u64
  pw_dropped_hwm :: u64
  pw_flight :: "flight list"
  pw_wire :: "(string \<times> u8 list) list"
  pw_sends :: nat

definition PubWorker_new :: "nat \<Rightarrow> PubWorker" where
  "PubWorker_new num_shards =
     \<lparr>pw_shards = replicate num_shards ShardQueues_new, pw_pool = ZmqBufferPool_new, pw_dropped_queue = 0,
      pw_dropped_buffer = 0, pw_dropped_hwm = 0, pw_flight = [], pw_wire = [], pw_sends = 0\<rparr>"

definition dropped_count :: "PubWorker \<Rightarrow> u64" where
  "dropped_count w = pw_dropped_queue w + pw_dropped_buffer w + pw_dropped_hwm w"

section \<open>Buffer pool\<close>

fun acquire_loop :: "nat \<Rightarrow> ZmqBufferPool \<Rightarrow> nat option \<times> ZmqBufferPool" where
  "acquire_loop 0 p = (None, p)"
| "acquire_loop (Suc attempts) p =
     (let idx = unat (zp_next p) mod kPoolSize; p1 = p\<lparr>zp_next := zp_next p + 1\<rparr>
      in if sl_in_use (zp_pool p1 ! idx) then acquire_loop attempts p1
         else (Some idx, p1\<lparr>zp_pool := (zp_pool p1)[idx := (zp_pool p1 ! idx)\<lparr>sl_in_use := True\<rparr>]\<rparr>))"

definition Acquire :: "ZmqBufferPool \<Rightarrow> nat option \<times> ZmqBufferPool" where
  "Acquire p = acquire_loop kPoolSize p"

definition Release :: "nat \<Rightarrow> ZmqBufferPool \<Rightarrow> ZmqBufferPool" where
  "Release slot p = p\<lparr>zp_pool := (zp_pool p)[slot := (zp_pool p ! slot)\<lparr>sl_in_use := False\<rparr>]\<rparr>"

text \<open>\<open>serialize(slot->data, data)\<close>: overwrites the front of the buffer.\<close>
definition fill_slot :: "nat \<Rightarrow> u8 list \<Rightarrow> ZmqBufferPool \<Rightarrow> ZmqBufferPool" where
  "fill_slot slot bs p =
     p\<lparr>zp_pool := (zp_pool p)[slot := (zp_pool p ! slot)\<lparr>sl_data := bs @ drop (length bs) (sl_data (zp_pool p ! slot))\<rparr>]\<rparr>"

text \<open>ZeroMQ has finished with the buffers in \<open>P\<close>: their payloads are out and the callback releases them.\<close>
definition zmq_finish :: "(nat \<Rightarrow> bool) \<Rightarrow> PubWorker \<Rightarrow> PubWorker" where
  "zmq_finish P w =
     (let out = filter (\<lambda>f. P (fl_slot f)) (pw_flight w)
      in w\<lparr>pw_flight := filter (\<lambda>f. \<not> P (fl_slot f)) (pw_flight w),
           pw_wire := pw_wire w @ map (\<lambda>f. (fl_topic f, take (fl_size f) (sl_data (zp_pool (pw_pool w) ! fl_slot f)))) out,
           pw_pool := fold (\<lambda>f. Release (fl_slot f)) out (pw_pool w)\<rparr>)"

section \<open>Publishing and sending\<close>

definition count_drop :: "bool \<Rightarrow> PubWorker \<Rightarrow> PubWorker" where
  "count_drop pushed w = (if pushed then w else w\<lparr>pw_dropped_queue := pw_dropped_queue w + 1\<rparr>)"

definition PublishTick :: "TickData \<Rightarrow> nat \<Rightarrow> PubWorker \<Rightarrow> PubWorker" where
  "PublishTick tick shard w =
     (if length (pw_shards w) \<le> shard then w
      else case try_push tick (shq_tick (pw_shards w ! shard)) of
        (pushed, q) \<Rightarrow> count_drop pushed (w\<lparr>pw_shards := (pw_shards w)[shard := (pw_shards w ! shard)\<lparr>shq_tick := q\<rparr>]\<rparr>))"

definition PublishDepth :: "DepthUpdateEvent \<Rightarrow> nat \<Rightarrow> PubWorker \<Rightarrow> PubWorker" where
  "PublishDepth depth shard w =
     (if length (pw_shards w) \<le> shard then w
      else case try_push depth (shq_depth (pw_shards w ! shard)) of
        (pushed, q) \<Rightarrow> count_drop pushed (w\<lparr>pw_shards := (pw_shards w)[shard := (pw_shards w ! shard)\<lparr>shq_depth := q\<rparr>]\<rparr>))"

definition PublishBookTicker :: "BookTickerEvent \<Rightarrow> nat \<Rightarrow> PubWorker \<Rightarrow> PubWorker" where
  "PublishBookTicker bt shard w =
     (if length (pw_shards w) \<le> shard then w
      else case try_push bt (shq_book_ticker (pw_shards w ! shard)) of
        (pushed, q) \<Rightarrow> count_drop pushed (w\<lparr>pw_shards := (pw_shards w)[shard := (pw_shards w ! shard)\<lparr>shq_book_ticker := q\<rparr>]\<rparr>))"

fun publish_event :: "pub_event \<Rightarrow> nat \<Rightarrow> PubWorker \<Rightarrow> PubWorker" where
  "publish_event (PE_Tick t) = PublishTick t"
| "publish_event (PE_Depth e) = PublishDepth e"
| "publish_event (PE_BookTicker e) = PublishBookTicker e"

text \<open>
  \<open>ze_finished n\<close>: the buffers ZeroMQ finishes with before the \<open>n\<close>-th call of \<open>SendTyped\<close>;
  \<open>ze_send n\<close>: what the topic frame's and the payload frame's \<open>send\<close> of that call return.
\<close>
record zmq_env =
  ze_finished :: "nat \<Rightarrow> nat \<Rightarrow> bool"
  ze_send :: "nat \<Rightarrow> bool \<times> bool"
  ze_pads :: pads

definition topic_text :: "ChannelInfo \<Rightarrow> pub_event \<Rightarrow> string" where
  "topic_text info e = c_str (ci_topic_prefix info) @ '':'' @ pe_suffix e"

text \<open>A frame that is not accepted is destroyed on return, which runs the release callback.\<close>
definition SendTyped :: "zmq_env \<Rightarrow> ChannelRegistry \<Rightarrow> pub_event \<Rightarrow> PubWorker \<Rightarrow> bool \<times> PubWorker" where
  "SendTyped env reg e w0 =
     (let n = pw_sends w0; w = (zmq_finish (ze_finished env n) w0)\<lparr>pw_sends := Suc n\<rparr>
      in case ChannelRegistry_Lookup reg (pe_channel e) of
           None \<Rightarrow> (False, w)
         | Some info \<Rightarrow>
             if ci_topic_prefix info = [] then (False, w)
             else if kMaxTopicLen \<le> length (topic_text info e) then (False, w)
             else case Acquire (pw_pool w) of
                 (None, p) \<Rightarrow> (False, w\<lparr>pw_pool := p, pw_dropped_buffer := pw_dropped_buffer w + 1\<rparr>)
               | (Some slot, p) \<Rightarrow>
                   let bs = serialize (ze_pads env) e; p1 = fill_slot slot bs p
                   in if \<not> fst (ze_send env n)
                      then (False, w\<lparr>pw_pool := Release slot p1, pw_dropped_hwm := pw_dropped_hwm w + 1\<rparr>)
                      else if \<not> snd (ze_send env n)
                      then (False, w\<lparr>pw_pool := Release slot p1, pw_dropped_hwm := pw_dropped_hwm w + 1\<rparr>)
                      else (True, w\<lparr>pw_pool := p1, pw_flight := pw_flight w @
                              [\<lparr>fl_topic = topic_text info e, fl_slot = slot, fl_size = length bs\<rparr>]\<rparr>))"

section \<open>Dispatch\<close>

text \<open>The pop of \<open>TrySendOne\<close>.\<close>
definition pop_event :: "nat \<Rightarrow> nat \<Rightarrow> PubWorker \<Rightarrow> (pub_event \<times> PubWorker) option" where
  "pop_event shard queue_type w =
     (let s = pw_shards w ! shard; set_shard = (\<lambda>s'. w\<lparr>pw_shards := (pw_shards w)[shard := s']\<rparr>)
      in if queue_type = 0 then map_option (\<lambda>(t, q). (PE_Tick t, set_shard (s\<lparr>shq_tick := q\<rparr>))) (try_pop (shq_tick s))
         else if queue_type = 1 then map_option (\<lambda>(e, q). (PE_Depth e, set_shard (s\<lparr>shq_depth := q\<rparr>))) (try_pop (shq_depth s))
         else if queue_type = 2
         then map_option (\<lambda>(e, q). (PE_BookTicker e, set_shard (s\<lparr>shq_book_ticker := q\<rparr>))) (try_pop (shq_book_ticker s))
         else None)"

definition TrySendOne :: "zmq_env \<Rightarrow> ChannelRegistry \<Rightarrow> nat \<Rightarrow> nat \<Rightarrow> PubWorker \<Rightarrow> bool \<times> PubWorker" where
  "TrySendOne env reg shard queue_type w =
     (case pop_event shard queue_type w of None \<Rightarrow> (False, w) | Some (e, w1) \<Rightarrow> SendTyped env reg e w1)"

text \<open>The loop of \<open>DispatchCycle\<close> over the queue indices.\<close>
fun dispatch_loop :: "zmq_env \<Rightarrow> ChannelRegistry \<Rightarrow> nat list \<Rightarrow> bool \<times> PubWorker \<Rightarrow> bool \<times> PubWorker" where
  "dispatch_loop env reg [] (any_work, w) = (any_work, w)"
| "dispatch_loop env reg (idx # rest) (any_work, w) =
     (case TrySendOne env reg (idx div 3) (idx mod 3) w of (sent, w1) \<Rightarrow> dispatch_loop env reg rest (any_work \<or> sent, w1))"

definition cycle_order :: "nat \<Rightarrow> nat \<Rightarrow> nat list" where
  "cycle_order cursor total_queues = map (\<lambda>i. (cursor + i) mod total_queues) [0..<total_queues]"

text \<open>\<open>None\<close>: the remainder by zero when there is no shard.\<close>
definition DispatchCycle ::
  "zmq_env \<Rightarrow> ChannelRegistry \<Rightarrow> nat \<Rightarrow> bool \<Rightarrow> PubWorker \<Rightarrow> (nat \<times> bool \<times> PubWorker) option" where
  "DispatchCycle env reg cursor any_work w =
     (let total_queues = length (pw_shards w) * 3;
          (any', w') = dispatch_loop env reg (cycle_order cursor total_queues) (any_work, w)
      in if total_queues = 0 then None else Some ((cursor + 1) mod total_queues, any', w'))"

definition shard_len :: "ShardQueues \<Rightarrow> nat" where
  "shard_len s = spsc_len (shq_tick s) + spsc_len (shq_depth s) + spsc_len (shq_book_ticker s)"

definition queued :: "PubWorker \<Rightarrow> nat" where
  "queued w = sum_list (map shard_len (pw_shards w))"

lemma try_pop_len: "try_pop q = Some (x, q') \<Longrightarrow> spsc_len q = Suc (spsc_len q')"
proof -
  assume a: "try_pop q = Some (x, q')"
  then have ne: "spsc_write_pos q - spsc_read_pos q \<noteq> 0" and q': "q' = q\<lparr>spsc_read_pos := spsc_read_pos q + 1\<rparr>"
    by (auto simp: try_pop_def Let_def split: if_splits)
  then have "spsc_len q' = unat (spsc_write_pos q - spsc_read_pos q - 1)" by (simp add: spsc_len_def algebra_simps)
  moreover have "0 < unat (spsc_write_pos q - spsc_read_pos q)" using ne by (simp add: unat_gt_0)
  ultimately show ?thesis using unat_minus_one [OF ne] by (simp add: spsc_len_def)
qed

lemma sum_list_update_Suc:
  fixes xs :: "nat list"
  assumes "i < length xs" "xs ! i = Suc x"
  shows "sum_list xs = Suc (sum_list (xs[i := x]))"
proof -
  have "xs = take i xs @ xs ! i # drop (Suc i) xs" using assms(1) by (rule id_take_nth_drop)
  then have "sum_list xs = sum_list (take i xs) + (Suc x + sum_list (drop (Suc i) xs))"
    using assms(2) by (metis sum_list.Cons sum_list_append)
  then show ?thesis using assms(1) by (simp add: upd_conv_take_nth_drop)
qed

lemma shard_update_queued:
  "i < length (pw_shards w) \<Longrightarrow> shard_len (pw_shards w ! i) = Suc (shard_len s) \<Longrightarrow>
   queued w = Suc (queued (w\<lparr>pw_shards := (pw_shards w)[i := s]\<rparr>))"
  using sum_list_update_Suc [of i "map shard_len (pw_shards w)" "shard_len s"]
  by (simp add: queued_def map_update)

lemma pop_event_queued:
  assumes "pop_event shard qt w = Some (e, w')" "shard < length (pw_shards w)"
  shows "queued w = Suc (queued w') \<and> length (pw_shards w') = length (pw_shards w)"
proof -
  obtain s where s: "w' = w\<lparr>pw_shards := (pw_shards w)[shard := s]\<rparr>"
    "shard_len (pw_shards w ! shard) = Suc (shard_len s)"
    using assms(1) by (auto simp: pop_event_def Let_def shard_len_def split: if_splits dest!: try_pop_len)
  then show ?thesis using shard_update_queued [OF assms(2)] by simp
qed

lemma zmq_finish_shards [simp]: "pw_shards (zmq_finish P w) = pw_shards w"
  by (simp add: zmq_finish_def Let_def)

lemma SendTyped_shards: "pw_shards (snd (SendTyped env reg e w)) = pw_shards w"
  by (simp add: SendTyped_def Let_def split: option.splits prod.splits)

lemma queued_cong: "pw_shards w = pw_shards w' \<Longrightarrow> queued w = queued w'"
  by (simp add: queued_def)

lemma TrySendOne_queued:
  assumes "TrySendOne env reg shard qt w = (sent, w')" "shard < length (pw_shards w)"
  shows "length (pw_shards w') = length (pw_shards w) \<and> queued w' \<le> queued w \<and> (sent \<longrightarrow> queued w' < queued w)"
proof (cases "pop_event shard qt w")
  case (Some x)
  then obtain e w1 where x: "pop_event shard qt w = Some (e, w1)" by (cases x) auto
  then have "pw_shards w' = pw_shards w1"
    using assms(1) SendTyped_shards [of env reg e w1] by (simp add: TrySendOne_def)
  then show ?thesis using pop_event_queued [OF x assms(2)] queued_cong [of w' w1] by simp
qed (use assms in \<open>simp add: TrySendOne_def\<close>)

lemma dispatch_loop_queued:
  "dispatch_loop env reg idxs (any, w) = (any', w') \<Longrightarrow> \<forall>i\<in>set idxs. i div 3 < length (pw_shards w) \<Longrightarrow>
   length (pw_shards w') = length (pw_shards w) \<and> queued w' \<le> queued w \<and> (any' \<longrightarrow> any \<or> queued w' < queued w)"
proof (induction idxs arbitrary: any w)
  case (Cons i idxs)
  obtain sent w1 where t: "TrySendOne env reg (i div 3) (i mod 3) w = (sent, w1)" by fastforce
  have "length (pw_shards w1) = length (pw_shards w) \<and> queued w1 \<le> queued w \<and> (sent \<longrightarrow> queued w1 < queued w)"
    using TrySendOne_queued [OF t] Cons.prems(2) by simp
  then show ?case using Cons.IH [of "any \<or> sent" w1] Cons.prems t by auto
qed simp

lemma cycle_order_shards: "i \<in> set (cycle_order cursor (n * 3)) \<Longrightarrow> i div 3 < n"
  by (auto simp: cycle_order_def less_mult_imp_div_less)

lemma DispatchCycle_queued:
  assumes "DispatchCycle env reg cursor False w = Some (c, any, w')"
  shows "queued w' \<le> queued w \<and> (any \<longrightarrow> queued w' < queued w)"
proof -
  have "dispatch_loop env reg (cycle_order cursor (length (pw_shards w) * 3)) (False, w) = (any, w')"
    using assms by (auto simp: DispatchCycle_def Let_def split: prod.splits if_splits)
  then show ?thesis using dispatch_loop_queued cycle_order_shards by blast
qed

text \<open>The \<open>while(any)\<close> loop; it ends because a cycle that sent something has emptied a queue slot.\<close>
function drain_loop :: "zmq_env \<Rightarrow> ChannelRegistry \<Rightarrow> nat \<Rightarrow> PubWorker \<Rightarrow> PubWorker option" where
  "drain_loop env reg cursor w =
     (case DispatchCycle env reg cursor False w of
        None \<Rightarrow> None
      | Some (cursor', any, w') \<Rightarrow> if any then drain_loop env reg cursor' w' else Some w')"
  by auto
termination
  by (relation "measure (\<lambda>(_, _, _, w). queued w)") (auto dest: DispatchCycle_queued)

declare drain_loop.simps [simp del]

definition DrainAll :: "zmq_env \<Rightarrow> ChannelRegistry \<Rightarrow> PubWorker \<Rightarrow> PubWorker option" where
  "DrainAll env reg w = drain_loop env reg 0 w"

text \<open>
  The dispatch loop of \<open>Run\<close> for a given number of rounds, each preceded by what the parser threads
  publish in the meantime, and the final drain.
\<close>
fun run_loop ::
  "zmq_env \<Rightarrow> ChannelRegistry \<Rightarrow> (pub_event \<times> nat) list list \<Rightarrow> nat \<Rightarrow> PubWorker \<Rightarrow> (nat \<times> PubWorker) option" where
  "run_loop env reg [] cursor w = Some (cursor, w)"
| "run_loop env reg (arrivals # rest) cursor w =
     (case DispatchCycle env reg cursor False (fold (\<lambda>(e, shard). publish_event e shard) arrivals w) of
        None \<Rightarrow> None
      | Some (cursor', any, w') \<Rightarrow> run_loop env reg rest cursor' w')"

definition Run :: "zmq_env \<Rightarrow> ChannelRegistry \<Rightarrow> (pub_event \<times> nat) list list \<Rightarrow> PubWorker \<Rightarrow> PubWorker option" where
  "Run env reg rounds w = Option.bind (run_loop env reg rounds 0 w) (\<lambda>(_, w'). DrainAll env reg w')"

section \<open>Wire format\<close>

text \<open>How a subscriber reads a payload frame.\<close>
definition decode_payload :: "u8 list \<Rightarrow> pub_event option" where
  "decode_payload bs =
     (case bs of
        [] \<Rightarrow> None
      | tag # rest \<Rightarrow>
          if tag = 1 then map_option PE_Tick (read_tick rest)
          else if tag = 2 then map_option PE_Depth (read_depth rest)
          else if tag = 3 then map_option PE_BookTicker (read_book_ticker rest)
          else None)"

fun pe_wf :: "pub_event \<Rightarrow> bool" where
  "pe_wf (PE_Tick t) = tick_wf t"
| "pe_wf (PE_Depth e) = depth_wf e"
| "pe_wf (PE_BookTicker e) = book_ticker_wf e"

lemma decode_serialize: "pads_ok p \<Longrightarrow> pe_wf e \<Longrightarrow> decode_payload (serialize p e) = Some e"
  using read_tick_bytes [where rest = "[]"] read_depth_bytes [where rest = "[]"] read_book_ticker_bytes [where rest = "[]"]
  by (cases e) (simp_all add: decode_payload_def serialize_def pads_ok_def)

lemma length_serialize: "pads_ok p \<Longrightarrow> pe_wf e \<Longrightarrow> length (serialize p e) \<le> kMaxPayloadSize"
  by (cases e) (simp_all add: serialize_def pads_ok_def kMaxPayloadSize_def length_tick_bytes length_depth_bytes
      length_book_ticker_bytes)

section \<open>Buffers in flight are not disturbed\<close>

lemma acquire_loop_Some:
  "acquire_loop n p = (Some i, p') \<Longrightarrow> length (zp_pool p) = kPoolSize \<Longrightarrow>
   i < kPoolSize \<and> \<not> sl_in_use (zp_pool p ! i) \<and> zp_pool p' = (zp_pool p)[i := (zp_pool p ! i)\<lparr>sl_in_use := True\<rparr>]"
proof (induction n arbitrary: p)
  case (Suc n)
  have "unat (zp_next p) mod kPoolSize < kPoolSize" by (simp add: kPoolSize_def)
  then show ?case
    using Suc.prems Suc.IH [of "p\<lparr>zp_next := zp_next p + 1\<rparr>"] by (auto simp: Let_def split: if_splits)
qed simp

lemma acquire_loop_None: "acquire_loop n p = (None, p') \<Longrightarrow> zp_pool p' = zp_pool p"
  by (induction n arbitrary: p) (auto simp: Let_def split: if_splits)

lemma Release_pool:
  "length (zp_pool (Release j p)) = length (zp_pool p)"
  "i < length (zp_pool p) \<Longrightarrow> sl_data (zp_pool (Release j p) ! i) = sl_data (zp_pool p ! i)"
  "i < length (zp_pool p) \<Longrightarrow> sl_in_use (zp_pool (Release j p) ! i) = (sl_in_use (zp_pool p ! i) \<and> i \<noteq> j)"
  by (cases "i = j"; simp add: Release_def)+

lemma fold_Release:
  "length (zp_pool (fold (\<lambda>f. Release (fl_slot f)) out p)) = length (zp_pool p)
   \<and> (i < length (zp_pool p) \<longrightarrow>
       sl_data (zp_pool (fold (\<lambda>f. Release (fl_slot f)) out p) ! i) = sl_data (zp_pool p ! i)
     \<and> sl_in_use (zp_pool (fold (\<lambda>f. Release (fl_slot f)) out p) ! i) =
         (sl_in_use (zp_pool p ! i) \<and> i \<notin> fl_slot ` set out))"
proof (induction out arbitrary: p)
  case (Cons f out)
  show ?case using Cons [of "Release (fl_slot f) p"] by (auto simp: Release_pool)
qed simp

text \<open>The topic is that of the event's channel and the payload decodes to the event.\<close>
definition genuine :: "ChannelRegistry \<Rightarrow> pub_event set \<Rightarrow> string \<Rightarrow> u8 list \<Rightarrow> bool" where
  "genuine reg evs topic payload \<longleftrightarrow>
     (\<exists>e\<in>evs. \<exists>info. decode_payload payload = Some e \<and> ChannelRegistry_Lookup reg (pe_channel e) = Some info
        \<and> topic = topic_text info e)"

definition flight_ok :: "ChannelRegistry \<Rightarrow> pub_event set \<Rightarrow> ZmqBufferPool \<Rightarrow> flight list \<Rightarrow> bool" where
  "flight_ok reg evs p fls \<longleftrightarrow> length (zp_pool p) = kPoolSize
     \<and> (\<forall>i<kPoolSize. length (sl_data (zp_pool p ! i)) = kMaxPayloadSize)
     \<and> distinct (map fl_slot fls)
     \<and> (\<forall>f\<in>set fls. fl_slot f < kPoolSize \<and> sl_in_use (zp_pool p ! fl_slot f)
          \<and> genuine reg evs (fl_topic f) (take (fl_size f) (sl_data (zp_pool p ! fl_slot f))))
     \<and> (\<forall>i<kPoolSize. sl_in_use (zp_pool p ! i) \<longrightarrow> i \<in> fl_slot ` set fls)"

definition shard_ok :: "pub_event set \<Rightarrow> ShardQueues \<Rightarrow> bool" where
  "shard_ok evs s \<longleftrightarrow> spsc_inv (shq_tick s) \<and> spsc_inv (shq_depth s) \<and> spsc_inv (shq_book_ticker s)
     \<and> PE_Tick ` set (spsc_items (shq_tick s)) \<subseteq> evs \<and> PE_Depth ` set (spsc_items (shq_depth s)) \<subseteq> evs
     \<and> PE_BookTicker ` set (spsc_items (shq_book_ticker s)) \<subseteq> evs"

definition pub_inv :: "ChannelRegistry \<Rightarrow> pub_event set \<Rightarrow> PubWorker \<Rightarrow> bool" where
  "pub_inv reg evs w \<longleftrightarrow> (\<forall>s\<in>set (pw_shards w). shard_ok evs s) \<and> (\<forall>e\<in>evs. pe_wf e)
     \<and> flight_ok reg evs (pw_pool w) (pw_flight w)
     \<and> (\<forall>(topic, payload)\<in>set (pw_wire w). genuine reg evs topic payload)"

lemma zmq_finish_flight:
  assumes "flight_ok reg evs (pw_pool w) (pw_flight w)"
  shows "flight_ok reg evs (pw_pool (zmq_finish P w)) (pw_flight (zmq_finish P w))"
proof -
  let ?out = "filter (\<lambda>f. P (fl_slot f)) (pw_flight w)"
  let ?p' = "fold (\<lambda>f. Release (fl_slot f)) ?out (pw_pool w)"
  have i: "sl_data (zp_pool ?p' ! i) = sl_data (zp_pool (pw_pool w) ! i)"
    "sl_in_use (zp_pool ?p' ! i) = (sl_in_use (zp_pool (pw_pool w) ! i) \<and> i \<notin> fl_slot ` set ?out)"
    if "i < kPoolSize" for i
    using fold_Release [of ?out "pw_pool w" i] assms that by (simp_all add: flight_ok_def)
  have d: "fl_slot f \<notin> fl_slot ` set ?out" if "f \<in> set (pw_flight w)" "\<not> P (fl_slot f)" for f
    using that by auto
  have l: "length (zp_pool ?p') = kPoolSize" using fold_Release [of ?out "pw_pool w" 0] assms by (simp add: flight_ok_def)
  have "distinct (map fl_slot (filter (\<lambda>f. \<not> P (fl_slot f)) (pw_flight w)))"
    using assms by (simp add: flight_ok_def distinct_map_filter)
  then show ?thesis
    using assms l i d by (simp add: zmq_finish_def Let_def flight_ok_def) blast
qed

lemma zmq_finish_inv: "pub_inv reg evs w \<Longrightarrow> pub_inv reg evs (zmq_finish P w)"
  using zmq_finish_flight [of reg evs w P]
  by (auto simp: pub_inv_def zmq_finish_def Let_def flight_ok_def)

lemma flight_add:
  assumes "flight_ok reg evs p fls" "Acquire p = (Some slot, p1)" "length bs \<le> kMaxPayloadSize" "genuine reg evs topic bs"
  shows "flight_ok reg evs (fill_slot slot bs p1) (fls @ [\<lparr>fl_topic = topic, fl_slot = slot, fl_size = length bs\<rparr>])"
    "flight_ok reg evs (Release slot (fill_slot slot bs p1)) fls"
proof -
  have a: "slot < kPoolSize" "\<not> sl_in_use (zp_pool p ! slot)"
    "zp_pool p1 = (zp_pool p)[slot := (zp_pool p ! slot)\<lparr>sl_in_use := True\<rparr>]" "length (zp_pool p) = kPoolSize"
    using acquire_loop_Some [OF assms(2) [unfolded Acquire_def]] assms(1) by (simp_all add: flight_ok_def)
  have free: "fl_slot f \<noteq> slot" if "f \<in> set fls" for f using that assms(1) a(2) by (auto simp: flight_ok_def)
  show "flight_ok reg evs (fill_slot slot bs p1) (fls @ [\<lparr>fl_topic = topic, fl_slot = slot, fl_size = length bs\<rparr>])"
    using assms(1,3,4) a free by (auto simp: flight_ok_def fill_slot_def nth_list_update)
  show "flight_ok reg evs (Release slot (fill_slot slot bs p1)) fls"
    using assms(1,3) a free by (auto simp: flight_ok_def fill_slot_def Release_def nth_list_update)
qed

lemma SendTyped_inv:
  assumes "pub_inv reg evs w" "e \<in> evs" "pads_ok (ze_pads env)"
  shows "pub_inv reg evs (snd (SendTyped env reg e w))"
proof -
  let ?w = "(zmq_finish (ze_finished env (pw_sends w)) w)\<lparr>pw_sends := Suc (pw_sends w)\<rparr>"
  have w: "pub_inv reg evs ?w" using zmq_finish_inv [OF assms(1)] by (simp add: pub_inv_def)
  let ?bs = "serialize (ze_pads env) e"
  have wf: "pe_wf e" using assms(1,2) by (simp add: pub_inv_def)
  have g: "genuine reg evs (topic_text info e) ?bs" if "ChannelRegistry_Lookup reg (pe_channel e) = Some info" for info
    using that assms(2) decode_serialize [OF assms(3) wf] by (auto simp: genuine_def)
  have fl: "flight_ok reg evs (pw_pool ?w) (pw_flight ?w)" using w by (simp add: pub_inv_def)
  have n: "flight_ok reg evs p' fls" if "acquire_loop k p = (None, p')" "flight_ok reg evs p fls" for k p p' fls
    using that acquire_loop_None [of k p p'] by (simp add: flight_ok_def)
  show ?thesis
    using w g flight_add [OF fl] length_serialize [OF assms(3) wf] n [OF _ fl, of kPoolSize]
    unfolding SendTyped_def Let_def by (auto simp: pub_inv_def Acquire_def split: option.splits prod.splits)
qed

lemma try_push_items:
  assumes "spsc_inv q" "try_push x q = (ok, q')"
  shows "spsc_inv q' \<and> set (spsc_items q') \<subseteq> insert x (set (spsc_items q))"
proof (cases "length (spsc_items q) < spsc_cap q")
  case True
  then show ?thesis using spsc.push_room [of q x] assms by auto
next
  case False
  then have "length (spsc_items q) = spsc_cap q" using spsc.items_bound [OF assms(1)] by simp
  then show ?thesis using spsc.push_full [OF assms(1), of x] assms by auto
qed

lemma try_pop_items:
  assumes "spsc_inv q" "try_pop q = Some (x, q')"
  shows "spsc_inv q' \<and> spsc_items q = x # spsc_items q'"
  using assms spsc.pop_empty [of q] spsc.pop_item [of q] by (cases "spsc_items q") fastforce+

lemma shard_ok_mono: "shard_ok evs s \<Longrightarrow> evs \<subseteq> evs' \<Longrightarrow> shard_ok evs' s"
  unfolding shard_ok_def by blast

lemma pub_inv_mono: "pub_inv reg evs w \<Longrightarrow> pe_wf e \<Longrightarrow> pub_inv reg (insert e evs) w"
  using shard_ok_mono [of evs _ "insert e evs"] unfolding pub_inv_def flight_ok_def genuine_def by fast

lemma set_shard_inv:
  assumes "pub_inv reg evs w" "shard_ok evs s"
  shows "pub_inv reg evs (count_drop ok (w\<lparr>pw_shards := (pw_shards w)[i := s]\<rparr>))"
  using assms set_update_subset_insert [of "pw_shards w" i s] by (auto simp: pub_inv_def count_drop_def)

lemma publish_inv:
  assumes "pub_inv reg evs w" "pe_wf e"
  shows "pub_inv reg (insert e evs) (publish_event e shard w)"
proof (cases "length (pw_shards w) \<le> shard")
  case True
  then show ?thesis
    using pub_inv_mono [OF assms] by (cases e) (simp_all add: PublishTick_def PublishDepth_def PublishBookTicker_def)
next
  case False
  note m = pub_inv_mono [OF assms]
  have s: "shard_ok (insert e evs) (pw_shards w ! shard)" using m False by (simp add: pub_inv_def)
  show ?thesis
  proof (cases e)
    case (PE_Tick t)
    obtain ok q where q: "try_push t (shq_tick (pw_shards w ! shard)) = (ok, q)" by fastforce
    then have "shard_ok (insert e evs) ((pw_shards w ! shard)\<lparr>shq_tick := q\<rparr>)"
      using s try_push_items [OF _ q] PE_Tick by (fastforce simp: shard_ok_def)
    then show ?thesis using set_shard_inv [OF m] False q PE_Tick by (simp add: PublishTick_def)
  next
    case (PE_Depth d)
    obtain ok q where q: "try_push d (shq_depth (pw_shards w ! shard)) = (ok, q)" by fastforce
    then have "shard_ok (insert e evs) ((pw_shards w ! shard)\<lparr>shq_depth := q\<rparr>)"
      using s try_push_items [OF _ q] PE_Depth by (fastforce simp: shard_ok_def)
    then show ?thesis using set_shard_inv [OF m] False q PE_Depth by (simp add: PublishDepth_def)
  next
    case (PE_BookTicker b)
    obtain ok q where q: "try_push b (shq_book_ticker (pw_shards w ! shard)) = (ok, q)" by fastforce
    then have "shard_ok (insert e evs) ((pw_shards w ! shard)\<lparr>shq_book_ticker := q\<rparr>)"
      using s try_push_items [OF _ q] PE_BookTicker by (fastforce simp: shard_ok_def)
    then show ?thesis using set_shard_inv [OF m] False q PE_BookTicker by (simp add: PublishBookTicker_def)
  qed
qed

lemma pop_event_inv:
  assumes "pub_inv reg evs w" "pop_event shard qt w = Some (e, w')" "shard < length (pw_shards w)"
  shows "pub_inv reg evs w' \<and> e \<in> evs"
proof -
  have s: "shard_ok evs (pw_shards w ! shard)" using assms(1,3) by (simp add: pub_inv_def)
  let ?s = "pw_shards w ! shard"
  have ok: "shard_ok evs (?s\<lparr>shq_tick := q\<rparr>) \<and> PE_Tick t \<in> evs" if "try_pop (shq_tick ?s) = Some (t, q)" for t q
    using s try_pop_items [OF _ that] by (simp add: shard_ok_def)
  moreover have "shard_ok evs (?s\<lparr>shq_depth := q\<rparr>) \<and> PE_Depth d \<in> evs" if "try_pop (shq_depth ?s) = Some (d, q)" for d q
    using s try_pop_items [OF _ that] by (simp add: shard_ok_def)
  moreover have "shard_ok evs (?s\<lparr>shq_book_ticker := q\<rparr>) \<and> PE_BookTicker b \<in> evs"
    if "try_pop (shq_book_ticker ?s) = Some (b, q)" for b q
    using s try_pop_items [OF _ that] by (simp add: shard_ok_def)
  ultimately obtain s' where "w' = w\<lparr>pw_shards := (pw_shards w)[shard := s']\<rparr>" "shard_ok evs s'" "e \<in> evs"
    using assms(2) by (auto simp: pop_event_def Let_def split: if_splits)
  then show ?thesis using set_shard_inv [OF assms(1), of s' True shard] by (simp add: count_drop_def)
qed

lemma TrySendOne_inv:
  assumes "pub_inv reg evs w" "pads_ok (ze_pads env)" "shard < length (pw_shards w)"
  shows "pub_inv reg evs (snd (TrySendOne env reg shard qt w))"
  using assms SendTyped_inv pop_event_inv [OF assms(1) _ assms(3)]
  by (auto simp: TrySendOne_def split: option.splits)

text \<open>
  The executions of the publisher: parser threads publish, the publishing thread serves a queue, and
  ZeroMQ finishes with buffers, in any order. The index collects the published events.
\<close>
inductive pub_reach :: "ChannelRegistry \<Rightarrow> pub_event set \<Rightarrow> PubWorker \<Rightarrow> bool" for reg where
  reach_new: "pub_reach reg {} (PubWorker_new num_shards)"
| reach_publish: "pub_reach reg evs w \<Longrightarrow> pe_wf e \<Longrightarrow> pub_reach reg (insert e evs) (publish_event e shard w)"
| reach_send: "pub_reach reg evs w \<Longrightarrow> pads_ok (ze_pads env) \<Longrightarrow> shard < length (pw_shards w) \<Longrightarrow>
     pub_reach reg evs (snd (TrySendOne env reg shard qt w))"
| reach_finish: "pub_reach reg evs w \<Longrightarrow> pub_reach reg evs (zmq_finish P w)"

lemma spsc_new_ok: "spsc_inv (spsc_new d 12) \<and> spsc_items (spsc_new d 12) = []"
  by (auto simp: spsc_inv_def spsc_new_def spsc_len_def spsc_items_def spsc_cap_def intro: exI [of _ 12])

lemma pub_reach_inv: "pub_reach reg evs w \<Longrightarrow> pub_inv reg evs w"
proof (induction rule: pub_reach.induct)
  case (reach_new num_shards)
  have "shard_ok {} ShardQueues_new" by (simp add: spsc_new_ok shard_ok_def ShardQueues_new_def)
  then show ?case
    by (auto simp: pub_inv_def PubWorker_new_def flight_ok_def ZmqBufferPool_new_def)
qed (auto intro: publish_inv TrySendOne_inv zmq_finish_inv)

text \<open>
  C5: What reaches a subscriber is genuine. In every interleaving of the parser threads' publishing,
  the publishing thread's sends (whatever the socket answers) and ZeroMQ's release of buffers, every
  message on the wire decodes to an event that was published, under the topic of that event's
  channel: a payload buffer is never reused while ZeroMQ still refers to it.
\<close>
theorem wire_messages_genuine:
  assumes "pub_reach reg evs w" "(topic, payload) \<in> set (pw_wire w)"
  shows "\<exists>e\<in>evs. \<exists>info. decode_payload payload = Some e \<and> ChannelRegistry_Lookup reg (pe_channel e) = Some info
     \<and> topic = c_str (ci_topic_prefix info) @ '':'' @ pe_suffix e"
proof -
  have "genuine reg evs topic payload"
    using pub_reach_inv [OF assms(1)] assms(2) by (auto simp: pub_inv_def)
  then show ?thesis by (simp add: genuine_def topic_text_def)
qed

section \<open>Draining\<close>

text \<open>The messages accepted by ZeroMQ so far.\<close>
definition accepted_messages :: "PubWorker \<Rightarrow> nat" where
  "accepted_messages w = length (pw_wire w) + length (pw_flight w)"

text \<open>A socket that accepts every frame and has always finished with the previous ones.\<close>
definition socket_ok :: "zmq_env \<Rightarrow> bool" where
  "socket_ok env \<longleftrightarrow> (\<forall>n. ze_send env n = (True, True)) \<and> (\<forall>n i. ze_finished env n i) \<and> pads_ok (ze_pads env)"

definition topics_ok :: "ChannelRegistry \<Rightarrow> pub_event set \<Rightarrow> bool" where
  "topics_ok reg evs \<longleftrightarrow> (\<forall>e\<in>evs. \<exists>info. ChannelRegistry_Lookup reg (pe_channel e) = Some info
     \<and> ci_topic_prefix info \<noteq> [] \<and> length (topic_text info e) < kMaxTopicLen)"

lemma Acquire_free:
  assumes "flight_ok reg evs p []"
  shows "\<exists>i p'. Acquire p = (Some i, p')"
proof -
  have "unat (zp_next p) mod kPoolSize < kPoolSize" by (simp add: kPoolSize_def)
  then have "\<not> sl_in_use (zp_pool p ! (unat (zp_next p) mod kPoolSize))" using assms by (auto simp: flight_ok_def)
  then have "\<exists>i p'. acquire_loop (Suc n) p = (Some i, p')" for n by (simp add: Let_def)
  moreover have "\<exists>n. kPoolSize = Suc n" by (simp add: kPoolSize_def)
  ultimately show ?thesis unfolding Acquire_def by metis
qed

lemma zmq_finish_accepted: "accepted_messages (zmq_finish P w) = accepted_messages w"
  using sum_length_filter_compl [of "\<lambda>f. P (fl_slot f)" "pw_flight w"]
  by (simp add: accepted_messages_def zmq_finish_def Let_def)

lemma SendTyped_succeeds:
  assumes "pub_inv reg evs w" "e \<in> evs" "socket_ok env" "topics_ok reg evs"
  shows "fst (SendTyped env reg e w) \<and> accepted_messages (snd (SendTyped env reg e w)) = Suc (accepted_messages w)"
proof -
  let ?w = "zmq_finish (ze_finished env (pw_sends w)) w"
  obtain info where i: "ChannelRegistry_Lookup reg (pe_channel e) = Some info" "ci_topic_prefix info \<noteq> []"
    "length (topic_text info e) < kMaxTopicLen"
    using assms(2,4) by (auto simp: topics_ok_def)
  have "pw_flight ?w = []" using assms(3) by (simp add: zmq_finish_def Let_def socket_ok_def)
  then have "flight_ok reg evs (pw_pool ?w) []"
    using zmq_finish_flight [of reg evs w "ze_finished env (pw_sends w)"] assms(1) by (simp add: pub_inv_def)
  then obtain j p where a: "Acquire (pw_pool ?w) = (Some j, p)" using Acquire_free by blast
  have "accepted_messages ?w = accepted_messages w" by (rule zmq_finish_accepted)
  then show ?thesis
    using i a assms(3) by (simp add: SendTyped_def Let_def socket_ok_def accepted_messages_def)
qed

lemma TrySendOne_succeeds:
  assumes "pub_inv reg evs w" "socket_ok env" "topics_ok reg evs" "shard < length (pw_shards w)"
    "TrySendOne env reg shard qt w = (sent, w')"
  shows "pub_inv reg evs w' \<and> accepted_messages w' + queued w' = accepted_messages w + queued w
    \<and> (sent \<longleftrightarrow> pop_event shard qt w \<noteq> None) \<and> (\<not> sent \<longrightarrow> w' = w)"
proof (cases "pop_event shard qt w")
  case None
  then show ?thesis using assms by (simp add: TrySendOne_def)
next
  case (Some x)
  then obtain e w1 where x: "pop_event shard qt w = Some (e, w1)" by (cases x) auto
  have i: "pub_inv reg evs w1" "e \<in> evs" using pop_event_inv [OF assms(1) x assms(4)] by simp_all
  have "accepted_messages w1 = accepted_messages w" using x
    by (auto simp: pop_event_def Let_def accepted_messages_def split: if_splits)
  moreover have "SendTyped env reg e w1 = (sent, w')" using assms(5) x by (simp add: TrySendOne_def)
  moreover have "queued w' = queued w1"
    using SendTyped_shards [of env reg e w1] calculation(2) by (intro queued_cong) simp
  moreover have "pads_ok (ze_pads env)" using assms(2) by (simp add: socket_ok_def)
  ultimately show ?thesis
    using SendTyped_succeeds [OF i assms(2,3)] SendTyped_inv [OF i, of env] pop_event_queued [OF x assms(4)] x by simp
qed

lemma dispatch_loop_mono: "dispatch_loop env reg idxs (any, w) = (any', w') \<Longrightarrow> any \<Longrightarrow> any'"
  by (induction idxs arbitrary: any w) (auto split: prod.splits)

lemma dispatch_loop_succeeds:
  "dispatch_loop env reg idxs (any, w) = (any', w') \<Longrightarrow> pub_inv reg evs w \<Longrightarrow> socket_ok env \<Longrightarrow> topics_ok reg evs \<Longrightarrow>
   \<forall>i\<in>set idxs. i div 3 < length (pw_shards w) \<Longrightarrow>
   pub_inv reg evs w' \<and> accepted_messages w' + queued w' = accepted_messages w + queued w
   \<and> length (pw_shards w') = length (pw_shards w)
   \<and> (\<not> any' \<longrightarrow> w' = w \<and> (\<forall>i\<in>set idxs. pop_event (i div 3) (i mod 3) w = None))"
proof (induction idxs arbitrary: any w)
  case (Cons i idxs)
  obtain sent w1 where t: "TrySendOne env reg (i div 3) (i mod 3) w = (sent, w1)" by fastforce
  have i: "i div 3 < length (pw_shards w)" using Cons.prems(5) by simp
  note s = TrySendOne_succeeds [OF Cons.prems(2-4) i t]
  have l: "length (pw_shards w1) = length (pw_shards w)" using TrySendOne_queued [OF t i] by simp
  have d: "dispatch_loop env reg idxs (any \<or> sent, w1) = (any', w')" using Cons.prems(1) t by simp
  have m: "any \<or> sent \<Longrightarrow> any'" using dispatch_loop_mono d by blast
  then show ?case using Cons.IH [OF d _ Cons.prems(3,4)] s l Cons.prems(5) by auto
qed simp

lemma cycle_order_all:
  assumes "j < n"
  shows "j \<in> set (cycle_order cursor n)"
proof -
  let ?i = "(j + (n - cursor mod n)) mod n"
  have "cursor mod n < n" using assms by simp
  then have "cursor mod n + (j + (n - cursor mod n)) = j + n" by simp
  then have "(cursor + ?i) mod n = (j + n) mod n" by (metis mod_add_left_eq mod_add_right_eq)
  then have "(cursor + ?i) mod n = j" "?i < n" using assms by simp_all
  then show ?thesis unfolding cycle_order_def by (metis (no_types, lifting) atLeastLessThan_iff imageI le0 list.set_map set_upt)
qed

lemma nothing_queued:
  assumes "\<forall>i\<in>set (cycle_order cursor (length (pw_shards w) * 3)). pop_event (i div 3) (i mod 3) w = None"
  shows "queued w = 0"
proof -
  have z: "spsc_len q = 0" if "try_pop q = None" for q :: "'a SPSCQueue"
    using that by (simp add: try_pop_def spsc_len_def Let_def split: if_splits)
  have "shard_len (pw_shards w ! k) = 0" if "k < length (pw_shards w)" for k
  proof -
    have "pop_event k t w = None" if "t < 3" for t
      using assms cycle_order_all [of "k * 3 + t" "length (pw_shards w) * 3" cursor] that \<open>k < _\<close> by force
    from this [of 0] this [of 1] this [of 2] show ?thesis
      by (simp add: pop_event_def Let_def shard_len_def z)
  qed
  then have "\<forall>s\<in>set (pw_shards w). shard_len s = 0" by (metis in_set_conv_nth)
  then show ?thesis by (simp add: queued_def)
qed

lemma drain_loop_sends:
  "pub_inv reg evs w \<Longrightarrow> socket_ok env \<Longrightarrow> topics_ok reg evs \<Longrightarrow> pw_shards w \<noteq> [] \<Longrightarrow>
   \<exists>w'. drain_loop env reg cursor w = Some w' \<and> queued w' = 0 \<and> accepted_messages w' = accepted_messages w + queued w"
proof (induction env reg cursor w rule: drain_loop.induct)
  case (1 env reg cursor w)
  obtain any w' where d: "dispatch_loop env reg (cycle_order cursor (length (pw_shards w) * 3)) (False, w) = (any, w')"
    by fastforce
  then obtain c where c: "DispatchCycle env reg cursor False w = Some (c, any, w')"
    using "1.prems"(4) by (simp add: DispatchCycle_def Let_def)
  have s: "pub_inv reg evs w' \<and> accepted_messages w' + queued w' = accepted_messages w + queued w
   \<and> length (pw_shards w') = length (pw_shards w)
   \<and> (\<not> any \<longrightarrow> w' = w \<and> (\<forall>i\<in>set (cycle_order cursor (length (pw_shards w) * 3)). pop_event (i div 3) (i mod 3) w = None))"
    using dispatch_loop_succeeds [OF d "1.prems"(1-3)] cycle_order_shards by blast
  show ?case
  proof (cases any)
    case True
    then have "pw_shards w' \<noteq> []" using s "1.prems"(4) by auto
    then show ?thesis
      using "1.IH" [OF c refl refl True] s "1.prems"(2,3) c True by (subst drain_loop.simps) auto
  next
    case False
    then show ?thesis using s nothing_queued c by (subst drain_loop.simps) auto
  qed
qed


definition sample_reg :: ChannelRegistry where
  "sample_reg = [0 \<mapsto> \<lparr>ci_id = 0, ci_exchange = ''binance'', ci_type = Spot, ci_symbol = ''BTCUSDT'', ci_depth_level = 5,
     ci_topic_prefix = ''binance:spot:BTCUSDT''\<rparr>]"

definition good_socket :: zmq_env where
  "good_socket = \<lparr>ze_finished = (\<lambda>_ _. True), ze_send = (\<lambda>_. (True, True)),
     ze_pads = \<lparr>pad_tick = replicate 7 0, pad_first = replicate 4 0, pad_second = replicate 4 0\<rparr>\<rparr>"

definition one_queued :: PubWorker where
  "one_queued = publish_event (PE_Tick tick_zero) 0 (PubWorker_new 1)"

lemma one_queued_reach: "pub_reach sample_reg {PE_Tick tick_zero} one_queued"
  using reach_publish [OF reach_new, of "PE_Tick tick_zero" sample_reg 0 1]
  by (simp add: one_queued_def tick_wf_def tick_zero_def symbol_zero_def)

lemma one_queued_shards: "length (pw_shards one_queued) = 1"
  by (simp add: one_queued_def PublishTick_def PubWorker_new_def count_drop_def split: prod.splits)

lemma good_socket_ok: "socket_ok good_socket" "topics_ok sample_reg {PE_Tick tick_zero}"
  by (simp_all add: socket_ok_def good_socket_def pads_ok_def topics_ok_def sample_reg_def ChannelRegistry_Lookup_def
      tick_zero_def topic_text_def kMaxTopicLen_def c_str_def)

lemma one_queued_len: "queued one_queued = 1"
proof -
  have "try_push tick_zero (spsc_new tick_zero 12) =
      (True, \<lparr>spsc_slots = (replicate (2 ^ 12) tick_zero)[0 := tick_zero], spsc_write_pos = 1, spsc_read_pos = 0\<rparr>)"
    by (simp add: try_push_def spsc_new_def kCapacity_def kMask_def)
  then show ?thesis
    by (simp add: one_queued_def PublishTick_def PubWorker_new_def count_drop_def ShardQueues_new_def queued_def
        shard_len_def spsc_len_def) (simp add: spsc_new_def)
qed


theorem wire_messages_genuine_witness:
  "\<exists>w :: PubWorker. pw_wire w \<noteq> [] \<and> (\<forall>(topic, payload)\<in>set (pw_wire w).
     decode_payload payload = Some (PE_Tick tick_zero) \<and> topic = ''binance:spot:BTCUSDT:tick'')"
proof -
  let ?w1 = "snd (TrySendOne good_socket sample_reg 0 0 one_queued)" and ?evs = "{PE_Tick tick_zero}"
  let ?w = "zmq_finish (\<lambda>_. True) ?w1"
  have p: "pads_ok (ze_pads good_socket)" using good_socket_ok(1) by (simp add: socket_ok_def)
  have l: "0 < length (pw_shards one_queued)" using one_queued_shards by simp
  have r: "pub_reach sample_reg ?evs ?w" by (rule reach_finish [OF reach_send [OF one_queued_reach p l]])
  obtain sent w1 where t: "TrySendOne good_socket sample_reg 0 0 one_queued = (sent, w1)" by fastforce
  have "pop_event 0 0 one_queued \<noteq> None"
    by (simp add: pop_event_def one_queued_def PublishTick_def PubWorker_new_def count_drop_def ShardQueues_new_def
        try_push_def spsc_new_def kCapacity_def try_pop_def Let_def)
  then have "sent" "accepted_messages w1 + queued w1 = accepted_messages one_queued + 1"
    using TrySendOne_succeeds [OF pub_reach_inv [OF one_queued_reach] good_socket_ok l t] one_queued_len by simp_all
  moreover have "queued w1 < 1" using TrySendOne_queued [OF t l] \<open>sent\<close> one_queued_len by simp
  ultimately have "accepted_messages ?w = accepted_messages one_queued + 1" using zmq_finish_accepted t by simp
  then have "pw_wire ?w \<noteq> []" by (auto simp: accepted_messages_def zmq_finish_def Let_def)
  moreover have "decode_payload payload = Some (PE_Tick tick_zero) \<and> topic = ''binance:spot:BTCUSDT:tick''"
    if "(topic, payload) \<in> set (pw_wire ?w)" for topic payload
    using wire_messages_genuine [OF r that]
    by (auto simp: sample_reg_def ChannelRegistry_Lookup_def tick_zero_def c_str_def)
  ultimately show ?thesis by (intro exI [of _ ?w]) auto
qed

end
