(* ===== verification/Telemetry.thy ===== *)
theory Telemetry
  imports Prelude
begin

text \<open>
  The telemetry slots (\<open>src/common/telemetry_slot.h\<close>) and the polling agent
  (\<open>src/telemetry/telemetry_agent.cpp\<close>, \<open>src/telemetry/prometheus_exposer.cpp\<close>). A slot is a sequence
  lock: the parser thread that owns it raises the version before and after writing the four values,
  the agent retries until it has read the same even version on both sides. Writer and reader are
  interleaved at every access, on one shared memory; reorderings a weaker memory model would allow
  are not considered. The exposer's gauges hold the integer a gauge is set from; the conversion to
  \<open>double\<close> and the division of a latency by 1000 are not modelled.
\<close>

section \<open>Slots\<close>

record TelemetrySlot =
  ts_version :: u64
  ts_market_data_delay_ns :: u64
  ts_queue_depth :: u64
  ts_sequence_gap_count :: u64
  ts_zmq_dropped_count :: u64

definition TelemetrySlot_new :: TelemetrySlot where
  "TelemetrySlot_new = \<lparr>ts_version = 0, ts_market_data_delay_ns = 0, ts_queue_depth = 0, ts_sequence_gap_count = 0,
     ts_zmq_dropped_count = 0\<rparr>"

text \<open>One undisturbed call of each side; \<open>None\<close> when the reader would spin on an odd version.\<close>
definition WriteTelemetrySlot :: "u64 \<Rightarrow> u64 \<Rightarrow> u64 \<Rightarrow> u64 \<Rightarrow> TelemetrySlot \<Rightarrow> TelemetrySlot" where
  "WriteTelemetrySlot delay_ns q_depth gap_count zmq_dropped slot =
     \<lparr>ts_version = ts_version slot + 1 + 1, ts_market_data_delay_ns = delay_ns, ts_queue_depth = q_depth,
      ts_sequence_gap_count = gap_count, ts_zmq_dropped_count = zmq_dropped\<rparr>"

type_synonym sample = "u64 \<times> u64 \<times> u64 \<times> u64"

definition slot_sample :: "TelemetrySlot \<Rightarrow> sample" where
  "slot_sample s = (ts_market_data_delay_ns s, ts_queue_depth s, ts_sequence_gap_count s, ts_zmq_dropped_count s)"

definition ReadTelemetrySlot :: "TelemetrySlot \<Rightarrow> sample option" where
  "ReadTelemetrySlot slot = (if ts_version slot AND 1 \<noteq> 0 then None else Some (slot_sample slot))"

section \<open>Interleaved writer and reader\<close>

text \<open>Where the writer is in \<open>WriteTelemetrySlot\<close>: between the accesses of the source.\<close>
datatype writer_pc = W_Idle | W_Odd sample | W_Delay sample | W_Depth sample | W_Gap sample | W_Dropped sample

text \<open>Where the reader is in the loop of \<open>ReadTelemetrySlot\<close>, with what it has read.\<close>
datatype reader_pc =
  R_Idle
| R_V1 u64
| R_Delay u64 u64
| R_Depth u64 u64 u64
| R_Gap u64 u64 u64 u64
| R_Dropped u64 sample
| R_Done sample

text \<open>\<open>tl_history\<close>: the samples of the completed writes, latest first.\<close>
record tele_sys =
  tl_slot :: TelemetrySlot
  tl_writer :: writer_pc
  tl_reader :: reader_pc
  tl_history :: "sample list"

definition tele_start :: tele_sys where
  "tele_start = \<lparr>tl_slot = TelemetrySlot_new, tl_writer = W_Idle, tl_reader = R_Idle, tl_history = []\<rparr>"

inductive tele_step :: "tele_sys \<Rightarrow> tele_sys \<Rightarrow> bool" where
  w_begin: "tl_writer s = W_Idle \<Longrightarrow>
     tele_step s (s\<lparr>tl_writer := W_Odd x, tl_slot := (tl_slot s)\<lparr>ts_version := ts_version (tl_slot s) + 1\<rparr>\<rparr>)"
| w_delay: "tl_writer s = W_Odd (a, b, c, d) \<Longrightarrow>
     tele_step s (s\<lparr>tl_writer := W_Delay (a, b, c, d), tl_slot := (tl_slot s)\<lparr>ts_market_data_delay_ns := a\<rparr>\<rparr>)"
| w_depth: "tl_writer s = W_Delay (a, b, c, d) \<Longrightarrow>
     tele_step s (s\<lparr>tl_writer := W_Depth (a, b, c, d), tl_slot := (tl_slot s)\<lparr>ts_queue_depth := b\<rparr>\<rparr>)"
| w_gap: "tl_writer s = W_Depth (a, b, c, d) \<Longrightarrow>
     tele_step s (s\<lparr>tl_writer := W_Gap (a, b, c, d), tl_slot := (tl_slot s)\<lparr>ts_sequence_gap_count := c\<rparr>\<rparr>)"
| w_dropped: "tl_writer s = W_Gap (a, b, c, d) \<Longrightarrow>
     tele_step s (s\<lparr>tl_writer := W_Dropped (a, b, c, d), tl_slot := (tl_slot s)\<lparr>ts_zmq_dropped_count := d\<rparr>\<rparr>)"
| w_end: "tl_writer s = W_Dropped x \<Longrightarrow>
     tele_step s (s\<lparr>tl_writer := W_Idle, tl_history := x # tl_history s,
       tl_slot := (tl_slot s)\<lparr>ts_version := ts_version (tl_slot s) + 1\<rparr>\<rparr>)"
| r_v1: "tl_reader s = R_Idle \<or> tl_reader s = R_Done y \<Longrightarrow> tele_step s (s\<lparr>tl_reader := R_V1 (ts_version (tl_slot s))\<rparr>)"
| r_delay: "tl_reader s = R_V1 v \<Longrightarrow>
     tele_step s (s\<lparr>tl_reader := R_Delay v (ts_market_data_delay_ns (tl_slot s))\<rparr>)"
| r_depth: "tl_reader s = R_Delay v a \<Longrightarrow> tele_step s (s\<lparr>tl_reader := R_Depth v a (ts_queue_depth (tl_slot s))\<rparr>)"
| r_gap: "tl_reader s = R_Depth v a b \<Longrightarrow>
     tele_step s (s\<lparr>tl_reader := R_Gap v a b (ts_sequence_gap_count (tl_slot s))\<rparr>)"
| r_dropped: "tl_reader s = R_Gap v a b c \<Longrightarrow>
     tele_step s (s\<lparr>tl_reader := R_Dropped v (a, b, c, ts_zmq_dropped_count (tl_slot s))\<rparr>)"
| r_retry: "tl_reader s = R_Dropped v x \<Longrightarrow> v AND 1 \<noteq> 0 \<or> v \<noteq> ts_version (tl_slot s) \<Longrightarrow>
     tele_step s (s\<lparr>tl_reader := R_Idle\<rparr>)"
| r_done: "tl_reader s = R_Dropped v x \<Longrightarrow> \<not> (v AND 1 \<noteq> 0 \<or> v \<noteq> ts_version (tl_slot s)) \<Longrightarrow>
     tele_step s (s\<lparr>tl_reader := R_Done x\<rparr>)"

inductive_cases tele_stepE: "tele_step s s'"

inductive tele_reach :: "tele_sys \<Rightarrow> bool" where
  reach_start: "tele_reach tele_start"
| reach_step: "tele_reach s \<Longrightarrow> tele_step s s' \<Longrightarrow> tele_reach s'"

text \<open>The number of version increments so far; the version is that number, modulo \<open>2 ^ 64\<close>.\<close>
definition increments :: "tele_sys \<Rightarrow> nat" where
  "increments s = 2 * length (tl_history s) + (if tl_writer s = W_Idle then 0 else 1)"

text \<open>The sample of the last completed write, or the initial one.\<close>
definition current_sample :: "tele_sys \<Rightarrow> sample" where
  "current_sample s = (case tl_history s of [] \<Rightarrow> (0, 0, 0, 0) | x # _ \<Rightarrow> x)"

text \<open>Which values of its sample the writer has stored.\<close>
fun writer_knows :: "writer_pc \<Rightarrow> TelemetrySlot \<Rightarrow> bool" where
  "writer_knows (W_Delay (a, b, c, d)) t = (ts_market_data_delay_ns t = a)"
| "writer_knows (W_Depth (a, b, c, d)) t = (ts_market_data_delay_ns t = a \<and> ts_queue_depth t = b)"
| "writer_knows (W_Gap (a, b, c, d)) t =
     (ts_market_data_delay_ns t = a \<and> ts_queue_depth t = b \<and> ts_sequence_gap_count t = c)"
| "writer_knows (W_Dropped x) t = (slot_sample t = x)"
| "writer_knows _ t = True"

definition writer_inv :: "tele_sys \<Rightarrow> bool" where
  "writer_inv s \<longleftrightarrow> ts_version (tl_slot s) = of_nat (increments s)
     \<and> (tl_writer s = W_Idle \<longrightarrow> slot_sample (tl_slot s) = current_sample s) \<and> writer_knows (tl_writer s) (tl_slot s)"

text \<open>What the reader has read is what the slot holds.\<close>
fun reader_current :: "reader_pc \<Rightarrow> TelemetrySlot \<Rightarrow> bool" where
  "reader_current (R_Delay v a) t = (a = ts_market_data_delay_ns t)"
| "reader_current (R_Depth v a b) t = (a = ts_market_data_delay_ns t \<and> b = ts_queue_depth t)"
| "reader_current (R_Gap v a b c) t =
     (a = ts_market_data_delay_ns t \<and> b = ts_queue_depth t \<and> c = ts_sequence_gap_count t)"
| "reader_current (R_Dropped v x) t = (x = slot_sample t)"
| "reader_current _ t = True"

text \<open>
  With \<open>k\<close> increments when the reader read the version: as long as \<open>k\<close> is even and no write has begun
  since, what it has read so far is from the current sample.
\<close>
definition reader_knows :: "nat \<Rightarrow> tele_sys \<Rightarrow> bool" where
  "reader_knows k s \<longleftrightarrow> k \<le> increments s
     \<and> (even k \<and> k = increments s \<longrightarrow> reader_current (tl_reader s) (tl_slot s))"

fun reader_version :: "reader_pc \<Rightarrow> u64 option" where
  "reader_version (R_V1 v) = Some v"
| "reader_version (R_Delay v _) = Some v"
| "reader_version (R_Depth v _ _) = Some v"
| "reader_version (R_Gap v _ _ _) = Some v"
| "reader_version (R_Dropped v _) = Some v"
| "reader_version _ = None"

definition reader_inv :: "tele_sys \<Rightarrow> bool" where
  "reader_inv s \<longleftrightarrow> (case reader_version (tl_reader s) of
       None \<Rightarrow> True
     | Some v \<Rightarrow> \<exists>k. v = of_nat k \<and> reader_knows k s)
   \<and> (\<forall>x. tl_reader s = R_Done x \<longrightarrow> x \<in> insert (0, 0, 0, 0) (set (tl_history s)))"

lemma word_odd: "(of_nat k :: u64) AND 1 \<noteq> 0 \<longleftrightarrow> odd k"
  by (simp only: and_one_eq flip: even_iff_mod_2_eq_zero) simp

lemma writer_inv_step: "tele_step s s' \<Longrightarrow> writer_inv s \<Longrightarrow> writer_inv s'"
  by (erule tele_stepE) (auto simp: writer_inv_def increments_def slot_sample_def current_sample_def)

lemma reader_inv_keep:
  assumes "reader_inv s" "reader_version (tl_reader s') = reader_version (tl_reader s)"
    "\<And>k. reader_knows k s \<Longrightarrow> reader_knows k s'" "set (tl_history s) \<subseteq> set (tl_history s')"
    "\<And>x. tl_reader s' = R_Done x \<Longrightarrow> tl_reader s = R_Done x"
  shows "reader_inv s'"
  using assms unfolding reader_inv_def by (auto split: option.splits)

lemma done_is_current:
  assumes "writer_inv s" "reader_inv s" "increments s < 2 ^ 64" "tl_reader s = R_Dropped v x"
    "v AND 1 = 0" "v = ts_version (tl_slot s)"
  shows "x = current_sample s"
proof -
  obtain k where k: "v = of_nat k" "reader_knows k s" using assms(2,4) by (auto simp: reader_inv_def)
  have "k \<le> increments s" "of_nat k = (of_nat (increments s) :: u64)"
    using k assms(1,6) by (auto simp: reader_knows_def writer_inv_def)
  moreover have "unat (of_nat n :: u64) = n" if "n \<le> increments s" for n
    using that assms(3) by (simp add: unat_of_nat take_bit_nat_eq_self)
  ultimately have "k = increments s" by (metis order_refl)
  moreover have "even k" using assms(5) k(1) word_odd by blast
  ultimately have "x = slot_sample (tl_slot s)" "tl_writer s = W_Idle"
    using k(2) assms(4) by (auto simp: reader_knows_def increments_def split: if_splits)
  then show ?thesis using assms(1) by (simp add: writer_inv_def)
qed

lemma reader_inv_step:
  assumes "tele_step s s'" "writer_inv s" "reader_inv s" "increments s < 2 ^ 64"
  shows "reader_inv s'"
  using assms(1)
proof cases
  case (r_done v x)
  then have "x = current_sample s" using done_is_current [OF assms(2-4)] by blast
  then show ?thesis using r_done(1) by (auto simp: reader_inv_def current_sample_def split: list.splits)
next
  case (r_v1 y)
  have "reader_knows (increments s) s'" using r_v1 by (simp add: reader_knows_def increments_def)
  then show ?thesis using r_v1(1) assms(2) by (auto simp: reader_inv_def writer_inv_def)
next
  case (r_retry v x)
  then show ?thesis by (simp add: reader_inv_def)
qed (rule reader_inv_keep [OF assms(3)]; auto simp: reader_knows_def increments_def slot_sample_def)+

text \<open>
  C13: The telemetry agent never reads a torn sample: in every interleaving of the writer's and the
  reader's accesses, a read that completes returns the four values of one write (or the initial
  zeros), never a mixture of two, as long as fewer than \<open>2 ^ 63\<close> writes have begun.
\<close>
theorem telemetry_read_not_torn:
  assumes "tele_reach s" "increments s < 2 ^ 64" "tl_reader s = R_Done x"
  shows "x \<in> insert (0, 0, 0, 0) (set (tl_history s))"
proof -
  have mono: "increments s \<le> increments s'" if "tele_step s s'" for s s'
    using that by cases (auto simp: increments_def)
  have "writer_inv s \<and> (increments s < 2 ^ 64 \<longrightarrow> reader_inv s)"
    using assms(1)
  proof (induction rule: tele_reach.induct)
    case reach_start
    show ?case by (simp add: writer_inv_def reader_inv_def tele_start_def increments_def TelemetrySlot_new_def
          slot_sample_def current_sample_def)
  next
    case (reach_step s s')
    then show ?case using writer_inv_step reader_inv_step mono [of s s'] by fastforce
  qed
  then show ?thesis using assms(2,3) by (auto simp: reader_inv_def)
qed

text \<open>A complete write followed by a complete read.\<close>
definition tele_state :: "u64 \<Rightarrow> sample \<Rightarrow> writer_pc \<Rightarrow> reader_pc \<Rightarrow> sample list \<Rightarrow> tele_sys" where
  "tele_state v x w r h = \<lparr>tl_slot = \<lparr>ts_version = v, ts_market_data_delay_ns = fst x, ts_queue_depth = fst (snd x),
     ts_sequence_gap_count = fst (snd (snd x)), ts_zmq_dropped_count = snd (snd (snd x))\<rparr>, tl_writer = w, tl_reader = r, tl_history = h\<rparr>"

lemma tele_reach_write: "tele_reach (tele_state 2 (1, 2, 3, 4) W_Idle R_Idle [(1, 2, 3, 4)])"
proof -
  let ?x = "(1, 2, 3, 4) :: sample"
  have "tele_reach (tele_state 0 (0, 0, 0, 0) W_Idle R_Idle [])"
    using reach_start by (simp add: tele_start_def tele_state_def TelemetrySlot_new_def)
  from reach_step [OF this w_begin [of _ ?x]]
  have "tele_reach (tele_state 1 (0, 0, 0, 0) (W_Odd ?x) R_Idle [])" by (simp add: tele_state_def)
  from reach_step [OF this w_delay [of _ 1 2 3 4]]
  have "tele_reach (tele_state 1 (1, 0, 0, 0) (W_Delay ?x) R_Idle [])" by (simp add: tele_state_def)
  from reach_step [OF this w_depth [of _ 1 2 3 4]]
  have "tele_reach (tele_state 1 (1, 2, 0, 0) (W_Depth ?x) R_Idle [])" by (simp add: tele_state_def)
  from reach_step [OF this w_gap [of _ 1 2 3 4]]
  have "tele_reach (tele_state 1 (1, 2, 3, 0) (W_Gap ?x) R_Idle [])" by (simp add: tele_state_def)
  from reach_step [OF this w_dropped [of _ 1 2 3 4]]
  have "tele_reach (tele_state 1 ?x (W_Dropped ?x) R_Idle [])" by (simp add: tele_state_def)
  from reach_step [OF this w_end [of _ ?x]]
  show ?thesis by (simp add: tele_state_def)
qed

theorem telemetry_read_not_torn_witness:
  "\<exists>s. tele_reach s \<and> tl_reader s = R_Done (1, 2, 3, 4) \<and> (1, 2, 3, 4) \<in> insert (0, 0, 0, 0) (set (tl_history s))"
proof -
  let ?x = "(1, 2, 3, 4) :: sample"
  let ?st = "\<lambda>r. tele_state 2 ?x W_Idle r [?x]"
  from reach_step [OF tele_reach_write r_v1 [of _ ?x]] have "tele_reach (?st (R_V1 2))" by (simp add: tele_state_def)
  from reach_step [OF this r_delay [of _ 2]] have "tele_reach (?st (R_Delay 2 1))" by (simp add: tele_state_def)
  from reach_step [OF this r_depth [of _ 2 1]] have "tele_reach (?st (R_Depth 2 1 2))" by (simp add: tele_state_def)
  from reach_step [OF this r_gap [of _ 2 1 2]] have "tele_reach (?st (R_Gap 2 1 2 3))" by (simp add: tele_state_def)
  from reach_step [OF this r_dropped [of _ 2 1 2 3]] have "tele_reach (?st (R_Dropped 2 ?x))" by (simp add: tele_state_def)
  from reach_step [OF this r_done [of _ 2 ?x]] have r: "tele_reach (?st (R_Done ?x))" by (simp add: tele_state_def)
  have "increments (?st (R_Done ?x)) < 2 ^ 64" "tl_reader (?st (R_Done ?x)) = R_Done ?x"
    by (simp_all add: tele_state_def increments_def)
  then show ?thesis using telemetry_read_not_torn [OF r] r by blast
qed

section \<open>Agent\<close>

text \<open>The gauges, by channel label; the exposed server itself is a flag.\<close>
record PrometheusExposer =
  ex_latency_gauges :: "u32 \<rightharpoonup> u64"
  ex_queue_depth_gauges :: "u32 \<rightharpoonup> u64"
  ex_zmq_dropped_gauge :: "u64 option"
  ex_healthy :: bool
  ex_serving :: bool

definition PrometheusExposer_new :: "bool \<Rightarrow> PrometheusExposer" where
  "PrometheusExposer_new listens = \<lparr>ex_latency_gauges = Map.empty, ex_queue_depth_gauges = Map.empty,
     ex_zmq_dropped_gauge = None, ex_healthy = listens, ex_serving = listens\<rparr>"

definition SetLatencyUs :: "u32 \<Rightarrow> u64 \<Rightarrow> PrometheusExposer \<Rightarrow> PrometheusExposer" where
  "SetLatencyUs channel_id ns e = e\<lparr>ex_latency_gauges := (ex_latency_gauges e)(channel_id \<mapsto> ns)\<rparr>"

definition SetQueueDepth :: "u32 \<Rightarrow> u64 \<Rightarrow> PrometheusExposer \<Rightarrow> PrometheusExposer" where
  "SetQueueDepth channel_id depth e = e\<lparr>ex_queue_depth_gauges := (ex_queue_depth_gauges e)(channel_id \<mapsto> depth)\<rparr>"

definition SetZmqDroppedTotal :: "u64 \<Rightarrow> PrometheusExposer \<Rightarrow> PrometheusExposer" where
  "SetZmqDroppedTotal n e = e\<lparr>ex_zmq_dropped_gauge := Some n\<rparr>"

definition Exposer_Stop :: "PrometheusExposer \<Rightarrow> PrometheusExposer" where
  "Exposer_Stop e = e\<lparr>ex_serving := False\<rparr>"

record TelemetryAgent =
  ta_exposer :: PrometheusExposer
  ta_slots :: "TelemetrySlot list"

definition RegisterSlot :: "TelemetrySlot \<Rightarrow> TelemetryAgent \<Rightarrow> TelemetryAgent" where
  "RegisterSlot slot a = a\<lparr>ta_slots := ta_slots a @ [slot]\<rparr>"

text \<open>The loop of \<open>PollAll\<close>; \<open>i\<close> is the index of the first slot of the rest.\<close>
fun poll_slots :: "nat \<Rightarrow> TelemetrySlot list \<Rightarrow> PrometheusExposer \<Rightarrow> PrometheusExposer option" where
  "poll_slots i [] e = Some e"
| "poll_slots i (s # rest) e =
     (case ReadTelemetrySlot s of
        None \<Rightarrow> None
      | Some (delay, depth, gap, dropped) \<Rightarrow>
          poll_slots (Suc i) rest (SetQueueDepth (of_nat i) depth (SetLatencyUs (of_nat i) delay e)))"

text \<open>\<open>None\<close>: spinning on a slot whose writer stopped in the middle of a write.\<close>
definition PollAll :: "u64 \<Rightarrow> TelemetryAgent \<Rightarrow> TelemetryAgent option" where
  "PollAll dropped_count a =
     map_option (\<lambda>e. a\<lparr>ta_exposer := SetZmqDroppedTotal dropped_count e\<rparr>) (poll_slots 0 (ta_slots a) (ta_exposer a))"

lemma poll_slots_gauges:
  "\<forall>s\<in>set slots. ts_version s AND 1 = 0 \<Longrightarrow> i + length slots \<le> 2 ^ 32 \<Longrightarrow> \<exists>e'. poll_slots i slots e = Some e'
   \<and> (\<forall>j < length slots. ex_latency_gauges e' (of_nat (i + j)) = Some (ts_market_data_delay_ns (slots ! j))
        \<and> ex_queue_depth_gauges e' (of_nat (i + j)) = Some (ts_queue_depth (slots ! j)))
   \<and> (\<forall>j < i. ex_latency_gauges e' (of_nat j) = ex_latency_gauges e (of_nat j)
        \<and> ex_queue_depth_gauges e' (of_nat j) = ex_queue_depth_gauges e (of_nat j))"
proof (induction slots arbitrary: i e)
  case (Cons s slots)
  let ?e = "SetQueueDepth (of_nat i) (ts_queue_depth s) (SetLatencyUs (of_nat i) (ts_market_data_delay_ns s) e)"
  have "(of_nat j :: u32) \<noteq> of_nat i" if "j < i" for j
  proof -
    have "unat (of_nat j :: u32) = j" "unat (of_nat i :: u32) = i"
      using that Cons.prems(2) by (simp_all add: unat_of_nat take_bit_nat_eq_self)
    then show ?thesis using that by (metis less_irrefl)
  qed
  then have low: "ex_latency_gauges ?e (of_nat j) = ex_latency_gauges e (of_nat j)
      \<and> ex_queue_depth_gauges ?e (of_nat j) = ex_queue_depth_gauges e (of_nat j)" if "j < i" for j
    using that by (simp add: SetQueueDepth_def SetLatencyUs_def)
  have cur: "ex_latency_gauges ?e (of_nat i) = Some (ts_market_data_delay_ns s)
      \<and> ex_queue_depth_gauges ?e (of_nat i) = Some (ts_queue_depth s)"
    by (simp add: SetQueueDepth_def SetLatencyUs_def)
  obtain e' where e': "poll_slots (Suc i) slots ?e = Some e'"
    "\<forall>j < length slots. ex_latency_gauges e' (of_nat (Suc i + j)) = Some (ts_market_data_delay_ns (slots ! j))
        \<and> ex_queue_depth_gauges e' (of_nat (Suc i + j)) = Some (ts_queue_depth (slots ! j))"
    "\<forall>j < Suc i. ex_latency_gauges e' (of_nat j) = ex_latency_gauges ?e (of_nat j)
        \<and> ex_queue_depth_gauges e' (of_nat j) = ex_queue_depth_gauges ?e (of_nat j)"
    using Cons.IH [of "Suc i" ?e] Cons.prems by auto
  have "poll_slots i (s # slots) e = Some e'"
    using e'(1) Cons.prems(1) by (simp add: ReadTelemetrySlot_def slot_sample_def)
  moreover have "ex_latency_gauges e' (of_nat (i + j)) = Some (ts_market_data_delay_ns ((s # slots) ! j))
      \<and> ex_queue_depth_gauges e' (of_nat (i + j)) = Some (ts_queue_depth ((s # slots) ! j))"
    if "j < length (s # slots)" for j
    using e'(2,3) cur that by (cases j) auto
  ultimately show ?case using e'(3) low by auto
qed simp

end
