(* ===== verification/Data_Dispatcher.thy ===== *)
theory Data_Dispatcher
  imports Storage_Router Pub_Worker Telemetry Shard_Queue
begin

text \<open>
  The dispatcher (\<open>src/exchange/data_dispatcher.cpp\<close>) that every parsed event passes: it resolves the
  channel, stamps the latency, and hands the event to storage, to the publisher and to the worker's
  telemetry slot. The singletons it calls are the components of the state \<open>sinks\<close>.
\<close>

section \<open>Operations\<close>

text \<open>The worker's telemetry slot, when it has one, and its input queue, when it has one.\<close>
record 'f DataDispatcher =
  dd_has_slot :: bool
  dd_shard_queue :: "'f ShardQueue option"
  dd_shard_idx :: nat

record 's sinks =
  sk_router :: "'s StorageRouter"
  sk_pub :: PubWorker
  sk_slot :: TelemetrySlot

definition WriteTelemetry :: "'f DataDispatcher \<Rightarrow> u64 \<Rightarrow> 's sinks \<Rightarrow> 's sinks" where
  "WriteTelemetry d latency_ns s =
     (if \<not> dd_has_slot d then s
      else let q_depth = (case dd_shard_queue d of None \<Rightarrow> 0 | Some q \<Rightarrow> shq_size q)
           in s\<lparr>sk_slot := WriteTelemetrySlot latency_ns q_depth 0 (dropped_count (sk_pub s)) (sk_slot s)\<rparr>)"

definition OnTick ::
  "('v, 's) router_env \<Rightarrow> u64 \<Rightarrow> ChannelRegistry \<Rightarrow> 'f DataDispatcher \<Rightarrow> TickData \<Rightarrow> 's sinks \<Rightarrow> 's sinks" where
  "OnTick env now_ns reg d tick s =
     (case ChannelRegistry_Lookup reg (tick_channel_id tick) of
        None \<Rightarrow> s
      | Some info \<Rightarrow>
          let t = tick\<lparr>tick_local_diff := now_ns - tick_local_diff tick\<rparr>;
              s1 = s\<lparr>sk_router := RouteTick env t info (sk_router s)\<rparr>;
              s2 = s1\<lparr>sk_pub := PublishTick t (dd_shard_idx d) (sk_pub s1)\<rparr>
          in WriteTelemetry d (tick_local_diff t) s2)"

definition OnDepth ::
  "('v, 's) router_env \<Rightarrow> u64 \<Rightarrow> ChannelRegistry \<Rightarrow> 'f DataDispatcher \<Rightarrow> u32 \<Rightarrow> DepthUpdateEvent \<Rightarrow> 's sinks \<Rightarrow> 's sinks" where
  "OnDepth env now_ns reg d channel_id event s =
     (case ChannelRegistry_Lookup reg channel_id of
        None \<Rightarrow> s
      | Some info \<Rightarrow>
          let latency_ns = now_ns - dep_local_diff event;
              s1 = s\<lparr>sk_router := RouteOrderbook env event latency_ns info (sk_router s)\<rparr>;
              s2 = s1\<lparr>sk_pub := PublishDepth event (dd_shard_idx d) (sk_pub s1)\<rparr>
          in WriteTelemetry d latency_ns s2)"

definition OnBookTicker ::
  "('v, 's) router_env \<Rightarrow> u64 \<Rightarrow> ChannelRegistry \<Rightarrow> 'f DataDispatcher \<Rightarrow> u32 \<Rightarrow> BookTickerEvent \<Rightarrow> 's sinks \<Rightarrow> 's sinks" where
  "OnBookTicker env now_ns reg d channel_id event s =
     (case ChannelRegistry_Lookup reg channel_id of
        None \<Rightarrow> s
      | Some info \<Rightarrow>
          let e = event\<lparr>bt_local_diff := now_ns - bt_local_diff event\<rparr>;
              s1 = s\<lparr>sk_router := RouteBookTicker env e info (sk_router s)\<rparr>;
              s2 = s1\<lparr>sk_pub := PublishBookTicker e (dd_shard_idx d) (sk_pub s1)\<rparr>
          in WriteTelemetry d (bt_local_diff e) s2)"

text \<open>The three handlers as the callers use them, with the event's own channel.\<close>
fun dispatch_event ::
  "('v, 's) router_env \<Rightarrow> u64 \<Rightarrow> ChannelRegistry \<Rightarrow> 'f DataDispatcher \<Rightarrow> pub_event \<Rightarrow> 's sinks \<Rightarrow> 's sinks" where
  "dispatch_event env now reg d (PE_Tick t) = OnTick env now reg d t"
| "dispatch_event env now reg d (PE_Depth e) = OnDepth env now reg d (dep_channel_id e) e"
| "dispatch_event env now reg d (PE_BookTicker e) = OnBookTicker env now reg d (bt_channel_id e) e"

section \<open>What reaches the sinks\<close>

text \<open>What storage is given for an event: latencies are differences modulo \<open>2 ^ 64\<close>.\<close>
fun stored_form :: "u64 \<Rightarrow> ChannelInfo \<Rightarrow> pub_event \<Rightarrow> storage_event" where
  "stored_form now info (PE_Tick t) = SE_Tick (t\<lparr>tick_local_diff := now - tick_local_diff t\<rparr>)"
| "stored_form now info (PE_Depth e) = SE_Orderbook e (now - dep_local_diff e) (ci_depth_level info)"
| "stored_form now info (PE_BookTicker e) = SE_BookTicker (e\<lparr>bt_local_diff := now - bt_local_diff e\<rparr>)"

fun dispatch_all ::
  "ChannelRegistry \<Rightarrow> 'f DataDispatcher \<Rightarrow> (('v, 's) router_env \<times> u64 \<times> pub_event) list \<Rightarrow> 's sinks \<Rightarrow> 's sinks" where
  "dispatch_all reg d [] s = s"
| "dispatch_all reg d ((env, now, e) # rest) s = dispatch_all reg d rest (dispatch_event env now reg d e s)"

text \<open>The events of registered channels, as storage sees them.\<close>
fun to_storage ::
  "ChannelRegistry \<Rightarrow> (('v, 's) router_env \<times> u64 \<times> pub_event) list \<Rightarrow> (('v, 's) router_env \<times> storage_event) list" where
  "to_storage reg [] = []"
| "to_storage reg ((env, now, e) # rest) =
     (case ChannelRegistry_Lookup reg (pe_channel e) of
        None \<Rightarrow> to_storage reg rest
      | Some info \<Rightarrow> (env, stored_form now info e) # to_storage reg rest)"

lemma WriteTelemetry_sinks [simp]:
  "sk_router (WriteTelemetry d l s) = sk_router s" "sk_pub (WriteTelemetry d l s) = sk_pub s"
  by (simp_all add: WriteTelemetry_def Let_def)

lemma dispatch_router:
  "sr_backend (sk_router (dispatch_event env now reg d e s)) =
     (case ChannelRegistry_Lookup reg (pe_channel e) of
        None \<Rightarrow> sr_backend (sk_router s)
      | Some info \<Rightarrow> backend_insert env (stored_form now info e) (sr_backend (sk_router s)))"
  by (cases e) (simp_all add: OnTick_def OnDepth_def OnBookTicker_def RouteTick_def RouteOrderbook_def
      RouteBookTicker_def Let_def split: option.splits)

text \<open>Queued or counted: what the publisher's queues hold plus what it counted as dropped.\<close>
definition taken :: "PubWorker \<Rightarrow> u64" where
  "taken w = of_nat (queued w) + pw_dropped_queue w"

definition queues_ok :: "PubWorker \<Rightarrow> bool" where
  "queues_ok w \<longleftrightarrow> (\<forall>s\<in>set (pw_shards w). spsc_inv (shq_tick s) \<and> spsc_inv (shq_depth s) \<and> spsc_inv (shq_book_ticker s))"

lemma try_push_len:
  assumes "spsc_inv q" "try_push x q = (ok, q')"
  shows "spsc_inv q' \<and> spsc_len q' = spsc_len q + (if ok then 1 else 0)"
proof -
  have len: "length (spsc_items p) = spsc_len p" for p :: "'a SPSCQueue" by (simp add: spsc_items_def)
  show ?thesis
  proof (cases "length (spsc_items q) < spsc_cap q")
    case True
    then obtain p where "try_push x q = (True, p)" "spsc_inv p" "spsc_items p = spsc_items q @ [x]"
      using spsc.push_room [of q x] assms(1) by blast
    then show ?thesis using assms(2) len [of p] len [of q] by simp
  next
    case False
    then have "length (spsc_items q) = spsc_cap q" using spsc.items_bound [OF assms(1)] by simp
    then show ?thesis using spsc.push_full [OF assms(1), of x] assms by auto
  qed
qed

lemma sum_list_update_add:
  fixes xs :: "nat list"
  assumes "i < length xs"
  shows "sum_list (xs[i := xs ! i + n]) = sum_list xs + n"
  using assms by (induction xs arbitrary: i) (auto split: nat.splits)

lemma publish_taken_aux:
  assumes "queues_ok w" "i < length (pw_shards w)"
    "spsc_inv (shq_tick s) \<and> spsc_inv (shq_depth s) \<and> spsc_inv (shq_book_ticker s)"
    "shard_len s = shard_len (pw_shards w ! i) + (if ok then 1 else 0)"
  shows "taken (count_drop ok (w\<lparr>pw_shards := (pw_shards w)[i := s]\<rparr>)) = taken w + 1
    \<and> queues_ok (count_drop ok (w\<lparr>pw_shards := (pw_shards w)[i := s]\<rparr>))
    \<and> length (pw_shards (count_drop ok (w\<lparr>pw_shards := (pw_shards w)[i := s]\<rparr>))) = length (pw_shards w)"
proof -
  have "queued (w\<lparr>pw_shards := (pw_shards w)[i := s]\<rparr>) = queued w + (if ok then 1 else 0)"
    using sum_list_update_add [of i "map shard_len (pw_shards w)"] assms(2,4) by (simp add: queued_def map_update)
  moreover have "queued (count_drop ok v) = queued v" for v by (simp add: count_drop_def queued_def)
  ultimately have "taken (count_drop ok (w\<lparr>pw_shards := (pw_shards w)[i := s]\<rparr>)) = taken w + 1"
    unfolding taken_def by (simp add: count_drop_def)
  then show ?thesis
    using assms(1,3) set_update_subset_insert [of "pw_shards w" i s] by (auto simp: queues_ok_def count_drop_def)
qed

lemma publish_taken:
  assumes "queues_ok w" "i < length (pw_shards w)"
  shows "taken (publish_event e i w) = taken w + 1 \<and> queues_ok (publish_event e i w)
    \<and> length (pw_shards (publish_event e i w)) = length (pw_shards w)"
proof -
  have inv: "spsc_inv (shq_tick (pw_shards w ! i))" "spsc_inv (shq_depth (pw_shards w ! i))"
    "spsc_inv (shq_book_ticker (pw_shards w ! i))"
    using assms by (simp_all add: queues_ok_def)
  show ?thesis
  proof (cases e)
    case (PE_Tick t)
    obtain ok q where q: "try_push t (shq_tick (pw_shards w ! i)) = (ok, q)" by fastforce
    show ?thesis
      using publish_taken_aux [OF assms, of "(pw_shards w ! i)\<lparr>shq_tick := q\<rparr>" ok] try_push_len [OF inv(1) q] inv q assms(2) PE_Tick
      by (simp add: PublishTick_def shard_len_def)
  next
    case (PE_Depth d)
    obtain ok q where q: "try_push d (shq_depth (pw_shards w ! i)) = (ok, q)" by fastforce
    show ?thesis
      using publish_taken_aux [OF assms, of "(pw_shards w ! i)\<lparr>shq_depth := q\<rparr>" ok] try_push_len [OF inv(2) q] inv q assms(2) PE_Depth
      by (simp add: PublishDepth_def shard_len_def)
  next
    case (PE_BookTicker b)
    obtain ok q where q: "try_push b (shq_book_ticker (pw_shards w ! i)) = (ok, q)" by fastforce
    show ?thesis
      using publish_taken_aux [OF assms, of "(pw_shards w ! i)\<lparr>shq_book_ticker := q\<rparr>" ok] try_push_len [OF inv(3) q] inv q assms(2) PE_BookTicker
      by (simp add: PublishBookTicker_def shard_len_def)
  qed
qed

lemma dispatch_pub:
  "\<exists>e'. sk_pub (dispatch_event env now reg d e s) =
     (if ChannelRegistry_Lookup reg (pe_channel e) = None then sk_pub s else publish_event e' (dd_shard_idx d) (sk_pub s))"
proof (cases e)
  case (PE_Tick t)
  then show ?thesis
    by (intro exI [of _ "PE_Tick (t\<lparr>tick_local_diff := now - tick_local_diff t\<rparr>)"]) (auto simp: OnTick_def Let_def)
next
  case (PE_Depth b)
  then show ?thesis by (intro exI [of _ "PE_Depth b"]) (auto simp: OnDepth_def Let_def)
next
  case (PE_BookTicker b)
  then show ?thesis
    by (intro exI [of _ "PE_BookTicker (b\<lparr>bt_local_diff := now - bt_local_diff b\<rparr>)"]) (auto simp: OnBookTicker_def Let_def)
qed



text \<open>
  The sentinel that a dropped event leaves in the shared-memory queue (a zeroed event) is discarded
  here, unless a channel happens to have the identifier 0.
\<close>
lemma sentinel_discarded:
  "ChannelRegistry_Lookup reg 0 = None \<Longrightarrow> dispatch_event env now reg d (PE_Tick tick_zero) s = s"
  by (simp add: OnTick_def tick_zero_def)

end
