(* ===== verification/Rithmic_Shm.thy ===== *)
theory Rithmic_Shm
  imports Mpsc_Queue Pub_Worker
begin

text \<open>
  The shared memory between the collector and its gateway process: the layout of the region and the
  \<open>ShmSetup\<close> helper (\<open>src/exchange/rithmic/rithmic_shm.h\<close>), the timestamp conversions of
  \<open>src/exchange/rithmic/rithmic_types.h\<close>, and the receiver thread that polls the three queues
  (\<open>src/exchange/rithmic/rithmic_receiver.cpp\<close>). The shared-memory file system is a map from names to
  objects; the results of the system calls are arguments.
\<close>

section \<open>Timestamps\<close>

text \<open>\<open>int\<close> arguments are sign-extended to 64 bits.\<close>
definition ToEpochMicros :: "int \<Rightarrow> int \<Rightarrow> u64" where
  "ToEpochMicros ssboe usecs = word_of_int ssboe * 1000000 + word_of_int usecs"

definition ResolveRithmicExchangeTimestamp :: "u64 \<Rightarrow> u64 \<Rightarrow> nat \<Rightarrow> nat \<Rightarrow> u64 option" where
  "ResolveRithmicExchangeTimestamp now_us raw_ts bid_count ask_count =
     (if raw_ts \<noteq> 0 then Some raw_ts
      else if bid_count = 0 \<and> ask_count = 0 then None
      else Some now_us)"

lemma ToEpochMicros_exact:
  assumes "0 \<le> ssboe" "ssboe < 2 ^ 31" "0 \<le> usecs" "usecs < 1000000"
  shows "uint (ToEpochMicros ssboe usecs) = ssboe * 1000000 + usecs"
proof -
  have "ToEpochMicros ssboe usecs = word_of_int (ssboe * 1000000 + usecs)" by (simp add: ToEpochMicros_def)
  then have "uint (ToEpochMicros ssboe usecs) = take_bit 64 (ssboe * 1000000 + usecs)"
    by (simp only: uint_word_of_int take_bit_eq_mod) simp
  also have "\<dots> = ssboe * 1000000 + usecs" using assms by (intro take_bit_int_eq_self) simp_all
  finally show ?thesis .
qed

section \<open>Layout\<close>

text \<open>The compiler's layout rules: members at the next multiple of their alignment.\<close>
definition align_up :: "nat \<Rightarrow> nat \<Rightarrow> nat" where
  "align_up a n = (n + (a - 1)) div a * a"

definition kTickQueueCapacity :: nat where
  "kTickQueueCapacity = 16384"

definition kDepthQueueCapacity :: nat where
  "kDepthQueueCapacity = 256"

definition kBookTickerQueueCapacity :: nat where
  "kBookTickerQueueCapacity = 1024"

text \<open>A \<open>Slot\<close>: an 8-byte sequence number, then the element of the given size and alignment.\<close>
definition slot_sizeof :: "nat \<Rightarrow> nat \<Rightarrow> nat" where
  "slot_sizeof elem_size elem_align = align_up (max 8 elem_align) (align_up elem_align 8 + elem_size)"

text \<open>
  \<open>MpscRithmicQueue\<close>: \<open>write_pos_\<close> and \<open>dropped_count_\<close> on cache lines of their own, the slots, and
  \<open>read_pos_\<close> on another cache line; the whole is a multiple of its 64-byte alignment.
\<close>
definition queue_sizeof :: "nat \<Rightarrow> nat \<Rightarrow> nat \<Rightarrow> nat" where
  "queue_sizeof elem_size elem_align capacity =
     (let slots_at = align_up (max 8 elem_align) (64 + 8);
          slots_end = slots_at + capacity * slot_sizeof elem_size elem_align
      in align_up 64 (align_up 64 slots_end + 8))"

definition queue_alignof :: nat where
  "queue_alignof = 64"

definition sizeof_ShmHeader :: nat where
  "sizeof_ShmHeader = 8 + 8 + 8 + 4 + 4"

definition sizeof_TickQueue :: nat where
  "sizeof_TickQueue = queue_sizeof 64 64 kTickQueueCapacity"

definition sizeof_DepthQueue :: nat where
  "sizeof_DepthQueue = queue_sizeof 3256 8 kDepthQueueCapacity"

definition sizeof_BookTickerQueue :: nat where
  "sizeof_BookTickerQueue = queue_sizeof 72 8 kBookTickerQueueCapacity"

definition kTickQueueOffset :: nat where
  "kTickQueueOffset = sizeof_ShmHeader"

definition kDepthQueueOffset :: nat where
  "kDepthQueueOffset = kTickQueueOffset + sizeof_TickQueue"

definition kBookTickerQueueOffset :: nat where
  "kBookTickerQueueOffset = kDepthQueueOffset + sizeof_DepthQueue"

definition kTotalShmSize :: nat where
  "kTotalShmSize = kBookTickerQueueOffset + sizeof_BookTickerQueue"

lemmas layout_defs = kTickQueueOffset_def kDepthQueueOffset_def kBookTickerQueueOffset_def kTotalShmSize_def
  sizeof_ShmHeader_def sizeof_TickQueue_def sizeof_DepthQueue_def sizeof_BookTickerQueue_def queue_sizeof_def
  slot_sizeof_def align_up_def kTickQueueCapacity_def kDepthQueueCapacity_def kBookTickerQueueCapacity_def

text \<open>The element sizes are those of the wire layout.\<close>
lemma element_sizes:
  "tick_wf t \<Longrightarrow> length p7 = 7 \<Longrightarrow> length (tick_bytes p7 t) = 64"
  "depth_wf e \<Longrightarrow> length p = 4 \<Longrightarrow> length q = 4 \<Longrightarrow> length (depth_bytes p q e) = 3256"
  "book_ticker_wf b \<Longrightarrow> length p = 4 \<Longrightarrow> length q = 4 \<Longrightarrow> length (book_ticker_bytes p q b) = 72"
  by (simp_all add: length_tick_bytes length_depth_bytes length_book_ticker_bytes)

text \<open>
  The shared memory region is laid out without overlap: the header and the three queues follow
  each other in order, the last one ends exactly at the total size, every atomic counter is 8-byte
  aligned, but no queue has the 64-byte alignment its type requires.
\<close>
theorem shm_layout_sound:
  "sizeof_ShmHeader \<le> kTickQueueOffset
   \<and> kTickQueueOffset + sizeof_TickQueue \<le> kDepthQueueOffset
   \<and> kDepthQueueOffset + sizeof_DepthQueue \<le> kBookTickerQueueOffset
   \<and> kBookTickerQueueOffset + sizeof_BookTickerQueue = kTotalShmSize
   \<and> (kTickQueueOffset, kDepthQueueOffset, kBookTickerQueueOffset, kTotalShmSize) = (32, 2097376, 2933152, 3015264)
   \<and> map (\<lambda>k. k mod 8) [kTickQueueOffset, kDepthQueueOffset, kBookTickerQueueOffset] = [0, 0, 0]
   \<and> map (\<lambda>k. k mod queue_alignof) [kTickQueueOffset, kDepthQueueOffset, kBookTickerQueueOffset] = [32, 32, 32]"
  by (simp add: layout_defs queue_alignof_def)

section \<open>Creating and opening the region\<close>

record ShmHeader =
  sh_magic :: u64
  sh_version :: u64
  sh_heartbeat_ns :: u64
  sh_child_ready :: u32
  sh_parent_ready :: u32

definition kMagic :: u64 where
  "kMagic = 0x52534D5153484D50"

definition ShmHeader_new :: ShmHeader where
  "ShmHeader_new = \<lparr>sh_magic = kMagic, sh_version = 1, sh_heartbeat_ns = 0, sh_child_ready = 0, sh_parent_ready = 0\<rparr>"

record shm_object =
  so_size :: nat
  so_header :: ShmHeader
  so_tick_queue :: "TickData MpscQueue"
  so_depth_queue :: "DepthUpdateEvent MpscQueue"
  so_book_ticker_queue :: "BookTickerEvent MpscQueue"

text \<open>A queue in freshly truncated memory: all bytes zero.\<close>
definition zero_queue :: "'a \<Rightarrow> nat \<Rightarrow> 'a MpscQueue" where
  "zero_queue z capacity = \<lparr>mq_write_pos = 0, mq_dropped_count = 0, mq_seq = replicate capacity 0,
     mq_data = replicate capacity z, mq_read_pos = 0\<rparr>"

definition shm_zero :: "nat \<Rightarrow> shm_object" where
  "shm_zero n = \<lparr>so_size = n,
     so_header = \<lparr>sh_magic = 0, sh_version = 0, sh_heartbeat_ns = 0, sh_child_ready = 0, sh_parent_ready = 0\<rparr>,
     so_tick_queue = zero_queue tick_zero kTickQueueCapacity, so_depth_queue = zero_queue depth_zero kDepthQueueCapacity,
     so_book_ticker_queue = zero_queue book_ticker_zero kBookTickerQueueCapacity\<rparr>"

type_synonym shm_dir = "string \<rightharpoonup> shm_object"

text \<open>
  Whether each system call succeeds. \<open>sv_unlink\<close> is the removal of an object left by an earlier run,
  which may belong to another user; removing the object the process has just created succeeds.
\<close>
record shm_env =
  sv_unlink :: bool
  sv_open :: bool
  sv_ftruncate :: bool
  sv_fstat :: bool
  sv_mmap :: bool

datatype shm_error = ShmOpenCreate | ShmFtruncate | ShmOpen | ShmFstat | ShmMmap | ShmBadMagic

record ShmSetup =
  ss_name :: string
  ss_size :: nat
  ss_created :: bool

definition ShmSetup_create :: "shm_env \<Rightarrow> string \<Rightarrow> nat \<Rightarrow> shm_dir \<Rightarrow> (shm_error + ShmSetup) \<times> shm_dir" where
  "ShmSetup_create env name size_bytes dir0 =
     (let dir = (if sv_unlink env then dir0(name := None) else dir0)
      in if \<not> sv_open env \<or> dir name \<noteq> None then (Inl ShmOpenCreate, dir)
         else if \<not> sv_ftruncate env then (Inl ShmFtruncate, dir(name := None))
         else if \<not> sv_mmap env \<or> size_bytes = 0 then (Inl ShmMmap, dir(name := None))
         else (Inr \<lparr>ss_name = name, ss_size = size_bytes, ss_created = True\<rparr>,
               dir(name \<mapsto> (shm_zero size_bytes)\<lparr>so_header := ShmHeader_new\<rparr>)))"

definition ShmSetup_open :: "shm_env \<Rightarrow> string \<Rightarrow> shm_dir \<Rightarrow> shm_error + ShmSetup" where
  "ShmSetup_open env name dir =
     (case (if sv_open env then dir name else None) of
        None \<Rightarrow> Inl ShmOpen
      | Some obj \<Rightarrow>
          if \<not> sv_fstat env then Inl ShmFstat
          else if \<not> sv_mmap env \<or> so_size obj = 0 then Inl ShmMmap
          else if sh_magic (so_header obj) \<noteq> kMagic then Inl ShmBadMagic
          else Inr \<lparr>ss_name = name, ss_size = so_size obj, ss_created = False\<rparr>)"

definition ShmSetup_destroy :: "ShmSetup \<Rightarrow> shm_dir \<Rightarrow> shm_dir" where
  "ShmSetup_destroy s dir = (if ss_created s then dir(ss_name s := None) else dir)"

text \<open>
  Placement construction of the three queues (\<open>RithmicProcessManager::Setup\<close>). The elements keep the
  zero bytes of the new object.
\<close>
definition construct_queues :: "shm_object \<Rightarrow> shm_object" where
  "construct_queues shm = shm\<lparr>
     so_tick_queue := MpscQueue_new tick_zero kTickQueueCapacity,
     so_depth_queue := MpscQueue_new depth_zero kDepthQueueCapacity,
     so_book_ticker_queue := MpscQueue_new book_ticker_zero kBookTickerQueueCapacity\<rparr>"

text \<open>
  C25: Creating the region and opening it by name is a round trip: a successful creation leaves an
  object which another process opens with the created size and a valid header until the creator's
  destructor removes it; a failed creation leaves no object under the name, unless one of an earlier
  run could not be removed.
\<close>
theorem shm_create_open:
  assumes "ShmSetup_create env name n dir = (r, dir')" "sv_open env'" "sv_fstat env'" "sv_mmap env'"
  shows "case r of
      Inl e \<Rightarrow> dir' name = None \<or> (e = ShmOpenCreate \<and> \<not> sv_unlink env \<and> dir' = dir)
    | Inr s \<Rightarrow> ShmSetup_open env' name dir' = Inr \<lparr>ss_name = name, ss_size = n, ss_created = False\<rparr>
         \<and> map_option so_header (dir' name) = Some ShmHeader_new
         \<and> ShmSetup_destroy s dir' = dir(name := None)"
  using assms by (auto simp: ShmSetup_create_def ShmSetup_open_def ShmSetup_destroy_def shm_zero_def ShmHeader_new_def
      Let_def split: if_splits)

definition sample_shm_env :: shm_env where
  "sample_shm_env = \<lparr>sv_unlink = True, sv_open = True, sv_ftruncate = True, sv_fstat = True, sv_mmap = True\<rparr>"

theorem shm_create_open_witness:
  "\<exists>s dir'. ShmSetup_create sample_shm_env ''/q'' kTotalShmSize (\<lambda>_. None) = (Inr s, dir')
     \<and> ShmSetup_open sample_shm_env ''/q'' dir' = Inr \<lparr>ss_name = ''/q'', ss_size = kTotalShmSize, ss_created = False\<rparr>"
proof -
  have "kTotalShmSize \<noteq> 0" by (simp add: kTotalShmSize_def kBookTickerQueueOffset_def kDepthQueueOffset_def
        kTickQueueOffset_def sizeof_ShmHeader_def)
  then obtain s dir' where c: "ShmSetup_create sample_shm_env ''/q'' kTotalShmSize (\<lambda>_. None) = (Inr s, dir')"
    by (simp add: ShmSetup_create_def sample_shm_env_def Let_def)
  then show ?thesis using shm_create_open [OF c, of sample_shm_env] by (simp add: sample_shm_env_def)
qed

section \<open>Receiver\<close>

text \<open>One iteration of the polling loop: trades first, then book tickers, then depth.\<close>
definition receive_one :: "shm_object \<Rightarrow> (pub_event \<times> shm_object) option" where
  "receive_one shm =
     (case MTryPop (so_tick_queue shm) of
        Some (tick, q) \<Rightarrow> Some (PE_Tick tick, shm\<lparr>so_tick_queue := q\<rparr>)
      | None \<Rightarrow>
          (case MTryPop (so_book_ticker_queue shm) of
             Some (bt, q) \<Rightarrow> Some (PE_BookTicker bt, shm\<lparr>so_book_ticker_queue := q\<rparr>)
           | None \<Rightarrow>
               (case MTryPop (so_depth_queue shm) of
                  Some (depth, q) \<Rightarrow> Some (PE_Depth depth, shm\<lparr>so_depth_queue := q\<rparr>)
                | None \<Rightarrow> None)))"

text \<open>\<open>Run\<close> for a number of iterations (until \<open>Stop\<close>): the events handed to the handlers, in order.\<close>
fun receiver_run :: "nat \<Rightarrow> shm_object \<Rightarrow> pub_event list \<times> shm_object" where
  "receiver_run 0 shm = ([], shm)"
| "receiver_run (Suc n) shm =
     (case receive_one shm of
        None \<Rightarrow> receiver_run n shm
      | Some (e, shm1) \<Rightarrow> (case receiver_run n shm1 of (es, shm2) \<Rightarrow> (e # es, shm2)))"

definition shm_ok :: "shm_object \<Rightarrow> bool" where
  "shm_ok shm \<longleftrightarrow> mq_inv (so_tick_queue shm) \<and> mq_inv (so_depth_queue shm) \<and> mq_inv (so_book_ticker_queue shm)"

text \<open>What is queued, in the order the receiver takes it when nothing else arrives.\<close>
definition shm_events :: "shm_object \<Rightarrow> pub_event list" where
  "shm_events shm = map PE_Tick (mq_items (so_tick_queue shm)) @ map PE_BookTicker (mq_items (so_book_ticker_queue shm))
     @ map PE_Depth (mq_items (so_depth_queue shm))"

lemma mpop_cases:
  assumes "mq_inv q"
  shows "(mq_items q = [] \<and> MTryPop q = None)
    \<or> (\<exists>x q'. MTryPop q = Some (x, q') \<and> mq_inv q' \<and> mq_items q = x # mq_items q')"
proof (cases "mq_items q")
  case Nil
  then show ?thesis using mpsc.pop_empty [OF assms] by simp
next
  case (Cons x xs)
  then show ?thesis using mpsc.pop_item [OF assms] by fastforce
qed

lemma receive_one_events:
  assumes "shm_ok shm"
  shows "case receive_one shm of
      None \<Rightarrow> shm_events shm = []
    | Some (e, shm') \<Rightarrow> shm_ok shm' \<and> shm_events shm = e # shm_events shm'"
  using mpop_cases [of "so_tick_queue shm"] mpop_cases [of "so_depth_queue shm"] mpop_cases [of "so_book_ticker_queue shm"] assms
  unfolding shm_ok_def receive_one_def shm_events_def by auto


lemma new_queue_ok:
  assumes "2 \<le> capacity"
  shows "mq_inv (MpscQueue_new d capacity)" "mq_items (MpscQueue_new d capacity) = []"
  using assms by (simp_all add: mq_inv_def mq_items_def MpscQueue_new_def mq_capacity_def slot_of_def)

lemma construct_queues_ok: "shm_ok (construct_queues shm)" "shm_events (construct_queues shm) = []"
  by (simp_all add: construct_queues_def shm_ok_def shm_events_def new_queue_ok kTickQueueCapacity_def
      kDepthQueueCapacity_def kBookTickerQueueCapacity_def)


end
