(* ===== verification/Secure_String.thy ===== *)
theory Secure_String
  imports Prelude
begin

text \<open>
  The wrapper for credentials (\<open>src/config/secure_string.h\<close>). What matters is the memory behind the strings,
  so a \<open>std::string\<close> is its whole storage together with its length: a string may have characters of
  earlier values behind its end. The theorems say which bytes of a secret are left where.
\<close>

section \<open>Strings with their storage\<close>

record cpp_string =
  st_buf :: char_array
  st_size :: nat

definition str_value :: "cpp_string \<Rightarrow> string" where
  "str_value s = take (st_size s) (st_buf s)"

definition str_wf :: "cpp_string \<Rightarrow> bool" where
  "str_wf s \<longleftrightarrow> st_size s \<le> length (st_buf s)"

text \<open>An empty string with the \<open>n\<close> bytes of its inline buffer.\<close>
definition str_empty :: "nat \<Rightarrow> cpp_string" where
  "str_empty n = \<lparr>st_buf = replicate n NUL, st_size = 0\<rparr>"

text \<open>\<open>OPENSSL_cleanse(s.data(), n)\<close>.\<close>
definition cleanse :: "nat \<Rightarrow> cpp_string \<Rightarrow> cpp_string" where
  "cleanse n s = s\<lparr>st_buf := replicate (min n (length (st_buf s))) NUL @ drop n (st_buf s)\<rparr>"

definition str_clear :: "cpp_string \<Rightarrow> cpp_string" where
  "str_clear s = s\<lparr>st_buf := (st_buf s)[0 := NUL], st_size := 0\<rparr>"

text \<open>
  A copy has storage of its own, at least as long as the text, with nothing else in it; an assignment writes the
  text into the storage of the target when it fits, and otherwise into new storage of \<open>n\<close> more bytes.
\<close>
definition str_copy :: "nat \<Rightarrow> cpp_string \<Rightarrow> cpp_string" where
  "str_copy n s = \<lparr>st_buf = str_value s @ replicate n NUL, st_size = st_size s\<rparr>"

definition str_assign :: "nat \<Rightarrow> cpp_string \<Rightarrow> cpp_string \<Rightarrow> cpp_string" where
  "str_assign n src dst =
     (if st_size src < length (st_buf dst)
      then \<lparr>st_buf = str_value src @ NUL # drop (Suc (st_size src)) (st_buf dst), st_size = st_size src\<rparr>
      else str_copy n src)"

section \<open>The operations\<close>

definition Destroy :: "cpp_string \<Rightarrow> cpp_string" where
  "Destroy data = (if st_size data \<noteq> 0 then str_clear (cleanse (st_size data) data) else data)"

text \<open>The new object and what is left of the argument. \<open>n\<close> is the size of the inline buffer.\<close>
definition FromPlain :: "nat \<Rightarrow> cpp_string \<Rightarrow> cpp_string \<times> cpp_string" where
  "FromPlain n plain = (plain, cleanse n (str_empty n))"

text \<open>The move constructor: the new object and what is left of the other.\<close>
definition SecureString_move :: "nat \<Rightarrow> cpp_string \<Rightarrow> cpp_string \<times> cpp_string" where
  "SecureString_move n other = (str_copy n other, Destroy other)"

text \<open>The move assignment to another object: the target and what is left of the source.\<close>
definition SecureString_assign :: "nat \<Rightarrow> cpp_string \<Rightarrow> cpp_string \<Rightarrow> cpp_string \<times> cpp_string" where
  "SecureString_assign n this other = (str_assign n other (Destroy this), Destroy other)"

section \<open>No byte of a secret is left behind\<close>

text \<open>All bytes behind the text are zero.\<close>
definition clean_tail :: "cpp_string \<Rightarrow> bool" where
  "clean_tail s \<longleftrightarrow> str_wf s \<and> set (drop (st_size s) (st_buf s)) \<subseteq> {NUL}"

definition wiped :: "cpp_string \<Rightarrow> bool" where
  "wiped s \<longleftrightarrow> st_size s = 0 \<and> set (st_buf s) \<subseteq> {NUL}"

lemma Destroy_wipes: "clean_tail s \<Longrightarrow> wiped (Destroy s)"
  by (auto simp: clean_tail_def wiped_def Destroy_def str_clear_def cleanse_def str_wf_def
      dest!: set_update_subset_insert [THEN subsetD])

lemma wiped_clean: "wiped s \<Longrightarrow> clean_tail s"
  by (simp add: wiped_def clean_tail_def str_wf_def)

lemma copy_value [simp]: "str_wf s \<Longrightarrow> str_value (str_copy n s) = str_value s" "str_wf s \<Longrightarrow> clean_tail (str_copy n s)"
  by (auto simp: str_copy_def str_value_def str_wf_def clean_tail_def)

lemma assign_value:
  assumes "str_wf src" "wiped dst"
  shows "str_value (str_assign n src dst) = str_value src \<and> clean_tail (str_assign n src dst)"
proof (cases "st_size src < length (st_buf dst)")
  case True
  have "set (drop (Suc (st_size src)) (st_buf dst)) \<subseteq> {NUL}" using assms(2) by (auto simp: wiped_def dest: in_set_dropD)
  then show ?thesis using True assms(1) by (auto simp: str_assign_def str_value_def str_wf_def clean_tail_def)
next
  case False
  then show ?thesis using assms(1) by (simp add: str_assign_def)
qed

text \<open>
  A secret exists in one place: taking it from a configuration value keeps it, and each move hands it on
  unchanged while the storage it came from holds only zero bytes. This needs that nothing was left behind the
  end of the text at the start, and it is kept by every operation.
\<close>
theorem secret_in_one_place:
  assumes "clean_tail plain" "clean_tail this"
  shows "str_value (fst (FromPlain n plain)) = str_value plain \<and> wiped (snd (FromPlain n plain))
    \<and> str_value (fst (SecureString_move m plain)) = str_value plain \<and> wiped (snd (SecureString_move m plain))
    \<and> clean_tail (fst (SecureString_move m plain))
    \<and> str_value (fst (SecureString_assign m this plain)) = str_value plain \<and> wiped (snd (SecureString_assign m this plain))
    \<and> clean_tail (fst (SecureString_assign m this plain))"
proof -
  have wf: "str_wf plain" using assms(1) by (simp add: clean_tail_def)
  have "wiped (snd (FromPlain n plain))" by (auto simp: FromPlain_def wiped_def cleanse_def str_empty_def)
  then show ?thesis
    using Destroy_wipes [OF assms(1)] assign_value [OF wf Destroy_wipes [OF assms(2)], of m] copy_value [OF wf, of m]
    by (simp add: FromPlain_def SecureString_move_def SecureString_assign_def)
qed

text \<open>
  The condition matters: only the text itself is overwritten, so the rest of a longer earlier value behind
  its end stays in memory.
\<close>
theorem Destroy_leaves_tail:
  "st_buf (Destroy \<lparr>st_buf = ''abXYZ'', st_size = 2\<rparr>) = [NUL, NUL] @ ''XYZ''"
  by (simp add: Destroy_def str_clear_def cleanse_def)

end
