(* ===== verification/Crypto_Adapters.thy ===== *)
theory Crypto_Adapters
  imports Pub_Worker Shard_Queue Text_Format
begin

text \<open>
  The exchange adapters of \<open>src/exchange/crypto\<close>: what each exchange is asked to send and how its
  messages become events (\<open>json_parse_helpers.h\<close>, \<open>binance/\<close>, \<open>gateio/\<close>), the interface they share
  (\<open>src/exchange/exchange_adapter.h\<close>) and the parser worker that calls them
  (\<open>shard_parser_worker.cpp\<close>). The JSON library is an argument: its accessors return \<open>None\<close> for the
  errors that it reports or throws. A parse function catches every exception and then reports failure,
  so both are \<open>None\<close>. The contract of an adapter is a locale; all four adapters are instances.
\<close>

section \<open>The JSON interface\<close>

text \<open>
  The accessors of a JSON value, the conversion of a decimal text (\<open>std::from_chars\<close>), the value of
  \<open>static_cast<uint64_t>(x * 1000.0)\<close>, and the wall clock in microseconds.
\<close>
record 'n json_env =
  js_field :: "'n \<Rightarrow> string \<Rightarrow> 'n option"
  js_string :: "'n \<Rightarrow> string option"
  js_int64 :: "'n \<Rightarrow> int option"
  js_uint64 :: "'n \<Rightarrow> int option"
  js_bool :: "'n \<Rightarrow> bool option"
  js_array :: "'n \<Rightarrow> 'n list option"
  js_from_chars :: "string \<Rightarrow> double option"
  js_times_1000 :: "double \<Rightarrow> u64"
  js_now_us :: u64

definition get_u64 :: "'n json_env \<Rightarrow> 'n \<Rightarrow> string \<Rightarrow> u64 option" where
  "get_u64 E v k = map_option word_of_int (Option.bind (js_field E v k) (js_uint64 E))"

definition get_i64 :: "'n json_env \<Rightarrow> 'n \<Rightarrow> string \<Rightarrow> u64 option" where
  "get_i64 E v k = map_option word_of_int (Option.bind (js_field E v k) (js_int64 E))"

definition get_str :: "'n json_env \<Rightarrow> 'n \<Rightarrow> string \<Rightarrow> string option" where
  "get_str E v k = Option.bind (js_field E v k) (js_string E)"

definition SvToDouble :: "'n json_env \<Rightarrow> string \<Rightarrow> double option" where
  "SvToDouble E = js_from_chars E"

definition get_decimal :: "'n json_env \<Rightarrow> 'n \<Rightarrow> string \<Rightarrow> double option" where
  "get_decimal E v k = Option.bind (get_str E v k) (SvToDouble E)"

section \<open>Shared helpers\<close>

definition MsToUs :: "u64 \<Rightarrow> u64" where
  "MsToUs ms = ms * 1000"

definition kDepthSubscribeDelayMs :: u32 where
  "kDepthSubscribeDelayMs = 500"

definition kBookTickerSubscribeDelayMs :: u32 where
  "kBookTickerSubscribeDelayMs = 700"

text \<open>One level: \<open>None\<close> when an accessor throws, \<open>Some None\<close> when the level is skipped.\<close>
definition positional_level :: "'n json_env \<Rightarrow> 'n \<Rightarrow> PriceLevel option option" where
  "positional_level E level =
     (case js_array E level of
        None \<Rightarrow> None
      | Some [] \<Rightarrow> Some None
      | Some (p # rest) \<Rightarrow>
          (case js_string E p of
             None \<Rightarrow> None
           | Some ps \<Rightarrow>
               (case SvToDouble E ps of
                  None \<Rightarrow> Some None
                | Some price \<Rightarrow>
                    (case rest of
                       [] \<Rightarrow> Some None
                     | q # _ \<Rightarrow>
                         (case js_string E q of
                            None \<Rightarrow> None
                          | Some qs \<Rightarrow> Some (map_option (\<lambda>qty. \<lparr>lvl_price = price, lvl_quantity = qty\<rparr>) (SvToDouble E qs)))))))"

text \<open>The loop over the levels: parsed levels are stored at the front, at most \<open>max_levels\<close> of them.\<close>
fun level_loop :: "('n \<Rightarrow> PriceLevel option option) \<Rightarrow> nat \<Rightarrow> 'n list \<Rightarrow> PriceLevel list \<Rightarrow> nat \<Rightarrow> (PriceLevel list \<times> nat) option" where
  "level_loop read max_levels [] out count = Some (out, count)"
| "level_loop read max_levels (lv # lvs) out count =
     (if max_levels \<le> count then Some (out, count)
      else case read lv of
             None \<Rightarrow> None
           | Some None \<Rightarrow> level_loop read max_levels lvs out count
           | Some (Some l) \<Rightarrow> level_loop read max_levels lvs (out[count := l]) (Suc count))"

definition ParsePositionalLevelArray :: "'n json_env \<Rightarrow> 'n list \<Rightarrow> PriceLevel list \<Rightarrow> nat \<Rightarrow> (PriceLevel list \<times> nat) option" where
  "ParsePositionalLevelArray E arr out max_levels = level_loop (positional_level E) max_levels arr out 0"

text \<open>\<open>doc[key].get_array()\<close>, then the levels.\<close>
definition positional_side :: "'n json_env \<Rightarrow> 'n \<Rightarrow> string \<Rightarrow> PriceLevel list \<Rightarrow> (PriceLevel list \<times> nat) option" where
  "positional_side E v k out =
     Option.bind (Option.bind (js_field E v k) (js_array E)) (\<lambda>arr. ParsePositionalLevelArray E arr out kMaxOrderbookLevels)"

definition with_sides :: "(PriceLevel list \<times> nat) \<Rightarrow> (PriceLevel list \<times> nat) \<Rightarrow> DepthUpdateEvent \<Rightarrow> DepthUpdateEvent" where
  "with_sides b a e = e\<lparr>dep_bids := fst b, dep_bid_count := snd b, dep_asks := fst a, dep_ask_count := snd a\<rparr>"

fun DispatchParse :: "ParsedType \<Rightarrow> bool \<Rightarrow> ParseResult \<Rightarrow> ParseResult" where
  "DispatchParse ty ok r = r\<lparr>pr_type := if ok then ty else PT_NONE\<rparr>"

definition tick_result :: "TickData option \<Rightarrow> ParseResult" where
  "tick_result t = DispatchParse PT_TICK (t \<noteq> None) (case t of None \<Rightarrow> parse_result_zero | Some x \<Rightarrow> parse_result_zero\<lparr>pr_tick := x\<rparr>)"

definition depth_result :: "DepthUpdateEvent option \<Rightarrow> ParseResult" where
  "depth_result d = DispatchParse PT_DEPTH (d \<noteq> None) (case d of None \<Rightarrow> parse_result_zero | Some x \<Rightarrow> parse_result_zero\<lparr>pr_depth := x\<rparr>)"

definition book_ticker_result :: "BookTickerEvent option \<Rightarrow> ParseResult" where
  "book_ticker_result b = DispatchParse PT_BOOK_TICKER (b \<noteq> None)
     (case b of None \<Rightarrow> parse_result_zero | Some x \<Rightarrow> parse_result_zero\<lparr>pr_book_ticker := x\<rparr>)"

section \<open>Binance\<close>

definition binance_PeekEventType :: "'n json_env \<Rightarrow> 'n \<Rightarrow> EventType" where
  "binance_PeekEventType E doc =
     (case js_field E doc ''e'' of
        None \<Rightarrow> (if js_field E doc ''lastUpdateId'' \<noteq> None then ET_DEPTH else ET_BOOK_TICKER)
      | Some v \<Rightarrow>
          (case js_string E v of
             None \<Rightarrow> ET_UNKNOWN
           | Some ev \<Rightarrow>
               if ev = ''trade'' \<or> ev = ''aggTrade'' then ET_TICK
               else if ev = ''depthUpdate'' then ET_DEPTH
               else if ev = ''bookTicker'' then ET_BOOK_TICKER
               else ET_UNKNOWN))"

definition binance_ParseTradeEvent :: "'n json_env \<Rightarrow> 'n \<Rightarrow> u32 \<Rightarrow> TickData option" where
  "binance_ParseTradeEvent E doc channel_id =
     Option.bind (get_i64 E doc ''E'') (\<lambda>ts.
     Option.bind (get_i64 E doc ''a'') (\<lambda>tid.
     Option.bind (get_decimal E doc ''p'') (\<lambda>price.
     Option.bind (get_decimal E doc ''q'') (\<lambda>qty.
     Option.bind (Option.bind (js_field E doc ''m'') (js_bool E)) (\<lambda>maker.
       Some (tick_zero\<lparr>tick_exchange_timestamp := ts, tick_trade_id := tid, tick_price := price, tick_quantity := qty,
                      tick_is_buyer_maker := maker, tick_channel_id := channel_id\<rparr>))))))"

text \<open>The four prices and sizes, which both book ticker formats have.\<close>
definition binance_best :: "'n json_env \<Rightarrow> 'n \<Rightarrow> u32 \<Rightarrow> BookTickerEvent option" where
  "binance_best E doc channel_id =
     Option.bind (get_decimal E doc ''b'') (\<lambda>bp.
     Option.bind (get_decimal E doc ''B'') (\<lambda>bq.
     Option.bind (get_decimal E doc ''a'') (\<lambda>ap.
     Option.bind (get_decimal E doc ''A'') (\<lambda>aq.
       Some (book_ticker_zero\<lparr>bt_best_bid_price := bp, bt_best_bid_qty := bq, bt_best_ask_price := ap, bt_best_ask_qty := aq,
                             bt_channel_id := channel_id\<rparr>)))))"

definition binance_ParseBookTickerEvent :: "'n json_env \<Rightarrow> 'n \<Rightarrow> u32 \<Rightarrow> BookTickerEvent option" where
  "binance_ParseBookTickerEvent E doc channel_id =
     Option.bind (binance_best E doc channel_id) (\<lambda>b.
     Option.bind (get_i64 E doc ''E'') (\<lambda>ts. Some (b\<lparr>bt_exchange_timestamp := MsToUs ts\<rparr>)))"

definition ParseSpotBookTickerEvent :: "'n json_env \<Rightarrow> 'n \<Rightarrow> u32 \<Rightarrow> BookTickerEvent option" where
  "ParseSpotBookTickerEvent E doc channel_id =
     map_option (\<lambda>b. b\<lparr>bt_exchange_timestamp := js_now_us E\<rparr>) (binance_best E doc channel_id)"

definition binance_perpetual_ParseDepthEvent :: "'n json_env \<Rightarrow> 'n \<Rightarrow> u32 \<Rightarrow> DepthUpdateEvent option" where
  "binance_perpetual_ParseDepthEvent E doc channel_id =
     Option.bind (get_i64 E doc ''E'') (\<lambda>ts.
     Option.bind (get_i64 E doc ''u'') (\<lambda>u.
     Option.bind (positional_side E doc ''b'' (dep_bids depth_zero)) (\<lambda>b.
     Option.bind (positional_side E doc ''a'' (dep_asks depth_zero)) (\<lambda>a.
       Some (with_sides b a (depth_zero\<lparr>dep_exchange_timestamp := MsToUs ts, dep_last_update_id := u, dep_channel_id := channel_id\<rparr>))))))"

definition binance_perpetual_Parse :: "'n json_env \<Rightarrow> 'n \<Rightarrow> u32 \<Rightarrow> EventType \<Rightarrow> ParseResult" where
  "binance_perpetual_Parse E doc channel_id event_type =
     (case event_type of
        ET_TICK \<Rightarrow> tick_result (map_option (\<lambda>t. t\<lparr>tick_exchange_timestamp := MsToUs (tick_exchange_timestamp t)\<rparr>)
                     (binance_ParseTradeEvent E doc channel_id))
      | ET_DEPTH \<Rightarrow> depth_result (binance_perpetual_ParseDepthEvent E doc channel_id)
      | ET_BOOK_TICKER \<Rightarrow> book_ticker_result (binance_ParseBookTickerEvent E doc channel_id)
      | ET_UNKNOWN \<Rightarrow> parse_result_zero\<lparr>pr_type := PT_NONE\<rparr>)"

definition ParsePartialDepth :: "'n json_env \<Rightarrow> 'n \<Rightarrow> u32 \<Rightarrow> DepthUpdateEvent option" where
  "ParsePartialDepth E doc channel_id =
     Option.bind (get_u64 E doc ''lastUpdateId'') (\<lambda>u.
     Option.bind (positional_side E doc ''bids'' (dep_bids depth_zero)) (\<lambda>b.
     Option.bind (positional_side E doc ''asks'' (dep_asks depth_zero)) (\<lambda>a.
       Some (with_sides b a (depth_zero\<lparr>dep_last_update_id := u, dep_exchange_timestamp := js_now_us E, dep_channel_id := channel_id\<rparr>)))))"

definition binance_spot_Parse :: "'n json_env \<Rightarrow> 'n \<Rightarrow> u32 \<Rightarrow> EventType \<Rightarrow> ParseResult" where
  "binance_spot_Parse E doc channel_id event_type =
     (case event_type of
        ET_TICK \<Rightarrow> tick_result (binance_ParseTradeEvent E doc channel_id)
      | ET_DEPTH \<Rightarrow> depth_result (ParsePartialDepth E doc channel_id)
      | ET_BOOK_TICKER \<Rightarrow> book_ticker_result (ParseSpotBookTickerEvent E doc channel_id)
      | ET_UNKNOWN \<Rightarrow> parse_result_zero\<lparr>pr_type := PT_NONE\<rparr>)"

section \<open>Gate.io\<close>

definition gateio_PeekEventType :: "string \<Rightarrow> 'n json_env \<Rightarrow> 'n \<Rightarrow> EventType" where
  "gateio_PeekEventType prefix E doc =
     (case get_str E doc ''channel'' of
        None \<Rightarrow> ET_UNKNOWN
      | Some channel \<Rightarrow>
          if length channel \<le> length prefix + 1 then ET_UNKNOWN
          else if take (length prefix) channel \<noteq> prefix then ET_UNKNOWN
          else let suffix = drop (length prefix + 1) channel
               in if suffix = ''trades'' then ET_TICK
                  else if suffix = ''order_book'' then ET_DEPTH
                  else if suffix = ''book_ticker'' then ET_BOOK_TICKER
                  else ET_UNKNOWN)"

text \<open>The result of \<open>get_uint64()\<close> is discarded unread, so a missing field raises no exception here.\<close>
definition SkipTimeEnvelope :: "'n json_env \<Rightarrow> 'n \<Rightarrow> unit option" where
  "SkipTimeEnvelope E doc = Some ()"

text \<open>A string that is not a number gives 0; a value that is neither string nor integer throws.\<close>
definition ParseQuantity :: "'n json_env \<Rightarrow> 'n \<Rightarrow> double option" where
  "ParseQuantity E field =
     (case js_string E field of
        Some sv \<Rightarrow> Some (case SvToDouble E sv of Some q \<Rightarrow> q | None \<Rightarrow> d_zero)
      | None \<Rightarrow> map_option double_of_int (js_int64 E field))"

definition get_quantity :: "'n json_env \<Rightarrow> 'n \<Rightarrow> string \<Rightarrow> double option" where
  "get_quantity E v k = Option.bind (js_field E v k) (ParseQuantity E)"

text \<open>Unary minus flips the sign bit.\<close>
definition d_abs :: "double \<Rightarrow> double" where
  "d_abs x = (if d_lt x d_zero then x XOR push_bit 63 1 else x)"

definition gateio_ParseBookTickerEvent :: "'n json_env \<Rightarrow> 'n \<Rightarrow> u32 \<Rightarrow> BookTickerEvent option" where
  "gateio_ParseBookTickerEvent E doc channel_id =
     Option.bind (SkipTimeEnvelope E doc) (\<lambda>_.
     Option.bind (get_str E doc ''event'') (\<lambda>ev.
     if ev \<noteq> ''update'' then None
     else Option.bind (js_field E doc ''result'') (\<lambda>result.
     Option.bind (get_u64 E result ''t'') (\<lambda>t.
     Option.bind (get_decimal E result ''b'') (\<lambda>bp.
     Option.bind (get_quantity E result ''B'') (\<lambda>bq.
     Option.bind (get_decimal E result ''a'') (\<lambda>ap.
     Option.bind (get_quantity E result ''A'') (\<lambda>aq.
       Some (book_ticker_zero\<lparr>bt_exchange_timestamp := MsToUs t, bt_best_bid_price := bp, bt_best_bid_qty := bq,
                             bt_best_ask_price := ap, bt_best_ask_qty := aq, bt_channel_id := channel_id\<rparr>)))))))))"

definition gateio_spot_ParseTradeEvent :: "'n json_env \<Rightarrow> 'n \<Rightarrow> u32 \<Rightarrow> TickData option" where
  "gateio_spot_ParseTradeEvent E doc channel_id =
     Option.bind (SkipTimeEnvelope E doc) (\<lambda>_.
     Option.bind (get_str E doc ''event'') (\<lambda>ev.
     if ev = ''subscribe'' then None
     else Option.bind (js_field E doc ''result'') (\<lambda>result.
     Option.bind (get_u64 E result ''id'') (\<lambda>tid.
     Option.bind (get_decimal E result ''create_time_ms'') (\<lambda>ms.
     Option.bind (get_decimal E result ''price'') (\<lambda>price.
     Option.bind (get_str E result ''side'') (\<lambda>side.
     Option.bind (get_decimal E result ''amount'') (\<lambda>qty.
       Some (tick_zero\<lparr>tick_trade_id := tid, tick_exchange_timestamp := js_times_1000 E ms, tick_price := price,
                      tick_quantity := d_abs qty, tick_is_buyer_maker := (side = ''sell''), tick_channel_id := channel_id\<rparr>)))))))))"

definition depth_event_ok :: "string \<Rightarrow> bool" where
  "depth_event_ok ev \<longleftrightarrow> ev = ''update'' \<or> ev = ''all''"

definition gateio_spot_ParseDepthEvent :: "'n json_env \<Rightarrow> 'n \<Rightarrow> u32 \<Rightarrow> DepthUpdateEvent option" where
  "gateio_spot_ParseDepthEvent E doc channel_id =
     Option.bind (SkipTimeEnvelope E doc) (\<lambda>_.
     Option.bind (get_str E doc ''event'') (\<lambda>ev.
     if \<not> depth_event_ok ev then None
     else Option.bind (js_field E doc ''result'') (\<lambda>result.
     Option.bind (get_u64 E result ''t'') (\<lambda>t.
     Option.bind (get_u64 E result ''lastUpdateId'') (\<lambda>u.
     Option.bind (positional_side E result ''bids'' (dep_bids depth_zero)) (\<lambda>b.
     Option.bind (positional_side E result ''asks'' (dep_asks depth_zero)) (\<lambda>a.
       Some (with_sides b a (depth_zero\<lparr>dep_exchange_timestamp := MsToUs t, dep_last_update_id := u, dep_channel_id := channel_id\<rparr>)))))))))"

definition gateio_spot_Parse :: "'n json_env \<Rightarrow> 'n \<Rightarrow> u32 \<Rightarrow> EventType \<Rightarrow> ParseResult" where
  "gateio_spot_Parse E doc channel_id event_type =
     (case event_type of
        ET_TICK \<Rightarrow> tick_result (gateio_spot_ParseTradeEvent E doc channel_id)
      | ET_DEPTH \<Rightarrow> depth_result (gateio_spot_ParseDepthEvent E doc channel_id)
      | ET_BOOK_TICKER \<Rightarrow> book_ticker_result (gateio_ParseBookTickerEvent E doc channel_id)
      | ET_UNKNOWN \<Rightarrow> parse_result_zero\<lparr>pr_type := PT_NONE\<rparr>)"

text \<open>Only the first trade of the array is read.\<close>
definition gateio_perpetual_ParseTradeEvent :: "'n json_env \<Rightarrow> 'n \<Rightarrow> u32 \<Rightarrow> TickData option" where
  "gateio_perpetual_ParseTradeEvent E doc channel_id =
     Option.bind (SkipTimeEnvelope E doc) (\<lambda>_.
     Option.bind (get_str E doc ''event'') (\<lambda>ev.
     if ev = ''subscribe'' then None
     else Option.bind (Option.bind (js_field E doc ''result'') (js_array E)) (\<lambda>arr.
     (case arr of
        [] \<Rightarrow> None
      | item # _ \<Rightarrow>
          Option.bind (get_u64 E item ''id'') (\<lambda>tid.
          Option.bind (get_u64 E item ''create_time_ms'') (\<lambda>ms.
          Option.bind (get_decimal E item ''price'') (\<lambda>price.
          Option.bind (get_quantity E item ''size'') (\<lambda>sz.
            Some (tick_zero\<lparr>tick_trade_id := tid, tick_exchange_timestamp := MsToUs ms, tick_price := price,
                           tick_quantity := d_abs sz, tick_is_buyer_maker := d_lt sz d_zero, tick_channel_id := channel_id\<rparr>)))))))))"

definition object_level :: "'n json_env \<Rightarrow> 'n \<Rightarrow> PriceLevel option option" where
  "object_level E lv =
     (case get_str E lv ''p'' of
        None \<Rightarrow> None
      | Some ps \<Rightarrow>
          (case SvToDouble E ps of
             None \<Rightarrow> Some None
           | Some price \<Rightarrow> map_option (\<lambda>qty. Some \<lparr>lvl_price = price, lvl_quantity = qty\<rparr>) (get_quantity E lv ''s'')))"

definition object_side :: "'n json_env \<Rightarrow> 'n \<Rightarrow> string \<Rightarrow> PriceLevel list \<Rightarrow> (PriceLevel list \<times> nat) option" where
  "object_side E v k out =
     Option.bind (Option.bind (js_field E v k) (js_array E)) (\<lambda>arr. level_loop (object_level E) kMaxOrderbookLevels arr out 0)"

definition gateio_perpetual_ParseDepthEvent :: "'n json_env \<Rightarrow> 'n \<Rightarrow> u32 \<Rightarrow> DepthUpdateEvent option" where
  "gateio_perpetual_ParseDepthEvent E doc channel_id =
     Option.bind (SkipTimeEnvelope E doc) (\<lambda>_.
     Option.bind (get_str E doc ''event'') (\<lambda>ev.
     if \<not> depth_event_ok ev then None
     else Option.bind (js_field E doc ''result'') (\<lambda>result.
     Option.bind (get_u64 E result ''t'') (\<lambda>t.
     Option.bind (get_u64 E result ''id'') (\<lambda>u.
     Option.bind (object_side E result ''bids'' (dep_bids depth_zero)) (\<lambda>b.
     Option.bind (object_side E result ''asks'' (dep_asks depth_zero)) (\<lambda>a.
       Some (with_sides b a (depth_zero\<lparr>dep_exchange_timestamp := MsToUs t, dep_last_update_id := u, dep_channel_id := channel_id\<rparr>)))))))))"

definition gateio_perpetual_Parse :: "'n json_env \<Rightarrow> 'n \<Rightarrow> u32 \<Rightarrow> EventType \<Rightarrow> ParseResult" where
  "gateio_perpetual_Parse E doc channel_id event_type =
     (case event_type of
        ET_TICK \<Rightarrow> tick_result (gateio_perpetual_ParseTradeEvent E doc channel_id)
      | ET_DEPTH \<Rightarrow> depth_result (gateio_perpetual_ParseDepthEvent E doc channel_id)
      | ET_BOOK_TICKER \<Rightarrow> book_ticker_result (gateio_ParseBookTickerEvent E doc channel_id)
      | ET_UNKNOWN \<Rightarrow> parse_result_zero\<lparr>pr_type := PT_NONE\<rparr>)"

section \<open>Subscriptions\<close>

record SubscriptionMessage =
  sm_payload :: string
  sm_delay_ms :: u32
  sm_event_type :: EventType

record SubscriptionGroup =
  sg_ws_url :: string
  sg_messages :: "SubscriptionMessage list"

text \<open>\<open>{"method":"SUBSCRIBE","params":["<name>@<stream>"],"id":<n>}\<close>\<close>
definition binance_subscribe :: "string \<Rightarrow> string \<Rightarrow> string \<Rightarrow> string" where
  \<open>binance_subscribe name stream n = ''{"method":"SUBSCRIBE","params":["'' @ name @ stream @ ''"],"id":'' @ n @ ''}''\<close>

definition BinanceSpotBuildSubscribes :: "nat \<Rightarrow> string \<Rightarrow> u32 \<Rightarrow> SubscriptionGroup list" where
  "BinanceSpotBuildSubscribes now_sec symbol depth_level =
     (let name = map to_lower symbol
      in [\<lparr>sg_ws_url = ''wss://stream.binance.com/ws?timeUnit=MICROSECOND'', sg_messages =
           [\<lparr>sm_payload = binance_subscribe name ''@aggTrade'' ''1'', sm_delay_ms = 0, sm_event_type = ET_TICK\<rparr>,
            \<lparr>sm_payload = binance_subscribe name (''@depth'' @ dec (unat depth_level) @ ''@100ms'') ''2'',
             sm_delay_ms = kDepthSubscribeDelayMs, sm_event_type = ET_DEPTH\<rparr>,
            \<lparr>sm_payload = binance_subscribe name ''@bookTicker'' ''3'', sm_delay_ms = kBookTickerSubscribeDelayMs,
             sm_event_type = ET_BOOK_TICKER\<rparr>]\<rparr>])"

definition BinancePerpetualBuildSubscribes :: "nat \<Rightarrow> string \<Rightarrow> u32 \<Rightarrow> SubscriptionGroup list" where
  "BinancePerpetualBuildSubscribes now_sec symbol depth_level =
     (let name = map to_lower symbol
      in [\<lparr>sg_ws_url = ''wss://fstream.binance.com/market/ws'', sg_messages =
           [\<lparr>sm_payload = binance_subscribe name ''@aggTrade'' ''1'', sm_delay_ms = 0, sm_event_type = ET_TICK\<rparr>]\<rparr>,
          \<lparr>sg_ws_url = ''wss://fstream.binance.com/public/ws'', sg_messages =
           [\<lparr>sm_payload = binance_subscribe name ''@bookTicker'' ''3'', sm_delay_ms = kBookTickerSubscribeDelayMs,
             sm_event_type = ET_BOOK_TICKER\<rparr>,
            \<lparr>sm_payload = binance_subscribe name (''@depth'' @ dec (unat depth_level) @ ''@100ms'') ''2'',
             sm_delay_ms = kDepthSubscribeDelayMs, sm_event_type = ET_DEPTH\<rparr>]\<rparr>])"

text \<open>\<open>{"time":<ts>,"channel":"<channel>","event":"subscribe","payload":["<symbol>"<params>]}\<close>\<close>
definition gateio_subscribe :: "nat \<Rightarrow> string \<Rightarrow> string \<Rightarrow> string \<Rightarrow> string" where
  \<open>gateio_subscribe now_sec channel symbol params = ''{"time":'' @ dec now_sec @ '',"channel":"'' @ channel
     @ ''","event":"subscribe","payload":["'' @ symbol @ ''"'' @ params @ '']}''\<close>

definition GateioSpotBuildSubscribes :: "nat \<Rightarrow> string \<Rightarrow> u32 \<Rightarrow> SubscriptionGroup list" where
  \<open>GateioSpotBuildSubscribes now_sec symbol depth_level =
     [\<lparr>sg_ws_url = ''wss://api.gateio.ws/ws/v4/'', sg_messages =
       [\<lparr>sm_payload = gateio_subscribe now_sec ''spot.trades'' symbol [], sm_delay_ms = 0, sm_event_type = ET_TICK\<rparr>,
        \<lparr>sm_payload = gateio_subscribe now_sec ''spot.order_book'' symbol ('',"'' @ dec (unat depth_level) @ ''","100ms"''),
         sm_delay_ms = kDepthSubscribeDelayMs, sm_event_type = ET_DEPTH\<rparr>,
        \<lparr>sm_payload = gateio_subscribe now_sec ''spot.book_ticker'' symbol [], sm_delay_ms = kBookTickerSubscribeDelayMs,
         sm_event_type = ET_BOOK_TICKER\<rparr>]\<rparr>]\<close>

definition GateioPerpetualBuildSubscribes :: "nat \<Rightarrow> string \<Rightarrow> u32 \<Rightarrow> SubscriptionGroup list" where
  \<open>GateioPerpetualBuildSubscribes now_sec symbol depth_level =
     [\<lparr>sg_ws_url = ''wss://fx-ws.gateio.ws/v4/ws/usdt'', sg_messages =
       [\<lparr>sm_payload = gateio_subscribe now_sec ''futures.trades'' symbol [], sm_delay_ms = 0, sm_event_type = ET_TICK\<rparr>,
        \<lparr>sm_payload = gateio_subscribe now_sec ''futures.order_book'' symbol ('',"'' @ dec (unat depth_level) @ ''","0"''),
         sm_delay_ms = kDepthSubscribeDelayMs, sm_event_type = ET_DEPTH\<rparr>,
        \<lparr>sm_payload = gateio_subscribe now_sec ''futures.book_ticker'' symbol [], sm_delay_ms = kBookTickerSubscribeDelayMs,
         sm_event_type = ET_BOOK_TICKER\<rparr>]\<rparr>]\<close>

section \<open>Adapters\<close>

record 'n ExchangeAdapter =
  ea_name :: string
  ea_channel_type :: ChannelType
  ea_rest_host :: string
  ea_build_subscribes :: "nat \<Rightarrow> string \<Rightarrow> u32 \<Rightarrow> SubscriptionGroup list"
  ea_peek_event_type :: "'n json_env \<Rightarrow> 'n \<Rightarrow> EventType"
  ea_parse :: "'n json_env \<Rightarrow> 'n \<Rightarrow> u32 \<Rightarrow> EventType \<Rightarrow> ParseResult"
  ea_ws_headers :: "(string \<times> string) list"

definition kGateioWsHeaders :: "(string \<times> string) list" where
  "kGateioWsHeaders = [(''X-Gate-Aggregation'', ''0''), (''X-Gate-Size-Decimal'', ''1'')]"

definition kBinanceSpotAdapter :: "'n ExchangeAdapter" where
  "kBinanceSpotAdapter = \<lparr>ea_name = ''binance'', ea_channel_type = Spot, ea_rest_host = ''api.binance.com'',
     ea_build_subscribes = BinanceSpotBuildSubscribes, ea_peek_event_type = binance_PeekEventType,
     ea_parse = binance_spot_Parse, ea_ws_headers = []\<rparr>"

definition kBinancePerpetualAdapter :: "'n ExchangeAdapter" where
  "kBinancePerpetualAdapter = \<lparr>ea_name = ''binance'', ea_channel_type = Perpetual, ea_rest_host = ''fapi.binance.com'',
     ea_build_subscribes = BinancePerpetualBuildSubscribes, ea_peek_event_type = binance_PeekEventType,
     ea_parse = binance_perpetual_Parse, ea_ws_headers = []\<rparr>"

definition kGateioSpotAdapter :: "'n ExchangeAdapter" where
  "kGateioSpotAdapter = \<lparr>ea_name = ''gateio'', ea_channel_type = Spot, ea_rest_host = ''api.gateio.ws'',
     ea_build_subscribes = GateioSpotBuildSubscribes, ea_peek_event_type = gateio_PeekEventType ''spot'',
     ea_parse = gateio_spot_Parse, ea_ws_headers = kGateioWsHeaders\<rparr>"

definition kGateioPerpetualAdapter :: "'n ExchangeAdapter" where
  "kGateioPerpetualAdapter = \<lparr>ea_name = ''gateio'', ea_channel_type = Perpetual, ea_rest_host = ''api.gateio.ws'',
     ea_build_subscribes = GateioPerpetualBuildSubscribes, ea_peek_event_type = gateio_PeekEventType ''futures'',
     ea_parse = gateio_perpetual_Parse, ea_ws_headers = kGateioWsHeaders\<rparr>"

definition GetAdapter :: "string \<Rightarrow> ChannelType \<Rightarrow> 'n ExchangeAdapter option" where
  "GetAdapter exchange_name channel_type =
     (if exchange_name = ''binance'' then Some (if channel_type = Spot then kBinanceSpotAdapter else kBinancePerpetualAdapter)
      else if exchange_name = ''gateio'' then Some (if channel_type = Spot then kGateioSpotAdapter else kGateioPerpetualAdapter)
      else None)"

section \<open>The parser worker\<close>

text \<open>
  The event handed to a handler, if any. \<open>iterate\<close> is the JSON parser on the bytes of the message. The
  function pointer of the message is the adapter's parse function.
\<close>
definition ParseAndDispatch ::
  "(char list \<Rightarrow> 'n option) \<Rightarrow> ('n \<Rightarrow> u32 \<Rightarrow> EventType \<Rightarrow> ParseResult) RawMessage \<Rightarrow> pub_event option" where
  "ParseAndDispatch iterate msg =
     (case iterate (take (rm_size msg) (rm_buffer msg)) of
        None \<Rightarrow> None
      | Some doc \<Rightarrow>
          (case rm_parse_fn msg of
             None \<Rightarrow> None
           | Some parse_fn \<Rightarrow>
               (let result = parse_fn doc (rm_channel_id msg) (rm_event_type msg); sy = c_str (rm_symbol msg)
                in case pr_type result of
                     PT_TICK \<Rightarrow> Some (PE_Tick ((pr_tick result)\<lparr>
                       tick_symbol := snd (CopySymbol (tick_symbol (pr_tick result)) 12 sy),
                       tick_local_diff := rm_recv_timestamp msg\<rparr>))
                   | PT_DEPTH \<Rightarrow> Some (PE_Depth ((pr_depth result)\<lparr>
                       dep_symbol := snd (CopySymbol (dep_symbol (pr_depth result)) 12 sy),
                       dep_local_diff := rm_recv_timestamp msg\<rparr>))
                   | PT_BOOK_TICKER \<Rightarrow> Some (PE_BookTicker ((pr_book_ticker result)\<lparr>
                       bt_symbol := snd (CopySymbol (bt_symbol (pr_book_ticker result)) 12 sy),
                       bt_local_diff := rm_recv_timestamp msg\<rparr>))
                   | PT_NONE \<Rightarrow> None)))"

text \<open>
  \<open>Run\<close> on the messages in the order they are popped: the events handed to the handlers, and whether the
  poison pill has ended the loop.
\<close>
fun worker_run :: "(char list \<Rightarrow> 'n option) \<Rightarrow> ('n \<Rightarrow> u32 \<Rightarrow> EventType \<Rightarrow> ParseResult) RawMessage list \<Rightarrow> pub_event list \<times> bool" where
  "worker_run iterate [] = ([], False)"
| "worker_run iterate (msg # msgs) =
     (if rm_size msg = 0 then ([], True)
      else case worker_run iterate msgs of
             (es, stopped) \<Rightarrow> ((case ParseAndDispatch iterate msg of None \<Rightarrow> es | Some e \<Rightarrow> e # es), stopped))"

section \<open>Reading levels\<close>

text \<open>The levels that can be read, in the order of the message.\<close>
definition readable_levels :: "('n \<Rightarrow> PriceLevel option option) \<Rightarrow> 'n list \<Rightarrow> PriceLevel list" where
  "readable_levels read lvs = concat (map (\<lambda>lv. case read lv of Some (Some l) \<Rightarrow> [l] | _ \<Rightarrow> []) lvs)"

lemma readable_levels_simps [simp]:
  "readable_levels read [] = []"
  "read lv = Some None \<Longrightarrow> readable_levels read (lv # lvs) = readable_levels read lvs"
  "read lv = Some (Some l) \<Longrightarrow> readable_levels read (lv # lvs) = l # readable_levels read lvs"
  by (simp_all add: readable_levels_def)

lemma level_loop_exact:
  assumes "level_loop read m lvs out c = Some (out', n)" "c \<le> m" "m \<le> length out"
  shows "n = min m (c + length (readable_levels read lvs)) \<and> length out' = length out
    \<and> take n out' = take c out @ take (m - c) (readable_levels read lvs) \<and> drop n out' = drop n out"
  using assms
proof (induction lvs arbitrary: out c)
  case Nil
  then show ?case by simp
next
  case (Cons lv lvs)
  show ?case
  proof (cases "m \<le> c")
    case True
    then show ?thesis using Cons.prems by simp
  next
    case False
    then obtain r where r: "read lv = Some r" using Cons.prems(1) by (cases "read lv") auto
    show ?thesis
    proof (cases r)
      case None
      then have "level_loop read m lvs out c = Some (out', n)" using Cons.prems(1) False r by simp
      moreover have "readable_levels read (lv # lvs) = readable_levels read lvs" using r None by simp
      ultimately show ?thesis using Cons.IH Cons.prems(2,3) by presburger
    next
      case (Some l)
      let ?ls = "readable_levels read lvs"
      have c: "c < length out" "Suc c \<le> m" "m - c = Suc (m - Suc c)" using False Cons.prems(3) by simp_all
      have run: "level_loop read m lvs (out[c := l]) (Suc c) = Some (out', n)" "m \<le> length (out[c := l])"
        using Cons.prems(1,3) False r Some by simp_all
      have ih: "n = min m (Suc c + length ?ls)" "length out' = length (out[c := l])"
        "take n out' = take (Suc c) (out[c := l]) @ take (m - Suc c) ?ls" "drop n out' = drop n (out[c := l])"
        using Cons.IH [OF run(1) c(2) run(2)] by blast+
      have "take (Suc c) (out[c := l]) = take c out @ [l]" using c(1) by (simp add: take_Suc_conv_app_nth)
      moreover have "c < n" using ih(1) c(2) by simp
      moreover have "readable_levels read (lv # lvs) = l # ?ls" using r Some by simp
      ultimately show ?thesis using ih(2-4) c(3) ih(1) [symmetric] by simp
    qed
  qed
qed

lemma level_loop_total:
  "\<forall>lv\<in>set lvs. read lv \<noteq> None \<Longrightarrow> \<exists>out' n. level_loop read m lvs out c = Some (out', n)"
proof (induction lvs arbitrary: out c)
  case (Cons lv lvs)
  then obtain r where "read lv = Some r" by auto
  then show ?case using Cons by (cases r) simp_all
qed simp

lemma level_loop_bounds:
  assumes "level_loop read m lvs out 0 = Some r" "m \<le> length out"
  shows "length (fst r) = length out" "snd r \<le> m"
  using assms level_loop_exact [of read m lvs out 0 "fst r" "snd r"] by simp_all

section \<open>The contract of an adapter\<close>

text \<open>What the parser worker hands on: the event of a result, if it has one.\<close>
fun expected_type :: "EventType \<Rightarrow> ParsedType" where
  "expected_type ET_TICK = PT_TICK"
| "expected_type ET_DEPTH = PT_DEPTH"
| "expected_type ET_BOOK_TICKER = PT_BOOK_TICKER"
| "expected_type ET_UNKNOWN = PT_NONE"

definition result_event :: "ParseResult \<Rightarrow> pub_event option" where
  "result_event r = (case pr_type r of
      PT_TICK \<Rightarrow> Some (PE_Tick (pr_tick r))
    | PT_DEPTH \<Rightarrow> Some (PE_Depth (pr_depth r))
    | PT_BOOK_TICKER \<Rightarrow> Some (PE_BookTicker (pr_book_ticker r))
    | PT_NONE \<Rightarrow> None)"

fun pe_symbol :: "pub_event \<Rightarrow> char_array" where
  "pe_symbol (PE_Tick t) = tick_symbol t"
| "pe_symbol (PE_Depth e) = dep_symbol e"
| "pe_symbol (PE_BookTicker e) = bt_symbol e"

fun pe_local :: "pub_event \<Rightarrow> u64" where
  "pe_local (PE_Tick t) = tick_local_diff t"
| "pe_local (PE_Depth e) = dep_local_diff e"
| "pe_local (PE_BookTicker e) = bt_local_diff e"

fun pe_parsed_type :: "pub_event \<Rightarrow> ParsedType" where
  "pe_parsed_type (PE_Tick _) = PT_TICK"
| "pe_parsed_type (PE_Depth _) = PT_DEPTH"
| "pe_parsed_type (PE_BookTicker _) = PT_BOOK_TICKER"

definition group_events :: "SubscriptionGroup list \<Rightarrow> EventType list" where
  "group_events gs = concat (map (\<lambda>g. map sm_event_type (sg_messages g)) gs)"

locale exchange_adapter =
  fixes adapter :: "'n ExchangeAdapter"
  assumes parse_type: "result_event (ea_parse adapter E doc ch et) = Some e \<Longrightarrow> pe_parsed_type e = expected_type et"
    and parse_channel: "result_event (ea_parse adapter E doc ch et) = Some e \<Longrightarrow> pe_channel e = ch"
    and parse_wf: "result_event (ea_parse adapter E doc ch et) = Some e \<Longrightarrow> pe_wf e"
    and subscribes_all: "set (group_events (ea_build_subscribes adapter now_sec symbol depth_level)) = {ET_TICK, ET_DEPTH, ET_BOOK_TICKER}"
    and subscribes_once: "distinct (group_events (ea_build_subscribes adapter now_sec symbol depth_level))"
    and subscribes_no_empty_group: "g \<in> set (ea_build_subscribes adapter now_sec symbol depth_level) \<Longrightarrow> sg_messages g \<noteq> []"
begin

lemma dispatched_event_stamped:
  assumes "ParseAndDispatch iterate msg = Some e" "rm_parse_fn msg = Some (ea_parse adapter E)"
  shows "pe_parsed_type e = expected_type (rm_event_type msg) \<and> pe_channel e = rm_channel_id msg
    \<and> c_str (pe_symbol e) = take 11 (c_str (rm_symbol msg)) \<and> pe_local e = rm_recv_timestamp msg \<and> pe_wf e"
proof -
  obtain doc where doc: "iterate (take (rm_size msg) (rm_buffer msg)) = Some doc"
    using assms(1) by (auto simp: ParseAndDispatch_def split: option.splits)
  let ?r = "ea_parse adapter E doc (rm_channel_id msg) (rm_event_type msg)"
  note laws = parse_type [of E doc "rm_channel_id msg" "rm_event_type msg"] parse_channel [of E doc "rm_channel_id msg" "rm_event_type msg"]
    parse_wf [of E doc "rm_channel_id msg" "rm_event_type msg"]
  show ?thesis
    using assms doc laws
    by (cases "pr_type ?r")
      (auto simp: ParseAndDispatch_def Let_def result_event_def tick_wf_def depth_wf_def book_ticker_wf_def
        CopySymbol_c_str CopySymbol_length)
qed

lemma three_messages: "length (group_events (ea_build_subscribes adapter now_sec symbol depth_level)) = 3"
  using distinct_card [OF subscribes_once, of now_sec symbol depth_level] by (simp add: subscribes_all)

end

lemma result_event_simps [simp]:
  "result_event (tick_result t) = map_option PE_Tick t"
  "result_event (depth_result d) = map_option PE_Depth d"
  "result_event (book_ticker_result b) = map_option PE_BookTicker b"
  "result_event (parse_result_zero\<lparr>pr_type := PT_NONE\<rparr>) = None"
  by (simp_all add: result_event_def tick_result_def depth_result_def book_ticker_result_def split: option.splits)

text \<open>Every adapter chooses by the event type; it then suffices to look at its three parse functions.\<close>
lemma parse_by_type_sound:
  assumes "result_event (case et of ET_TICK \<Rightarrow> tick_result T | ET_DEPTH \<Rightarrow> depth_result D
      | ET_BOOK_TICKER \<Rightarrow> book_ticker_result B | ET_UNKNOWN \<Rightarrow> parse_result_zero\<lparr>pr_type := PT_NONE\<rparr>) = Some e"
    and "\<And>t. T = Some t \<Longrightarrow> tick_channel_id t = ch \<and> tick_wf t"
    and "\<And>d. D = Some d \<Longrightarrow> dep_channel_id d = ch \<and> depth_wf d"
    and "\<And>b. B = Some b \<Longrightarrow> bt_channel_id b = ch \<and> book_ticker_wf b"
  shows "pe_parsed_type e = expected_type et \<and> pe_channel e = ch \<and> pe_wf e"
  using assms by (cases et) auto

lemma zero_wf [simp]:
  "tick_wf tick_zero" "depth_wf depth_zero" "book_ticker_wf book_ticker_zero"
  by (simp_all add: tick_wf_def depth_wf_def book_ticker_wf_def tick_zero_def depth_zero_def book_ticker_zero_def symbol_zero_def
      kMaxOrderbookLevels_def)

text \<open>The fields the parse functions set do not matter for well-formedness.\<close>
lemma wf_updates [simp]:
  "tick_wf (t\<lparr>tick_exchange_timestamp := ts\<rparr>) = tick_wf t" "tick_wf (t\<lparr>tick_trade_id := tid\<rparr>) = tick_wf t"
  "tick_wf (t\<lparr>tick_price := x\<rparr>) = tick_wf t" "tick_wf (t\<lparr>tick_quantity := x\<rparr>) = tick_wf t"
  "tick_wf (t\<lparr>tick_is_buyer_maker := m\<rparr>) = tick_wf t" "tick_wf (t\<lparr>tick_channel_id := ch\<rparr>) = tick_wf t"
  "book_ticker_wf (b\<lparr>bt_exchange_timestamp := ts\<rparr>) = book_ticker_wf b" "book_ticker_wf (b\<lparr>bt_channel_id := ch\<rparr>) = book_ticker_wf b"
  "book_ticker_wf (b\<lparr>bt_best_bid_price := x\<rparr>) = book_ticker_wf b" "book_ticker_wf (b\<lparr>bt_best_bid_qty := x\<rparr>) = book_ticker_wf b"
  "book_ticker_wf (b\<lparr>bt_best_ask_price := x\<rparr>) = book_ticker_wf b" "book_ticker_wf (b\<lparr>bt_best_ask_qty := x\<rparr>) = book_ticker_wf b"
  "depth_wf (d\<lparr>dep_exchange_timestamp := ts\<rparr>) = depth_wf d" "depth_wf (d\<lparr>dep_last_update_id := u\<rparr>) = depth_wf d"
  "depth_wf (d\<lparr>dep_channel_id := ch\<rparr>) = depth_wf d"
  by (simp_all add: tick_wf_def depth_wf_def book_ticker_wf_def)

text \<open>A side read into an array of an empty event keeps its 100 cells and counts at most 100 levels.\<close>
definition read_side_ok :: "PriceLevel list \<times> nat \<Rightarrow> bool" where
  "read_side_ok r \<longleftrightarrow> length (fst r) = 100 \<and> snd r \<le> 100"

lemma with_sides_wf:
  "depth_wf d \<Longrightarrow> read_side_ok b \<Longrightarrow> read_side_ok a \<Longrightarrow> depth_wf (with_sides b a d)"
  by (simp add: depth_wf_def with_sides_def read_side_ok_def)

lemma with_sides_channel [simp]: "dep_channel_id (with_sides b a d) = dep_channel_id d"
  by (simp add: with_sides_def)

lemma level_loop_side_ok:
  "level_loop read kMaxOrderbookLevels lvs out 0 = Some r \<Longrightarrow> length out = 100 \<Longrightarrow> read_side_ok r"
  using level_loop_bounds [of read kMaxOrderbookLevels lvs out r] by (simp add: read_side_ok_def kMaxOrderbookLevels_def)

lemma zero_sides [simp]: "length (dep_bids depth_zero) = 100" "length (dep_asks depth_zero) = 100"
  by (simp_all add: depth_zero_def kMaxOrderbookLevels_def)

lemma side_ok_positional: "positional_side E v k out = Some r \<Longrightarrow> length out = 100 \<Longrightarrow> read_side_ok r"
  by (auto simp: positional_side_def ParsePositionalLevelArray_def bind_eq_Some_conv intro: level_loop_side_ok)

lemma side_ok_object: "object_side E v k out = Some r \<Longrightarrow> length out = 100 \<Longrightarrow> read_side_ok r"
  by (auto simp: object_side_def bind_eq_Some_conv intro: level_loop_side_ok)

lemmas side_rules = side_ok_positional side_ok_object

lemma binance_trade_sound:
  "binance_ParseTradeEvent E doc ch = Some t \<Longrightarrow> tick_channel_id t = ch \<and> tick_wf t"
  by (auto simp: binance_ParseTradeEvent_def bind_eq_Some_conv)

lemma binance_best_sound: "binance_best E doc ch = Some b \<Longrightarrow> bt_channel_id b = ch \<and> book_ticker_wf b"
  by (auto simp: binance_best_def bind_eq_Some_conv)

lemma binance_book_ticker_sound:
  "binance_ParseBookTickerEvent E doc ch = Some b \<Longrightarrow> bt_channel_id b = ch \<and> book_ticker_wf b"
  by (auto simp: binance_ParseBookTickerEvent_def bind_eq_Some_conv dest: binance_best_sound)

lemma spot_book_ticker_sound:
  "ParseSpotBookTickerEvent E doc ch = Some b \<Longrightarrow> bt_channel_id b = ch \<and> book_ticker_wf b"
  by (auto simp: ParseSpotBookTickerEvent_def dest: binance_best_sound)

lemma binance_perpetual_depth_sound:
  "binance_perpetual_ParseDepthEvent E doc ch = Some d \<Longrightarrow> dep_channel_id d = ch \<and> depth_wf d"
  by (auto simp: binance_perpetual_ParseDepthEvent_def bind_eq_Some_conv intro!: with_sides_wf dest: side_rules)

lemma partial_depth_sound: "ParsePartialDepth E doc ch = Some d \<Longrightarrow> dep_channel_id d = ch \<and> depth_wf d"
  by (auto simp: ParsePartialDepth_def bind_eq_Some_conv intro!: with_sides_wf dest: side_rules)

lemma gateio_book_ticker_sound:
  "gateio_ParseBookTickerEvent E doc ch = Some b \<Longrightarrow> bt_channel_id b = ch \<and> book_ticker_wf b"
  by (auto simp: gateio_ParseBookTickerEvent_def bind_eq_Some_conv split: if_splits)

lemma gateio_spot_trade_sound:
  "gateio_spot_ParseTradeEvent E doc ch = Some t \<Longrightarrow> tick_channel_id t = ch \<and> tick_wf t"
  by (auto simp: gateio_spot_ParseTradeEvent_def bind_eq_Some_conv split: if_splits)

lemma gateio_spot_depth_sound:
  "gateio_spot_ParseDepthEvent E doc ch = Some d \<Longrightarrow> dep_channel_id d = ch \<and> depth_wf d"
  by (auto simp: gateio_spot_ParseDepthEvent_def bind_eq_Some_conv split: if_splits intro!: with_sides_wf dest: side_rules)

lemma case_list_Some: "(case xs of [] \<Rightarrow> None | x # _ \<Rightarrow> f x) = Some y \<longleftrightarrow> (\<exists>x xs'. xs = x # xs' \<and> f x = Some y)"
  by (cases xs) simp_all

lemma gateio_perpetual_trade_sound:
  "gateio_perpetual_ParseTradeEvent E doc ch = Some t \<Longrightarrow> tick_channel_id t = ch \<and> tick_wf t"
  by (auto simp: gateio_perpetual_ParseTradeEvent_def bind_eq_Some_conv case_list_Some split: if_splits)

lemma gateio_perpetual_depth_sound:
  "gateio_perpetual_ParseDepthEvent E doc ch = Some d \<Longrightarrow> dep_channel_id d = ch \<and> depth_wf d"
  by (auto simp: gateio_perpetual_ParseDepthEvent_def bind_eq_Some_conv split: if_splits intro!: with_sides_wf dest: side_rules)

lemmas parse_sound = binance_trade_sound binance_book_ticker_sound spot_book_ticker_sound binance_perpetual_depth_sound
  partial_depth_sound gateio_book_ticker_sound gateio_spot_trade_sound gateio_spot_depth_sound gateio_perpetual_trade_sound
  gateio_perpetual_depth_sound

lemma binance_spot_sound:
  assumes "result_event (binance_spot_Parse E doc ch et) = Some e"
  shows "pe_parsed_type e = expected_type et \<and> pe_channel e = ch \<and> pe_wf e"
  by (rule parse_by_type_sound [OF assms [unfolded binance_spot_Parse_def]]) (simp_all add: parse_sound)

lemma binance_perpetual_sound:
  assumes "result_event (binance_perpetual_Parse E doc ch et) = Some e"
  shows "pe_parsed_type e = expected_type et \<and> pe_channel e = ch \<and> pe_wf e"
  by (rule parse_by_type_sound [OF assms [unfolded binance_perpetual_Parse_def]]) (auto simp: parse_sound)

lemma gateio_spot_sound:
  assumes "result_event (gateio_spot_Parse E doc ch et) = Some e"
  shows "pe_parsed_type e = expected_type et \<and> pe_channel e = ch \<and> pe_wf e"
  by (rule parse_by_type_sound [OF assms [unfolded gateio_spot_Parse_def]]) (simp_all add: parse_sound)

lemma gateio_perpetual_sound:
  assumes "result_event (gateio_perpetual_Parse E doc ch et) = Some e"
  shows "pe_parsed_type e = expected_type et \<and> pe_channel e = ch \<and> pe_wf e"
  by (rule parse_by_type_sound [OF assms [unfolded gateio_perpetual_Parse_def]]) (simp_all add: parse_sound)

lemmas adapter_sound = binance_spot_sound binance_perpetual_sound gateio_spot_sound gateio_perpetual_sound

lemmas adapter_defs = kBinanceSpotAdapter_def kBinancePerpetualAdapter_def kGateioSpotAdapter_def kGateioPerpetualAdapter_def

lemmas subscribe_defs = BinanceSpotBuildSubscribes_def BinancePerpetualBuildSubscribes_def GateioSpotBuildSubscribes_def
  GateioPerpetualBuildSubscribes_def group_events_def Let_def

interpretation binance_spot: exchange_adapter kBinanceSpotAdapter
  by unfold_locales (auto simp: adapter_defs subscribe_defs dest: adapter_sound)

interpretation binance_perpetual: exchange_adapter kBinancePerpetualAdapter
  by unfold_locales (auto simp: adapter_defs subscribe_defs dest: adapter_sound)

interpretation gateio_spot: exchange_adapter kGateioSpotAdapter
  by unfold_locales (auto simp: adapter_defs subscribe_defs dest: adapter_sound)

interpretation gateio_perpetual: exchange_adapter kGateioPerpetualAdapter
  by unfold_locales (auto simp: adapter_defs subscribe_defs dest: adapter_sound)

lemma GetAdapter_contract: "GetAdapter name ty = Some a \<Longrightarrow> exchange_adapter a"
  using binance_spot.exchange_adapter_axioms binance_perpetual.exchange_adapter_axioms
    gateio_spot.exchange_adapter_axioms gateio_perpetual.exchange_adapter_axioms
  by (auto simp: GetAdapter_def split: if_splits)

section \<open>Properties\<close>

lemma worker_run_eq:
  "worker_run iterate msgs =
     (List.map_filter (ParseAndDispatch iterate) (takeWhile (\<lambda>m. rm_size m \<noteq> 0) msgs), \<exists>m\<in>set msgs. rm_size m = 0)"
  by (induction msgs) (auto simp: List.map_filter_def split: option.splits)

text \<open>A message as the network thread queues it: its parse function belongs to an adapter.\<close>
definition from_adapter :: "('n \<Rightarrow> u32 \<Rightarrow> EventType \<Rightarrow> ParseResult) RawMessage \<Rightarrow> bool" where
  "from_adapter msg \<longleftrightarrow> (\<exists>name ty a E. GetAdapter name ty = Some a \<and> rm_parse_fn msg = Some (ea_parse a E))"

text \<open>The event \<open>e\<close> is of the kind the message announces and carries its channel, symbol and time of receipt.\<close>
definition stamped_from :: "'f RawMessage \<Rightarrow> pub_event \<Rightarrow> bool" where
  "stamped_from msg e \<longleftrightarrow> pe_parsed_type e = expected_type (rm_event_type msg) \<and> pe_channel e = rm_channel_id msg
     \<and> c_str (pe_symbol e) = take 11 (c_str (rm_symbol msg)) \<and> pe_local e = rm_recv_timestamp msg \<and> pe_wf e"

lemma ParseAndDispatch_stamped:
  assumes "from_adapter msg" "ParseAndDispatch iterate msg = Some e"
  shows "stamped_from msg e"
proof -
  obtain name ty a E where "GetAdapter name ty = Some a" "rm_parse_fn msg = Some (ea_parse a E)"
    using assms(1) by (auto simp: from_adapter_def)
  then show ?thesis
    using exchange_adapter.dispatched_event_stamped [OF GetAdapter_contract assms(2)] by (simp add: stamped_from_def)
qed

text \<open>
  The parser worker processes its messages in order up to the poison pill, where it stops. Whatever
  the exchange sends and whichever of the four adapters parses it, every event it hands on is of the kind
  its message announces, has the message's channel identifier, its symbol (cut to the 11 characters
  that fit), its time of receipt, and arrays and counts within their bounds.
\<close>
theorem worker_events_stamped:
  assumes "\<forall>msg\<in>set msgs. from_adapter msg"
  shows "worker_run iterate msgs =
      (List.map_filter (ParseAndDispatch iterate) (takeWhile (\<lambda>m. rm_size m \<noteq> 0) msgs), \<exists>m\<in>set msgs. rm_size m = 0)
    \<and> (\<forall>msg\<in>set msgs. \<forall>e. ParseAndDispatch iterate msg = Some e \<longrightarrow> stamped_from msg e)"
  using assms by (simp add: worker_run_eq ParseAndDispatch_stamped)

text \<open>
  C37: Reading price levels from a message keeps exactly the readable levels, in their order, up to the
  capacity of the array; the count says how many, and the rest of the array is untouched. Unless a level
  has the wrong JSON type the reading succeeds.
\<close>
theorem parsed_levels_exact:
  assumes "max_levels \<le> length out"
  shows "((\<forall>lv\<in>set arr. positional_level E lv \<noteq> None) \<longrightarrow> ParsePositionalLevelArray E arr out max_levels \<noteq> None)
    \<and> (\<forall>out' n. ParsePositionalLevelArray E arr out max_levels = Some (out', n) \<longrightarrow>
      n = min max_levels (length (readable_levels (positional_level E) arr)) \<and> length out' = length out
      \<and> take n out' = take max_levels (readable_levels (positional_level E) arr) \<and> drop n out' = drop n out)"
proof (intro conjI allI impI)
  assume "\<forall>lv\<in>set arr. positional_level E lv \<noteq> None"
  then show "ParsePositionalLevelArray E arr out max_levels \<noteq> None"
    using level_loop_total [of arr "positional_level E" max_levels out 0] by (auto simp: ParsePositionalLevelArray_def)
next
  fix out' n
  assume "ParsePositionalLevelArray E arr out max_levels = Some (out', n)"
  note exact = level_loop_exact [OF this [unfolded ParsePositionalLevelArray_def] le0 assms, unfolded add_0 take_0 append_Nil diff_zero]
  from exact show "n = min max_levels (length (readable_levels (positional_level E) arr))" by blast
  from exact show "length out' = length out" by blast
  from exact show "take n out' = take max_levels (readable_levels (positional_level E) arr)" by blast
  from exact show "drop n out' = drop n out" by blast
qed

section \<open>Examples\<close>

text \<open>JSON trees, and texts of digits as numbers.\<close>
datatype json = JStr string | JInt int | JBool bool | JArr "json list" | JObj "(string \<times> json) list"

definition sample_json_env :: "json json_env" where
  "sample_json_env = \<lparr>
     js_field = (\<lambda>v k. case v of JObj fs \<Rightarrow> map_of fs k | _ \<Rightarrow> None),
     js_string = (\<lambda>v. case v of JStr s \<Rightarrow> Some s | _ \<Rightarrow> None),
     js_int64 = (\<lambda>v. case v of JInt i \<Rightarrow> Some i | _ \<Rightarrow> None),
     js_uint64 = (\<lambda>v. case v of JInt i \<Rightarrow> (if 0 \<le> i then Some i else None) | _ \<Rightarrow> None),
     js_bool = (\<lambda>v. case v of JBool b \<Rightarrow> Some b | _ \<Rightarrow> None),
     js_array = (\<lambda>v. case v of JArr vs \<Rightarrow> Some vs | _ \<Rightarrow> None),
     js_from_chars = (\<lambda>s. if s = ''2'' then Some (double_of_int 2) else if s = ''3'' then Some (double_of_int 3) else None),
     js_times_1000 = (\<lambda>x. 0), js_now_us = 7\<rparr>"

definition sample_trade :: json where
  "sample_trade = JObj [(''e'', JStr ''aggTrade''), (''E'', JInt 5), (''a'', JInt 9), (''p'', JStr ''2''), (''q'', JStr ''3''),
     (''m'', JBool True)]"

definition sample_message :: "(json \<Rightarrow> u32 \<Rightarrow> EventType \<Rightarrow> ParseResult) RawMessage" where
  "sample_message = raw_message_zero\<lparr>rm_size := 1, rm_channel_id := 77, rm_recv_timestamp := 4,
     rm_symbol := ''BTCUSDT'' @ replicate 25 NUL, rm_event_type := ET_TICK,
     rm_parse_fn := Some (ea_parse kBinancePerpetualAdapter sample_json_env)\<rparr>"

theorem worker_events_stamped_witness:
  "from_adapter sample_message
   \<and> map pe_channel (fst (worker_run (\<lambda>_. Some sample_trade) [sample_message, raw_message_zero\<lparr>rm_parse_fn := rm_parse_fn sample_message\<rparr>]))
      = [77]
   \<and> (\<forall>e. ParseAndDispatch (\<lambda>_. Some sample_trade) sample_message = Some e \<longrightarrow> stamped_from sample_message e)"
proof -
  let ?pill = "raw_message_zero\<lparr>rm_parse_fn := rm_parse_fn sample_message\<rparr>"
  have a: "GetAdapter ''binance'' Perpetual = Some kBinancePerpetualAdapter" by (simp add: GetAdapter_def)
  have f: "from_adapter sample_message" "from_adapter ?pill"
    unfolding from_adapter_def using a by (auto simp: sample_message_def)
  have s: "rm_size sample_message = 1" "rm_size ?pill = 0" by (simp_all add: sample_message_def raw_message_zero_def)
  have d: "\<exists>e. ParseAndDispatch (\<lambda>_. Some sample_trade) sample_message = Some e"
    by (simp add: ParseAndDispatch_def sample_message_def Let_def kBinancePerpetualAdapter_def binance_perpetual_Parse_def
        tick_result_def binance_ParseTradeEvent_def get_i64_def get_decimal_def get_str_def SvToDouble_def sample_json_env_def
        sample_trade_def)
  then obtain e where e: "ParseAndDispatch (\<lambda>_. Some sample_trade) sample_message = Some e" by blast
  note main = worker_events_stamped [of "[sample_message, ?pill]" "\<lambda>_. Some sample_trade"]
  have "stamped_from sample_message e" using main f e by simp
  then have "pe_channel e = 77" by (simp add: stamped_from_def sample_message_def)
  then show ?thesis using main f s e by (simp add: List.map_filter_def)
qed

theorem parsed_levels_exact_witness:
  "\<exists>out'. ParsePositionalLevelArray sample_json_env
       [JArr [JStr ''2'', JStr ''3''], JArr [JStr ''x'', JStr ''3''], JArr [JStr ''3'', JStr ''2'', JInt 1]] (replicate 4 level_zero) 3
     = Some (out', 2)
   \<and> take 2 out' = [\<lparr>lvl_price = double_of_int 2, lvl_quantity = double_of_int 3\<rparr>, \<lparr>lvl_price = double_of_int 3, lvl_quantity = double_of_int 2\<rparr>]
   \<and> drop 2 out' = [level_zero, level_zero]"
proof -
  let ?arr = "[JArr [JStr ''2'', JStr ''3''], JArr [JStr ''x'', JStr ''3''], JArr [JStr ''3'', JStr ''2'', JInt 1]]"
  have lv: "positional_level sample_json_env (JArr [JStr ''2'', JStr ''3'']) = Some (Some \<lparr>lvl_price = double_of_int 2, lvl_quantity = double_of_int 3\<rparr>)"
    "positional_level sample_json_env (JArr [JStr ''x'', JStr ''3'']) = Some None"
    "positional_level sample_json_env (JArr [JStr ''3'', JStr ''2'', JInt 1]) = Some (Some \<lparr>lvl_price = double_of_int 3, lvl_quantity = double_of_int 2\<rparr>)"
    by (simp_all add: positional_level_def sample_json_env_def SvToDouble_def)
  let ?ls = "[\<lparr>lvl_price = double_of_int 2, lvl_quantity = double_of_int 3\<rparr>, \<lparr>lvl_price = double_of_int 3, lvl_quantity = double_of_int 2\<rparr>]"
  have rd: "readable_levels (positional_level sample_json_env) ?arr = ?ls" by (simp add: lv)
  note main = parsed_levels_exact [of 3 "replicate 4 level_zero" ?arr sample_json_env, unfolded rd]
  have "ParsePositionalLevelArray sample_json_env ?arr (replicate 4 level_zero) 3 \<noteq> None" using main by (simp add: lv)
  then obtain out' n where r: "ParsePositionalLevelArray sample_json_env ?arr (replicate 4 level_zero) 3 = Some (out', n)" by auto
  have len: "3 \<le> length (replicate 4 level_zero)" by simp
  from main [OF len] r have "n = min 3 (length ?ls)" "take n out' = take 3 ?ls" "drop n out' = drop n (replicate 4 level_zero)"
    by blast+
  moreover from this(1) have "n = 2" by simp
  ultimately have "take 2 out' = ?ls" "drop 2 out' = [level_zero, level_zero]" by (simp_all add: numeral_2_eq_2)
  then show ?thesis using r \<open>n = 2\<close> by blast
qed

end
