(* ===== verification/Ws_Client.thy ===== *)
theory Ws_Client
  imports Prelude
begin

text \<open>
  The WebSocket client of \<open>src/network/ws_client.cpp\<close> as the state machine its completion handlers
  form. A client has at most one asynchronous operation outstanding (writes and the posted close apart);
  each definition below is the handler of one operation, and says which callback of the owner it
  calls. The sockets, the TLS layer and the event loop decide which operation completes when and
  with which error.
\<close>

datatype ws_op = Resolving | Connecting | SslHandshaking | Handshaking | Reading

datatype ws_callback = CB_None | CB_Connect bool | CB_Disconnect

text \<open>
  The members of \<open>WsClient\<close>. \<open>ws_on_disconnect\<close> says whether the handler is set, \<open>ws_op\<close> is the
  outstanding operation, \<open>ws_request\<close> the fields of the upgrade request, \<open>ws_posted\<close> the messages
  whose write has been posted, oldest first, and \<open>ws_close_posted\<close> whether the close frame has been.
\<close>
record WsClient =
  ws_host :: string
  ws_port :: string
  ws_path :: string
  ws_extra_headers :: "(string \<times> string) list"
  ws_is_open :: bool
  ws_on_disconnect :: bool
  ws_op :: "ws_op option"
  ws_request :: "(string \<times> string) list"
  ws_posted :: "string list"
  ws_close_posted :: bool

definition WsClient_new :: WsClient where
  "WsClient_new = \<lparr>ws_host = [], ws_port = [], ws_path = [], ws_extra_headers = [], ws_is_open = False, ws_on_disconnect = False,
     ws_op = None, ws_request = [], ws_posted = [], ws_close_posted = False\<rparr>"

definition AddHeader :: "string \<Rightarrow> string \<Rightarrow> WsClient \<Rightarrow> WsClient" where
  "AddHeader name value c = c\<lparr>ws_extra_headers := ws_extra_headers c @ [(name, value)]\<rparr>"

definition WsClient_Connect :: "string \<Rightarrow> string \<Rightarrow> string \<Rightarrow> WsClient \<Rightarrow> WsClient" where
  "WsClient_Connect host port path c =
     c\<lparr>ws_host := host, ws_port := port, ws_path := path, ws_on_disconnect := False, ws_op := Some Resolving\<rparr>"

text \<open>\<open>ok\<close> is false when the handler receives an error code.\<close>
definition OnResolve :: "bool \<Rightarrow> WsClient \<Rightarrow> WsClient \<times> ws_callback" where
  "OnResolve ok c =
     (if \<not> ok then (c\<lparr>ws_op := None\<rparr>, CB_Connect False) else (c\<lparr>ws_op := Some Connecting\<rparr>, CB_None))"

text \<open>\<open>req.set\<close> replaces the fields of that name; names of fields do not distinguish case.\<close>
definition set_field :: "string \<times> string \<Rightarrow> (string \<times> string) list \<Rightarrow> (string \<times> string) list" where
  "set_field f fs = filter (\<lambda>(n, _). map to_lower n \<noteq> map to_lower (fst f)) fs @ [f]"

text \<open>The handler of the TCP connection, with the decorator of the upgrade request it installs.\<close>
definition OnTcpConnect :: "bool \<Rightarrow> WsClient \<Rightarrow> WsClient \<times> ws_callback" where
  "OnTcpConnect ok c =
     (if \<not> ok then (c\<lparr>ws_op := None\<rparr>, CB_Connect False)
      else (c\<lparr>ws_request := fold set_field (ws_extra_headers c) [(''User-Agent'', ''smart_quant_collector'')],
              ws_op := Some SslHandshaking\<rparr>, CB_None))"

definition OnSslHandshake :: "bool \<Rightarrow> WsClient \<Rightarrow> WsClient \<times> ws_callback" where
  "OnSslHandshake ok c =
     (if \<not> ok then (c\<lparr>ws_op := None\<rparr>, CB_Connect False) else (c\<lparr>ws_op := Some Handshaking\<rparr>, CB_None))"

definition OnHandshake :: "bool \<Rightarrow> WsClient \<Rightarrow> WsClient \<times> ws_callback" where
  "OnHandshake ok c =
     (if \<not> ok then (c\<lparr>ws_op := None\<rparr>, CB_Connect False)
      else (c\<lparr>ws_is_open := True, ws_op := None\<rparr>, CB_Connect True))"

definition SetDisconnectHandler :: "WsClient \<Rightarrow> WsClient" where
  "SetDisconnectHandler c = c\<lparr>ws_on_disconnect := True\<rparr>"

definition StartRead :: "WsClient \<Rightarrow> WsClient" where
  "StartRead c = c\<lparr>ws_op := Some Reading\<rparr>"

text \<open>The handler of a read: an error ends the connection, a message is handed on and the next read started.\<close>
definition OnRead :: "bool \<Rightarrow> WsClient \<Rightarrow> WsClient \<times> ws_callback" where
  "OnRead ok c =
     (if \<not> ok then (c\<lparr>ws_is_open := False, ws_op := None\<rparr>, if ws_on_disconnect c then CB_Disconnect else CB_None)
      else if ws_is_open c then (StartRead c, CB_None)
      else (c\<lparr>ws_op := None\<rparr>, CB_None))"

definition WsClient_Write :: "string \<Rightarrow> WsClient \<Rightarrow> WsClient" where
  "WsClient_Write message c = c\<lparr>ws_posted := ws_posted c @ [message]\<rparr>"

definition WsClient_Close :: "WsClient \<Rightarrow> WsClient" where
  "WsClient_Close c = (if \<not> ws_is_open c then c else c\<lparr>ws_is_open := False, ws_close_posted := True\<rparr>)"

text \<open>The handler of an outstanding operation.\<close>
fun ws_complete :: "ws_op \<Rightarrow> bool \<Rightarrow> WsClient \<Rightarrow> WsClient \<times> ws_callback" where
  "ws_complete Resolving = OnResolve"
| "ws_complete Connecting = OnTcpConnect"
| "ws_complete SslHandshaking = OnSslHandshake"
| "ws_complete Handshaking = OnHandshake"
| "ws_complete Reading = OnRead"

lemmas ws_handler_defs = OnResolve_def OnTcpConnect_def OnSslHandshake_def OnHandshake_def OnRead_def StartRead_def

text \<open>
  A client is alive when one of its handlers will still run and, once it reads, a loss of the connection
  is going to be reported.
\<close>
definition ws_live :: "WsClient \<Rightarrow> bool" where
  "ws_live c \<longleftrightarrow> ws_op c \<noteq> None \<and> (ws_op c = Some Reading \<longrightarrow> ws_is_open c \<and> ws_on_disconnect c)"

text \<open>A handler either keeps the client alive, or reports its end to the owner.\<close>
lemma ws_complete_live:
  "ws_live c \<Longrightarrow> ws_op c = Some op1 \<Longrightarrow> ws_complete op1 ok c = (c', cb) \<Longrightarrow>
     (cb = CB_None \<and> ws_live c') \<or> (cb \<noteq> CB_None \<and> ws_op c' = None)"
  by (cases op1) (auto simp: ws_live_def ws_handler_defs split: if_splits)

lemma ws_complete_callback: "ws_complete op1 ok c = (c', cb) \<Longrightarrow> cb \<noteq> CB_None \<Longrightarrow> ws_op c' = None"
  by (cases op1) (auto simp: ws_handler_defs split: if_splits)

lemma ws_complete_True: "ws_complete op1 ok c = (c', CB_Connect True) \<Longrightarrow> ws_is_open c'"
  by (cases op1) (auto simp: ws_handler_defs split: if_splits)

lemma Close_idem: "WsClient_Close (WsClient_Close c) = WsClient_Close c"
  by (simp add: WsClient_Close_def)

lemma Close_op [simp]: "ws_op (WsClient_Close c) = ws_op c"
  by (simp add: WsClient_Close_def)

end
