(* ===== verification/Crypto_Channel.thy ===== *)
theory Crypto_Channel
  imports Crypto_Adapters Ws_Client
begin

text \<open>
  One market data channel of a crypto exchange (\<open>src/exchange/crypto/symbol_channel.cpp\<close>): connecting,
  subscribing, reconnecting, and queueing the received messages for the parsers. The handlers run
  one after the other on the thread of the event loop. \<open>channel_step\<close> is one handler; which handler
  runs next, and with which outcome, is arbitrary. A client that is replaced is destroyed. When one of
  its operations is still outstanding, the completion handler of that operation later runs on a destroyed object;
  the model counts such operations and does not describe what their handlers do.
\<close>

section \<open>Addresses\<close>

record ParsedUrl =
  pu_host :: string
  pu_port :: string
  pu_path :: string

definition ParseWsUrl :: "string \<Rightarrow> ParsedUrl" where
  "ParseWsUrl ws_url =
     (let url = (if take 6 ws_url = ''wss://'' then drop 6 ws_url else ws_url);
          colon = find_char (CHR '':'') url; slash = find_char (CHR ''/'') url;
          path = (case slash of Some sl \<Rightarrow> drop sl url | None \<Rightarrow> ''/'')
      in case (colon, slash) of
           (Some co, None) \<Rightarrow> \<lparr>pu_host = take co url, pu_port = drop (co + 1) url, pu_path = path\<rparr>
         | (Some co, Some sl) \<Rightarrow>
             if co < sl then \<lparr>pu_host = take co url, pu_port = take (sl - co - 1) (drop (co + 1) url), pu_path = path\<rparr>
             else \<lparr>pu_host = take sl url, pu_port = ''443'', pu_path = path\<rparr>
         | (None, Some sl) \<Rightarrow> \<lparr>pu_host = take sl url, pu_port = ''443'', pu_path = path\<rparr>
         | (None, None) \<Rightarrow> \<lparr>pu_host = url, pu_port = ''443'', pu_path = path\<rparr>)"

section \<open>State\<close>

type_synonym 'n parse_fn = "'n \<Rightarrow> u32 \<Rightarrow> EventType \<Rightarrow> ParseResult"

text \<open>
  The members of \<open>SymbolChannel\<close>, then what the event loop holds for it: subscription timers that still
  wait, subscription timers that have expired and whose handler is queued (a cancellation no longer reaches
  these), reconnect timers with their delay in seconds, operations outstanding on destroyed clients, clients
  destroyed while the event loop was running, whether shutdown has been requested, and the messages
  handed to a shard queue, oldest first.
\<close>
record 'n SymbolChannel =
  cn_adapter :: "'n ExchangeAdapter"
  cn_symbol :: string
  cn_depth_level :: u32
  cn_channel_id :: u32
  cn_shards :: nat
  cn_groups :: "SubscriptionGroup list"
  cn_clients :: "WsClient list"
  cn_reconnect_attempts :: u32
  cn_is_reconnecting :: bool
  cn_waiting :: "(nat \<times> nat) list"
  cn_expired :: "(nat \<times> nat) list"
  cn_reconnect_timers :: "u32 list"
  cn_abandoned :: nat
  cn_destroyed :: nat
  cn_shutdown :: bool
  cn_queued :: "(nat \<times> 'n parse_fn RawMessage) list"

definition SymbolChannel_new :: "'n ExchangeAdapter \<Rightarrow> string \<Rightarrow> u32 \<Rightarrow> u32 \<Rightarrow> nat \<Rightarrow> 'n SymbolChannel" where
  "SymbolChannel_new adapter symbol depth_level channel_id shards =
     \<lparr>cn_adapter = adapter, cn_symbol = symbol, cn_depth_level = depth_level, cn_channel_id = channel_id, cn_shards = shards,
      cn_groups = [], cn_clients = [], cn_reconnect_attempts = 0, cn_is_reconnecting = False, cn_waiting = [], cn_expired = [],
      cn_reconnect_timers = [], cn_abandoned = 0, cn_destroyed = 0, cn_shutdown = False, cn_queued = []\<rparr>"

section \<open>Operations\<close>

text \<open>A new client of a group, with the headers of the adapter, that starts to connect.\<close>
definition start_client :: "'n ExchangeAdapter \<Rightarrow> SubscriptionGroup \<Rightarrow> WsClient" where
  "start_client a g =
     (let parsed = ParseWsUrl (sg_ws_url g)
      in WsClient_Connect (pu_host parsed) (pu_port parsed) (pu_path parsed)
           (fold (\<lambda>(n, v). AddHeader n v) (ea_ws_headers a) WsClient_new))"

text \<open>Every group gets a new client; the clients of an earlier start are destroyed by the assignment.\<close>
definition Start :: "nat \<Rightarrow> 'n SymbolChannel \<Rightarrow> 'n SymbolChannel" where
  "Start now_sec st =
     (let groups = ea_build_subscribes (cn_adapter st) now_sec (cn_symbol st) (cn_depth_level st); old = cn_clients st
      in if groups = [] then st\<lparr>cn_groups := groups\<rparr>
         else st\<lparr>cn_groups := groups, cn_clients := map (start_client (cn_adapter st)) groups,
                 cn_destroyed := cn_destroyed st + length old,
                 cn_abandoned := cn_abandoned st + length (filter (\<lambda>c. ws_op c \<noteq> None) old)\<rparr>)"

definition kMaxReconnectDelaySec :: u32 where
  "kMaxReconnectDelaySec = 60"

definition reconnect_delay :: "u32 \<Rightarrow> u32" where
  "reconnect_delay attempts = min (push_bit (unat (min attempts 6)) 1) kMaxReconnectDelaySec"

definition ScheduleReconnect :: "'n SymbolChannel \<Rightarrow> 'n SymbolChannel" where
  "ScheduleReconnect st =
     st\<lparr>cn_is_reconnecting := True,
        cn_reconnect_timers := cn_reconnect_timers st @ [reconnect_delay (cn_reconnect_attempts st)],
        cn_reconnect_attempts := cn_reconnect_attempts st + 1\<rparr>"

text \<open>Cancels the timers that still wait and closes every client.\<close>
definition Stop :: "'n SymbolChannel \<Rightarrow> 'n SymbolChannel" where
  "Stop st = st\<lparr>cn_waiting := [], cn_clients := map WsClient_Close (cn_clients st)\<rparr>"

definition OnDisconnect :: "'n SymbolChannel \<Rightarrow> 'n SymbolChannel" where
  "OnDisconnect st =
     (if cn_is_reconnecting st then st
      else if cn_shutdown st then st
      else ScheduleReconnect (st\<lparr>cn_waiting := [], cn_clients := map WsClient_Close (cn_clients st)\<rparr>))"

definition write_message :: "nat \<times> nat \<Rightarrow> 'n SymbolChannel \<Rightarrow> 'n SymbolChannel" where
  "write_message gi st =
     (case gi of (g, i) \<Rightarrow>
        st\<lparr>cn_clients := (cn_clients st)[g := WsClient_Write (sm_payload (sg_messages (cn_groups st ! g) ! i)) (cn_clients st ! g)]\<rparr>)"

text \<open>The loop over the messages of group \<open>g\<close> from index \<open>i\<close> on.\<close>
fun send_loop :: "nat \<Rightarrow> nat \<Rightarrow> SubscriptionMessage list \<Rightarrow> 'n SymbolChannel \<Rightarrow> 'n SymbolChannel" where
  "send_loop g i [] st = st"
| "send_loop g i (m # ms) st =
     send_loop g (Suc i) ms
       (if sm_delay_ms m = 0 then write_message (g, i) st else st\<lparr>cn_waiting := cn_waiting st @ [(g, i)]\<rparr>)"

definition SendGroupSubscriptions :: "nat \<Rightarrow> 'n SymbolChannel \<Rightarrow> 'n SymbolChannel" where
  "SendGroupSubscriptions g st =
     (if length (cn_groups st) \<le> g then st else send_loop g 0 (sg_messages (cn_groups st ! g)) st)"

text \<open>What the handler of the connection does with its result.\<close>
definition on_connect :: "nat \<Rightarrow> bool \<Rightarrow> 'n SymbolChannel \<Rightarrow> 'n SymbolChannel" where
  "on_connect g success st =
     (if success then
        let st1 = st\<lparr>cn_reconnect_attempts := 0,
                     cn_clients := (cn_clients st)[g := SetDisconnectHandler (cn_clients st ! g)]\<rparr>;
            st2 = SendGroupSubscriptions g st1
        in st2\<lparr>cn_clients := (cn_clients st2)[g := StartRead (cn_clients st2 ! g)]\<rparr>
      else if \<not> cn_is_reconnecting st then ScheduleReconnect st
      else st)"

text \<open>
  What a message meets: the JSON library, the number of padding bytes it wants, whether memory can be
  allocated, \<open>std::hash\<close> of a name and the steady clock in nanoseconds.
\<close>
record 'n msg_env =
  me_json :: "'n json_env"
  me_iterate :: "char list \<Rightarrow> 'n option"
  me_padding :: nat
  me_alloc_ok :: bool
  me_hash :: "string \<Rightarrow> u64"
  me_now_ns :: u64

text \<open>\<open>memcpy\<close> of the data and \<open>memset\<close> of the padding into the active buffer.\<close>
definition fill_buffer :: "char list \<Rightarrow> nat \<Rightarrow> 'f RawMessage \<Rightarrow> 'f RawMessage" where
  "fill_buffer data padding m =
     (let put = (\<lambda>buf. data @ replicate padding NUL @ drop (length data + padding) buf)
      in case rm_heap m of
           Some h \<Rightarrow> m\<lparr>rm_heap := Some (put h)\<rparr>
         | None \<Rightarrow> m\<lparr>rm_inline := put (rm_inline m)\<rparr>)"

text \<open>The shard and the message that is pushed into its queue, if any.\<close>
definition OnMessage :: "'n msg_env \<Rightarrow> char list \<Rightarrow> 'n SymbolChannel \<Rightarrow> (nat \<times> 'n parse_fn RawMessage) option" where
  "OnMessage env data st =
     (if data = [] \<or> cn_shards st = 0 then None
      else case allocate (me_padding env) (me_alloc_ok env) (length data) raw_message_zero of
        (False, _) \<Rightarrow> None
      | (True, m0) \<Rightarrow>
          (let m1 = (fill_buffer data (me_padding env) m0)\<lparr>rm_size := length data, rm_channel_id := cn_channel_id st,
                      rm_recv_timestamp := me_now_ns env,
                      rm_symbol := take (min (length (cn_symbol st)) 31) (cn_symbol st)
                        @ drop (min (length (cn_symbol st)) 31) (rm_symbol m0),
                      rm_parse_fn := Some (ea_parse (cn_adapter st) (me_json env))\<rparr>;
               m2 = (case me_iterate env (take (length data) (rm_buffer m1)) of
                       Some doc \<Rightarrow> m1\<lparr>rm_event_type := ea_peek_event_type (cn_adapter st) (me_json env) doc\<rparr>
                     | None \<Rightarrow> m1)
           in if rm_event_type m2 = ET_UNKNOWN then None
              else Some (unat (ucast (cn_channel_id st) XOR me_hash env (ea_name (cn_adapter st))) mod cn_shards st, m2)))"

section \<open>The event loop\<close>

text \<open>
  A completed operation of client \<open>g\<close> (false: with an error), a message read by client \<open>g\<close>, the expiry of
  a waiting subscription timer, the handler of an expired one, the handler of the reconnect timer, a shutdown
  request, and the call of \<open>Stop\<close> in the shutdown sequence.
\<close>
datatype 'n io_event =
    Completed nat bool
  | Received nat "'n msg_env" "char list"
  | TimerExpired nat
  | SubscribeDue
  | ReconnectDue nat
  | ShutdownRequested
  | StopCalled

fun run_callback_channel :: "nat \<Rightarrow> ws_callback \<Rightarrow> 'n SymbolChannel \<Rightarrow> 'n SymbolChannel" where
  "run_callback_channel g CB_None st = st"
| "run_callback_channel g (CB_Connect ok) st = on_connect g ok st"
| "run_callback_channel g CB_Disconnect st = OnDisconnect st"

text \<open>The handler of the operation that client \<open>g\<close> has outstanding, and the callback it makes.\<close>
definition complete_client :: "nat \<Rightarrow> bool \<Rightarrow> 'n SymbolChannel \<Rightarrow> 'n SymbolChannel" where
  "complete_client g ok st =
     (if length (cn_clients st) \<le> g then st
      else case ws_op (cn_clients st ! g) of
        None \<Rightarrow> st
      | Some op1 \<Rightarrow>
          (case ws_complete op1 ok (cn_clients st ! g) of
             (c, cb) \<Rightarrow> run_callback_channel g cb (st\<lparr>cn_clients := (cn_clients st)[g := c]\<rparr>)))"

text \<open>The handler of a successful read passes the message on first, then starts the next read.\<close>
definition receive_message :: "nat \<Rightarrow> 'n msg_env \<Rightarrow> char list \<Rightarrow> 'n SymbolChannel \<Rightarrow> 'n SymbolChannel" where
  "receive_message g env data st =
     (if length (cn_clients st) \<le> g \<or> ws_op (cn_clients st ! g) \<noteq> Some Reading then st
      else complete_client g True
        (case OnMessage env data st of None \<Rightarrow> st | Some m \<Rightarrow> st\<lparr>cn_queued := cn_queued st @ [m]\<rparr>))"

definition reconnect_due :: "nat \<Rightarrow> 'n SymbolChannel \<Rightarrow> 'n SymbolChannel" where
  "reconnect_due now_sec st =
     (case cn_reconnect_timers st of
        [] \<Rightarrow> st
      | _ # ts \<Rightarrow>
          (let st1 = st\<lparr>cn_reconnect_timers := ts\<rparr>
           in if cn_shutdown st then st1 else Start now_sec (st1\<lparr>cn_is_reconnecting := False\<rparr>)))"

definition subscribe_due :: "'n SymbolChannel \<Rightarrow> 'n SymbolChannel" where
  "subscribe_due st =
     (case cn_expired st of
        [] \<Rightarrow> st
      | gi # rest \<Rightarrow> (let st1 = st\<lparr>cn_expired := rest\<rparr> in if cn_shutdown st then st1 else write_message gi st1))"

fun channel_step :: "'n io_event \<Rightarrow> 'n SymbolChannel \<Rightarrow> 'n SymbolChannel" where
  "channel_step (Completed g ok) st =
     (if ok \<and> g < length (cn_clients st) \<and> ws_op (cn_clients st ! g) = Some Reading then st else complete_client g ok st)"
| "channel_step (Received g env data) st = receive_message g env data st"
| "channel_step (TimerExpired k) st =
     (if k < length (cn_waiting st)
      then st\<lparr>cn_expired := cn_expired st @ [cn_waiting st ! k], cn_waiting := take k (cn_waiting st) @ drop (Suc k) (cn_waiting st)\<rparr>
      else st)"
| "channel_step SubscribeDue st = subscribe_due st"
| "channel_step (ReconnectDue now_sec) st = reconnect_due now_sec st"
| "channel_step ShutdownRequested st = st\<lparr>cn_shutdown := True\<rparr>"
| "channel_step StopCalled st = (if cn_shutdown st then Stop st else st)"

definition channel_run :: "'n io_event list \<Rightarrow> 'n SymbolChannel \<Rightarrow> 'n SymbolChannel" where
  "channel_run evs st = fold channel_step evs st"

section \<open>Addresses round trip\<close>

lemma ParseWsUrl_port:
  assumes "CHR '':'' \<notin> set host" "CHR ''/'' \<notin> set host" "CHR ''/'' \<notin> set port"
  shows "ParseWsUrl (''wss://'' @ host @ '':'' @ port @ ''/'' @ path) = \<lparr>pu_host = host, pu_port = port, pu_path = ''/'' @ path\<rparr>"
proof -
  let ?url = "host @ CHR '':'' # port @ CHR ''/'' # path"
  have "find_char (CHR '':'') ?url = Some (length host)" using assms(1) by (rule find_char_at)
  moreover have "find_char (CHR ''/'') ?url = Some (length host + Suc (length port))"
    using find_char_at [of "CHR ''/''" "host @ CHR '':'' # port" path] assms by simp
  ultimately show ?thesis by (simp add: ParseWsUrl_def Let_def)
qed

lemma ParseWsUrl_default_port:
  assumes "CHR '':'' \<notin> set host" "CHR ''/'' \<notin> set host"
  shows "ParseWsUrl (''wss://'' @ host @ ''/'' @ path) = \<lparr>pu_host = host, pu_port = ''443'', pu_path = ''/'' @ path\<rparr>"
proof -
  let ?url = "host @ CHR ''/'' # path"
  have "find_char (CHR ''/'') ?url = Some (length host)" using assms(2) by (rule find_char_at)
  moreover have "find_char (CHR '':'') ?url = map_option ((+) (length host)) (find_char (CHR '':'') (CHR ''/'' # path))"
    using assms(1) by (rule find_char_later)
  ultimately show ?thesis by (auto simp: ParseWsUrl_def Let_def split: option.splits)
qed

section \<open>What never changes\<close>

definition cn_const :: "'n SymbolChannel \<Rightarrow> 'n ExchangeAdapter \<times> string \<times> u32 \<times> u32 \<times> nat" where
  "cn_const st = (cn_adapter st, cn_symbol st, cn_depth_level st, cn_channel_id st, cn_shards st)"

lemma cn_const_updates [simp]:
  "cn_const (st\<lparr>cn_clients := cs\<rparr>) = cn_const st" "cn_const (st\<lparr>cn_waiting := w\<rparr>) = cn_const st"
  "cn_const (st\<lparr>cn_expired := e\<rparr>) = cn_const st" "cn_const (st\<lparr>cn_queued := q\<rparr>) = cn_const st"
  "cn_const (st\<lparr>cn_reconnect_attempts := n\<rparr>) = cn_const st" "cn_const (st\<lparr>cn_is_reconnecting := b\<rparr>) = cn_const st"
  "cn_const (st\<lparr>cn_reconnect_timers := ts\<rparr>) = cn_const st" "cn_const (st\<lparr>cn_shutdown := b\<rparr>) = cn_const st"
  "cn_const (st\<lparr>cn_groups := gs\<rparr>) = cn_const st" "cn_const (st\<lparr>cn_destroyed := k\<rparr>) = cn_const st"
  "cn_const (st\<lparr>cn_abandoned := k\<rparr>) = cn_const st"
  by (simp_all add: cn_const_def)

lemma write_message_const [simp]: "cn_const (write_message gi st) = cn_const st"
  by (simp add: write_message_def split: prod.split)

lemma send_loop_const [simp]: "cn_const (send_loop g i ms st) = cn_const st"
  by (induction ms arbitrary: i st) simp_all

lemma run_callback_const [simp]: "cn_const (run_callback_channel g cb st) = cn_const st"
  by (cases cb) (simp_all add: on_connect_def Let_def OnDisconnect_def ScheduleReconnect_def SendGroupSubscriptions_def)

lemma Start_const [simp]: "cn_const (Start now_sec st) = cn_const st"
  by (simp add: Start_def Let_def)

lemma complete_client_const [simp]: "cn_const (complete_client g ok st) = cn_const st"
  by (simp add: complete_client_def split: option.splits prod.splits)

lemma channel_step_const [simp]: "cn_const (channel_step ev st) = cn_const st"
  by (cases ev) (simp_all add: receive_message_def subscribe_due_def reconnect_due_def Stop_def Let_def split: option.splits list.splits)

lemma channel_run_const: "cn_const (channel_run evs st) = cn_const st"
  unfolding channel_run_def by (induction evs arbitrary: st) simp_all

section \<open>The life cycle of a channel\<close>

lemma reconnect_delay_bounds: "1 \<le> reconnect_delay n \<and> reconnect_delay n \<le> 60"
proof -
  have "unat (min n 6) \<in> {0, 1, 2, 3, 4, 5, 6}"
    by (auto simp: min_def word_le_nat_alt not_le word_less_nat_alt)
  then have "push_bit (unat (min n 6)) (1 :: u32) \<in> {1, 2, 4, 8, 16, 32, 64}" by auto
  then show ?thesis by (auto simp: reconnect_delay_def kMaxReconnectDelaySec_def min_def)
qed

text \<open>What subscribing does not touch.\<close>
definition ws_core :: "WsClient \<Rightarrow> ws_op option \<times> bool \<times> bool" where
  "ws_core c = (ws_op c, ws_is_open c, ws_on_disconnect c)"

definition cn_core where
  "cn_core st = (cn_adapter st, cn_symbol st, cn_depth_level st, cn_groups st, map ws_core (cn_clients st), cn_reconnect_attempts st, cn_is_reconnecting st,
     cn_reconnect_timers st, cn_abandoned st, cn_shutdown st)"

lemma cn_core_eqD:
  assumes "cn_core st = cn_core st'"
  shows "cn_groups st = cn_groups st'" "map ws_core (cn_clients st) = map ws_core (cn_clients st')"
    "length (cn_clients st) = length (cn_clients st')" "cn_is_reconnecting st = cn_is_reconnecting st'"
    "cn_reconnect_timers st = cn_reconnect_timers st'" "cn_abandoned st = cn_abandoned st'" "cn_shutdown st = cn_shutdown st'"
    "cn_adapter st = cn_adapter st'" "cn_symbol st = cn_symbol st'" "cn_depth_level st = cn_depth_level st'"
  using assms by (auto simp: cn_core_def dest: map_eq_imp_length_eq)

lemma write_message_core: "cn_core (write_message gi st) = cn_core st"
proof -
  obtain g i where gi: "gi = (g, i)" by fastforce
  have "(map ws_core cs)[g := ws_core (cs ! g)] = map ws_core cs" for cs
    by (cases "g < length cs") (simp_all add: list_update_same_conv list_update_beyond)
  moreover have "ws_core (WsClient_Write m c) = ws_core c" for m c by (simp add: WsClient_Write_def ws_core_def)
  ultimately show ?thesis by (simp add: cn_core_def write_message_def gi map_update)
qed

lemma send_loop_core: "cn_core (send_loop g i ms st) = cn_core st"
proof (induction ms arbitrary: i st)
  case (Cons m ms)
  show ?case unfolding send_loop.simps Cons.IH by (simp add: write_message_core) (simp add: cn_core_def)
qed simp

lemma SendGroupSubscriptions_core: "cn_core (SendGroupSubscriptions g st) = cn_core st"
  by (simp add: SendGroupSubscriptions_def send_loop_core)

lemma ws_live_core: "ws_live c \<longleftrightarrow> (case ws_core c of (op1, opn, od) \<Rightarrow> op1 \<noteq> None \<and> (op1 = Some Reading \<longrightarrow> opn \<and> od))"
  by (simp add: ws_live_def ws_core_def)

text \<open>
  At most one reconnect timer is outstanding, with a delay between one second and a minute; it exists exactly
  while the channel is marked as reconnecting; otherwise every client is alive. Only a shutdown
  request suspends this.
\<close>
definition channel_inv :: "'n SymbolChannel \<Rightarrow> bool" where
  "channel_inv st \<longleftrightarrow> length (cn_clients st) = length (cn_groups st)
     \<and> length (cn_reconnect_timers st) \<le> 1 \<and> (\<forall>d\<in>set (cn_reconnect_timers st). 1 \<le> d \<and> d \<le> 60)
     \<and> (cn_reconnect_timers st \<noteq> [] \<longrightarrow> cn_is_reconnecting st)
     \<and> (\<not> cn_shutdown st \<longrightarrow> cn_is_reconnecting st \<longrightarrow> cn_reconnect_timers st \<noteq> [])
     \<and> (\<not> cn_shutdown st \<longrightarrow> \<not> cn_is_reconnecting st \<longrightarrow> (\<forall>c\<in>set (cn_clients st). ws_live c))"

lemma channel_inv_core: "cn_core st = cn_core st' \<Longrightarrow> channel_inv st = channel_inv st'"
proof -
  assume eq: "cn_core st = cn_core st'"
  have "(\<forall>c\<in>set cs. ws_live c) = (\<forall>x\<in>set (map ws_core cs). case x of (op1, opn, od) \<Rightarrow> op1 \<noteq> None \<and> (op1 = Some Reading \<longrightarrow> opn \<and> od))" for cs
    by (simp add: ws_live_core)
  then have "(\<forall>c\<in>set (cn_clients st). ws_live c) = (\<forall>c\<in>set (cn_clients st'). ws_live c)"
    by (simp only: cn_core_eqD(2) [OF eq])
  then show ?thesis unfolding channel_inv_def by (simp only: cn_core_eqD [OF eq])
qed

lemma ScheduleReconnect_inv:
  assumes "length (cn_clients st) = length (cn_groups st)" "cn_reconnect_timers st = []"
  shows "channel_inv (ScheduleReconnect st)"
  using assms reconnect_delay_bounds by (simp add: ScheduleReconnect_def channel_inv_def)

lemma OnDisconnect_inv:
  assumes "length (cn_clients st) = length (cn_groups st)"
    and "cn_is_reconnecting st \<or> cn_shutdown st \<Longrightarrow> channel_inv st" and "\<not> cn_is_reconnecting st \<Longrightarrow> cn_reconnect_timers st = []"
  shows "channel_inv (OnDisconnect st)"
  using assms by (auto simp: OnDisconnect_def intro!: ScheduleReconnect_inv)

lemma on_connect_True_inv:
  assumes "length (cn_clients st) = length (cn_groups st)" "g < length (cn_clients st)" "ws_is_open (cn_clients st ! g)"
    and "\<And>c. ws_live c \<Longrightarrow> channel_inv (st\<lparr>cn_clients := (cn_clients st)[g := c]\<rparr>)"
  shows "channel_inv (on_connect g True st)"
proof -
  let ?st1 = "st\<lparr>cn_reconnect_attempts := 0, cn_clients := (cn_clients st)[g := SetDisconnectHandler (cn_clients st ! g)]\<rparr>"
  let ?st2 = "SendGroupSubscriptions g ?st1"
  note core = cn_core_eqD [OF SendGroupSubscriptions_core [of g ?st1]]
  have "map ws_core (cn_clients ?st2) ! g = map ws_core (cn_clients ?st1) ! g" using core(2) by simp
  then have "ws_core (cn_clients ?st2 ! g) = ws_core (SetDisconnectHandler (cn_clients st ! g))"
    using assms(2) core(3) by simp
  then have live: "ws_live (StartRead (cn_clients ?st2 ! g))"
    using assms(3) by (simp add: ws_core_def SetDisconnectHandler_def StartRead_def ws_live_def)
  let ?c = "StartRead (cn_clients ?st2 ! g)"
  have "cn_core (on_connect g True st) = cn_core (?st1\<lparr>cn_clients := (cn_clients ?st1)[g := ?c]\<rparr>)"
    using core SendGroupSubscriptions_core [of g ?st1] by (simp add: on_connect_def Let_def cn_core_def map_update)
  also have "\<dots> = cn_core (st\<lparr>cn_clients := (cn_clients st)[g := ?c], cn_reconnect_attempts := 0\<rparr>)"
    by (simp add: cn_core_def)
  finally have "channel_inv (on_connect g True st) = channel_inv (st\<lparr>cn_clients := (cn_clients st)[g := ?c], cn_reconnect_attempts := 0\<rparr>)"
    by (rule channel_inv_core)
  also have "\<dots> = channel_inv (st\<lparr>cn_clients := (cn_clients st)[g := ?c]\<rparr>)" by (simp add: channel_inv_def)
  finally show ?thesis using assms(4) live by blast
qed

lemma channel_inv_update:
  assumes "channel_inv st" "ws_live c \<or> cn_is_reconnecting st \<or> cn_shutdown st"
  shows "channel_inv (st\<lparr>cn_clients := (cn_clients st)[g := c]\<rparr>)"
  using assms unfolding channel_inv_def by (auto dest: set_update_subset_insert [THEN subsetD])

lemma complete_client_inv:
  assumes inv: "channel_inv st"
  shows "channel_inv (complete_client g ok st)"
proof (cases "length (cn_clients st) \<le> g \<or> ws_op (cn_clients st ! g) = None")
  case True
  then show ?thesis using inv by (auto simp: complete_client_def)
next
  case False
  then obtain op1 where g: "g < length (cn_clients st)" and op1: "ws_op (cn_clients st ! g) = Some op1" by auto
  obtain c cb where c: "ws_complete op1 ok (cn_clients st ! g) = (c, cb)" by fastforce
  let ?st = "st\<lparr>cn_clients := (cn_clients st)[g := c]\<rparr>"
  have res: "complete_client g ok st = run_callback_channel g cb ?st" using g op1 c by (simp add: complete_client_def)
  have len: "length (cn_clients ?st) = length (cn_groups ?st)" using inv by (simp add: channel_inv_def)
  have quiet: "cn_is_reconnecting ?st \<or> cn_shutdown ?st \<Longrightarrow> channel_inv ?st" using channel_inv_update [OF inv] by simp
  have timers: "\<not> cn_is_reconnecting ?st \<Longrightarrow> cn_reconnect_timers ?st = []" using inv by (auto simp: channel_inv_def)
  show ?thesis
  proof (cases cb)
    case CB_None
    have "ws_live c \<or> cn_is_reconnecting st \<or> cn_shutdown st"
      using inv g op1 c CB_None ws_complete_live [of "cn_clients st ! g" op1 ok c cb] by (auto simp: channel_inv_def)
    then show ?thesis unfolding res CB_None using channel_inv_update [OF inv] by simp
  next
    case (CB_Connect b)
    show ?thesis
    proof (cases b)
      case True
      have "channel_inv (?st\<lparr>cn_clients := (cn_clients ?st)[g := d]\<rparr>)" if "ws_live d" for d
        using channel_inv_update [OF inv, of d g] that by simp
      moreover have "ws_is_open (cn_clients ?st ! g)" using ws_complete_True c CB_Connect True g by simp
      ultimately show ?thesis unfolding res CB_Connect True run_callback_channel.simps
        using on_connect_True_inv [OF len, of g] g True by simp
    next
      case False
      then show ?thesis unfolding res CB_Connect run_callback_channel.simps
        using quiet timers ScheduleReconnect_inv [OF len] by (simp add: on_connect_def)
    qed
  next
    case CB_Disconnect
    then show ?thesis unfolding res using OnDisconnect_inv [OF len quiet timers] by simp
  qed
qed

lemma queue_inv [simp]: "channel_inv (st\<lparr>cn_queued := q\<rparr>) = channel_inv st"
  by (simp add: channel_inv_def)

lemma receive_message_inv: "channel_inv st \<Longrightarrow> channel_inv (receive_message g env data st)"
  by (auto simp: receive_message_def intro!: complete_client_inv split: option.splits)

lemma start_client_live: "ws_live (start_client a g)"
  by (simp add: start_client_def Let_def WsClient_Connect_def ws_live_def)

lemma Start_inv:
  assumes "cn_reconnect_timers st = []" "\<not> cn_is_reconnecting st"
    and "ea_build_subscribes (cn_adapter st) now_sec (cn_symbol st) (cn_depth_level st) \<noteq> []"
  shows "channel_inv (Start now_sec st)"
  using assms start_client_live by (auto simp: Start_def Let_def channel_inv_def)

text \<open>The adapter asks for something, whatever the time, the symbol and the depth.\<close>
definition subscribes_something :: "'n ExchangeAdapter \<Rightarrow> bool" where
  "subscribes_something a \<longleftrightarrow> (\<forall>now_sec symbol depth_level. ea_build_subscribes a now_sec symbol depth_level \<noteq> [])"


lemma reconnect_due_inv:
  assumes inv: "channel_inv st" and a: "subscribes_something (cn_adapter st)"
  shows "channel_inv (reconnect_due now_sec st)"
proof (cases "cn_reconnect_timers st")
  case Nil
  then show ?thesis using inv by (simp add: reconnect_due_def)
next
  case (Cons t ts)
  then have ts: "ts = []" using inv by (simp add: channel_inv_def)
  show ?thesis
  proof (cases "cn_shutdown st")
    case True
    then show ?thesis using inv Cons ts by (simp add: reconnect_due_def channel_inv_def)
  next
    case False
    then show ?thesis using Cons ts a Start_inv [of "st\<lparr>cn_reconnect_timers := [], cn_is_reconnecting := False\<rparr>" now_sec]
      by (simp add: reconnect_due_def subscribes_something_def)
  qed
qed

lemma timers_inv [simp]:
  "channel_inv (st\<lparr>cn_expired := e, cn_waiting := w\<rparr>) = channel_inv st" "channel_inv (st\<lparr>cn_expired := e\<rparr>) = channel_inv st"
  by (simp_all add: channel_inv_def)

lemma subscribe_due_inv: "channel_inv st \<Longrightarrow> channel_inv (subscribe_due st)"
  by (auto simp: subscribe_due_def Let_def channel_inv_core [OF write_message_core] split: list.splits)

lemma Stop_inv: "channel_inv st \<Longrightarrow> cn_shutdown st \<Longrightarrow> channel_inv (Stop st)"
  by (simp add: Stop_def channel_inv_def)

lemma channel_step_inv:
  assumes "channel_inv st" "subscribes_something (cn_adapter st)"
  shows "channel_inv (channel_step ev st)"
proof (cases ev)
  case ShutdownRequested
  then show ?thesis using assms by (simp add: channel_inv_def)
qed (use assms complete_client_inv receive_message_inv subscribe_due_inv reconnect_due_inv Stop_inv in auto)

lemma channel_step_adapter [simp]: "cn_adapter (channel_step ev st) = cn_adapter st"
  using channel_step_const [of ev st] by (simp add: cn_const_def)

lemma channel_run_inv:
  "channel_inv st \<Longrightarrow> subscribes_something (cn_adapter st) \<Longrightarrow>
   channel_inv (channel_run evs st) \<and> cn_adapter (channel_run evs st) = cn_adapter st"
  unfolding channel_run_def by (induction evs arbitrary: st) (simp_all add: channel_step_inv)

section \<open>Adapters with one connection\<close>

definition one_group :: "'n ExchangeAdapter \<Rightarrow> bool" where
  "one_group a \<longleftrightarrow> (\<forall>now_sec symbol depth_level. length (ea_build_subscribes a now_sec symbol depth_level) = 1)"

text \<open>While a reconnect is pending nothing is outstanding, so the next start abandons no operation.\<close>
definition one_client_inv :: "'n SymbolChannel \<Rightarrow> bool" where
  "one_client_inv st \<longleftrightarrow> length (cn_clients st) \<le> 1 \<and> cn_abandoned st = 0
     \<and> (cn_is_reconnecting st \<longrightarrow> (\<forall>c\<in>set (cn_clients st). ws_op c = None))"

lemma one_client_core: "cn_core st = cn_core st' \<Longrightarrow> one_client_inv st = one_client_inv st'"
proof -
  assume eq: "cn_core st = cn_core st'"
  have "(\<forall>c\<in>set cs. ws_op c = None) = (\<forall>x\<in>set (map ws_core cs). fst x = None)" for cs by (simp add: ws_core_def)
  then have "(\<forall>c\<in>set (cn_clients st). ws_op c = None) = (\<forall>c\<in>set (cn_clients st'). ws_op c = None)"
    by (simp only: cn_core_eqD(2) [OF eq])
  then show ?thesis unfolding one_client_inv_def by (simp only: cn_core_eqD [OF eq])
qed

lemma on_connect_True_one:
  assumes "length (cn_clients st) \<le> 1" "cn_abandoned st = 0" "\<not> cn_is_reconnecting st"
  shows "one_client_inv (on_connect g True st)"
  using assms cn_core_eqD [OF SendGroupSubscriptions_core [where st = "st\<lparr>cn_reconnect_attempts := 0,
      cn_clients := (cn_clients st)[g := SetDisconnectHandler (cn_clients st ! g)]\<rparr>"]]
  by (simp add: on_connect_def Let_def one_client_inv_def)

lemma complete_client_one:
  assumes inv: "one_client_inv st"
  shows "one_client_inv (complete_client g ok st)"
proof (cases "length (cn_clients st) \<le> g \<or> ws_op (cn_clients st ! g) = None")
  case True
  then show ?thesis using inv by (auto simp: complete_client_def)
next
  case False
  then obtain op1 where g: "g < length (cn_clients st)" and op1: "ws_op (cn_clients st ! g) = Some op1" by auto
  then have busy: "\<not> cn_is_reconnecting st" using inv nth_mem [OF g] by (auto simp: one_client_inv_def)
  obtain c cb where c: "ws_complete op1 ok (cn_clients st ! g) = (c, cb)" by fastforce
  have clients: "g = 0" "length (cn_clients st) = Suc 0" using inv g by (auto simp: one_client_inv_def)
  then have set1: "set ((cn_clients st)[g := c]) = {c}" by (cases "cn_clients st") simp_all
  let ?st = "st\<lparr>cn_clients := (cn_clients st)[g := c]\<rparr>"
  have res: "complete_client g ok st = run_callback_channel g cb ?st" using g op1 c by (simp add: complete_client_def)
  have done1: "cb \<noteq> CB_None \<Longrightarrow> ws_op c = None" using ws_complete_callback c by blast
  show ?thesis
  proof (cases cb)
    case CB_None
    then show ?thesis unfolding res using inv busy by (simp add: one_client_inv_def)
  next
    case (CB_Connect b)
    then have no_op: "ws_op c = None" using done1 by simp
    show ?thesis
    proof (cases b)
      case True
      then show ?thesis unfolding res CB_Connect using on_connect_True_one [of ?st g] inv busy by (simp add: one_client_inv_def)
    next
      case False
      then show ?thesis unfolding res CB_Connect using inv busy no_op set1
        by (simp add: one_client_inv_def on_connect_def ScheduleReconnect_def)
    qed
  next
    case CB_Disconnect
    then show ?thesis unfolding res using inv busy done1 set1
      by (simp add: one_client_inv_def OnDisconnect_def ScheduleReconnect_def)
  qed
qed

lemma one_client_fields [simp]:
  "one_client_inv (st\<lparr>cn_expired := e, cn_waiting := w\<rparr>) = one_client_inv st" "one_client_inv (st\<lparr>cn_expired := e\<rparr>) = one_client_inv st"
  "one_client_inv (st\<lparr>cn_queued := q\<rparr>) = one_client_inv st" "one_client_inv (st\<lparr>cn_shutdown := b\<rparr>) = one_client_inv st"
  "one_client_inv (st\<lparr>cn_reconnect_timers := ts\<rparr>) = one_client_inv st"
  by (simp_all add: one_client_inv_def)

lemma Start_one:
  assumes "one_group (cn_adapter st)" "cn_abandoned st = 0" "\<forall>c\<in>set (cn_clients st). ws_op c = None" "\<not> cn_is_reconnecting st"
  shows "one_client_inv (Start now_sec st)"
proof -
  have "length (ea_build_subscribes (cn_adapter st) now_sec (cn_symbol st) (cn_depth_level st)) = 1"
    using assms(1) by (simp add: one_group_def)
  then have "length (ea_build_subscribes (cn_adapter st) now_sec (cn_symbol st) (cn_depth_level st)) = 1"
    "ea_build_subscribes (cn_adapter st) now_sec (cn_symbol st) (cn_depth_level st) \<noteq> []" by auto
  then show ?thesis using assms(2-4) by (simp add: Start_def Let_def one_client_inv_def filter_empty_conv)
qed

lemma reconnect_due_one:
  assumes "one_client_inv st" "channel_inv st" "one_group (cn_adapter st)"
  shows "one_client_inv (reconnect_due now_sec st)"
proof (cases "cn_reconnect_timers st = [] \<or> cn_shutdown st")
  case True
  then show ?thesis using assms(1) by (auto simp: reconnect_due_def split: list.splits)
next
  case False
  then obtain t ts where ts: "cn_reconnect_timers st = t # ts" "\<not> cn_shutdown st" by (cases "cn_reconnect_timers st") auto
  then have "cn_is_reconnecting st" using assms(2) by (simp add: channel_inv_def)
  then have "one_client_inv (Start now_sec (st\<lparr>cn_reconnect_timers := ts, cn_is_reconnecting := False\<rparr>))"
    using assms(1,3) by (intro Start_one) (simp_all add: one_client_inv_def)
  then show ?thesis using ts by (simp add: reconnect_due_def)
qed

lemma channel_step_one:
  assumes "one_client_inv st" "channel_inv st" "one_group (cn_adapter st)"
  shows "one_client_inv (channel_step ev st)"
proof (cases ev)
  case (Received g env data)
  then show ?thesis using assms by (auto simp: receive_message_def intro!: complete_client_one split: option.splits)
next
  case SubscribeDue
  then show ?thesis using assms
    by (auto simp: subscribe_due_def Let_def one_client_core [OF write_message_core] split: list.splits)
next
  case StopCalled
  then show ?thesis using assms by (auto simp: Stop_def one_client_inv_def)
qed (use assms complete_client_one reconnect_due_one in auto)

lemma GetAdapter_subscribes:
  assumes "GetAdapter name ty = Some a"
  shows "subscribes_something a"
  unfolding subscribes_something_def
proof (intro allI notI)
  fix now_sec symbol depth_level
  assume "ea_build_subscribes a now_sec symbol depth_level = []"
  then show False
    using exchange_adapter.subscribes_all [OF GetAdapter_contract [OF assms], of now_sec symbol depth_level]
    by (simp add: group_events_def)
qed

lemma GetAdapter_one_group:
  "GetAdapter name ty = Some a \<Longrightarrow> (name = ''binance'' \<longrightarrow> ty = Spot) \<Longrightarrow> one_group a"
  by (auto simp: GetAdapter_def one_group_def adapter_defs subscribe_defs split: if_splits)

lemma started_inv:
  assumes "GetAdapter name ty = Some a"
  shows "channel_inv (Start now_sec (SymbolChannel_new a symbol depth_level channel_id shards))"
  using GetAdapter_subscribes [OF assms] by (intro Start_inv) (simp_all add: SymbolChannel_new_def subscribes_something_def)

lemma Start_adapter [simp]: "cn_adapter (Start now_sec st) = cn_adapter st"
  using Start_const [of now_sec st] by (simp add: cn_const_def)

lemma new_adapter [simp]: "cn_adapter (SymbolChannel_new a symbol depth_level channel_id shards) = a"
  by (simp add: SymbolChannel_new_def)

lemma channel_run_one:
  assumes "channel_inv st" "one_client_inv st" "one_group (cn_adapter st)" "subscribes_something (cn_adapter st)"
  shows "one_client_inv (channel_run evs st)"
  using assms unfolding channel_run_def by (induction evs arbitrary: st) (simp_all add: channel_step_inv channel_step_one)



lemma start_client_op [simp]: "ws_op (start_client a g) = Some Resolving"
  by (simp add: start_client_def Let_def WsClient_Connect_def)

lemma send_loop_delayed:
  "\<forall>m\<in>set ms. sm_delay_ms m \<noteq> 0 \<Longrightarrow> cn_clients (send_loop g i ms st) = cn_clients st"
  by (induction ms arbitrary: i st) simp_all

lemma SendGroup_fields [simp]:
  "cn_adapter (SendGroupSubscriptions g st) = cn_adapter st" "cn_is_reconnecting (SendGroupSubscriptions g st) = cn_is_reconnecting st"
  "cn_reconnect_timers (SendGroupSubscriptions g st) = cn_reconnect_timers st" "cn_shutdown (SendGroupSubscriptions g st) = cn_shutdown st"
  "cn_abandoned (SendGroupSubscriptions g st) = cn_abandoned st" "cn_groups (SendGroupSubscriptions g st) = cn_groups st"
  "cn_symbol (SendGroupSubscriptions g st) = cn_symbol st" "cn_depth_level (SendGroupSubscriptions g st) = cn_depth_level st"
  using cn_core_eqD [OF SendGroupSubscriptions_core [of g st]] by simp_all

text \<open>
  Binance perpetuals use two connections. When one cannot be established, the timer replaces both clients,
  although the other one is connected and waits for data: the handler of that read later runs on a
  destroyed client. (Every reconnect also destroys clients while the event loop runs, which their destructor
  names as a violated precondition.)
\<close>
theorem reconnect_destroys_reading_client:
  "cn_abandoned (channel_run [Completed 1 True, Completed 1 True, Completed 1 True, Completed 1 True, Completed 0 False, ReconnectDue 1]
     (Start 0 (SymbolChannel_new (kBinancePerpetualAdapter :: 'n ExchangeAdapter) symbol depth_level channel_id shards))) = 1"
proof -
  define a where "a = (kBinancePerpetualAdapter :: 'n ExchangeAdapter)"
  define g1 where "g1 = BinancePerpetualBuildSubscribes 0 symbol depth_level ! 1"
  obtain g0 where gs: "ea_build_subscribes a n symbol depth_level = [g0, g1]" for n
    unfolding a_def g1_def kBinancePerpetualAdapter_def by (simp add: BinancePerpetualBuildSubscribes_def Let_def)
  have d: "\<forall>m\<in>set (sg_messages g1). sm_delay_ms m \<noteq> 0"
    unfolding g1_def by (simp add: BinancePerpetualBuildSubscribes_def Let_def kDepthSubscribeDelayMs_def kBookTickerSubscribeDelayMs_def)
  have send: "cn_clients (SendGroupSubscriptions (Suc 0) st) = cn_clients st" if "cn_groups st = [g0, g1]" for st :: "'n SymbolChannel"
    using that send_loop_delayed [OF d] by (simp add: SendGroupSubscriptions_def)
  show ?thesis unfolding a_def [symmetric]
    by (simp add: channel_run_def Start_def SymbolChannel_new_def gs complete_client_def Let_def ws_handler_defs on_connect_def
        ScheduleReconnect_def send reconnect_due_def SetDisconnectHandler_def)
qed

section \<open>Messages\<close>

lemma allocate_cases:
  assumes "allocate padding alloc_ok n m = (b, m')"
  shows "b = (n + padding \<le> kInlineSize \<or> alloc_ok)"
    and "b \<Longrightarrow> length (rm_inline m) = kInlineSize \<Longrightarrow> n + padding \<le> length (rm_buffer m')"
    and "b \<Longrightarrow> rm_symbol m' = rm_symbol m \<and> rm_event_type m' = rm_event_type m"
  using assms by (auto simp: allocate_def Let_def rm_buffer_def split: if_splits)

lemma fill_buffer_buffer:
  "rm_buffer (fill_buffer data padding m) = data @ replicate padding NUL @ drop (length data + padding) (rm_buffer m)"
  by (simp add: fill_buffer_def rm_buffer_def Let_def split: option.splits)

lemma fill_buffer_other [simp]:
  "rm_symbol (fill_buffer data padding m) = rm_symbol m" "rm_event_type (fill_buffer data padding m) = rm_event_type m"
  by (simp_all add: fill_buffer_def Let_def split: option.splits)

lemma rm_buffer_updates [simp]:
  "rm_buffer (m\<lparr>rm_size := n\<rparr>) = rm_buffer m" "rm_buffer (m\<lparr>rm_channel_id := c\<rparr>) = rm_buffer m"
  "rm_buffer (m\<lparr>rm_recv_timestamp := t\<rparr>) = rm_buffer m" "rm_buffer (m\<lparr>rm_symbol := s\<rparr>) = rm_buffer m"
  "rm_buffer (m\<lparr>rm_parse_fn := f\<rparr>) = rm_buffer m" "rm_buffer (m\<lparr>rm_event_type := e\<rparr>) = rm_buffer m"
  by (simp_all add: rm_buffer_def split: option.split)

text \<open>The kind of event a message announces: that of an empty message unless the document can be read.\<close>
definition announced :: "'n msg_env \<Rightarrow> char list \<Rightarrow> 'n SymbolChannel \<Rightarrow> EventType" where
  "announced env data st =
     (case me_iterate env data of Some doc \<Rightarrow> ea_peek_event_type (cn_adapter st) (me_json env) doc | None \<Rightarrow> ET_TICK)"

lemma OnMessage_Some:
  fixes env :: "'n msg_env"
  assumes "OnMessage env data st = Some (shard, m)"
  shows "data \<noteq> []" "shard < cn_shards st" "rm_size m = length data" "take (rm_size m) (rm_buffer m) = data"
    "take (me_padding env) (drop (rm_size m) (rm_buffer m)) = replicate (me_padding env) NUL"
    "rm_channel_id m = cn_channel_id st" "rm_recv_timestamp m = me_now_ns env"
    "rm_symbol m = take 31 (cn_symbol st) @ drop (min (length (cn_symbol st)) 31) (replicate 32 NUL)"
    "rm_event_type m = announced env data st" "rm_event_type m \<noteq> ET_UNKNOWN"
    "rm_parse_fn m = Some (ea_parse (cn_adapter st) (me_json env))"
proof -
  obtain b and m0 :: "'n parse_fn RawMessage"
    where al: "allocate (me_padding env) (me_alloc_ok env) (length data) raw_message_zero = (b, m0)" by fastforce
  have b: b and ne: "data \<noteq> []" and sh: "0 < cn_shards st" using assms al by (auto simp: OnMessage_def split: if_splits bool.splits)
  note m0 = allocate_cases(3) [OF al b]
  define m1 where "m1 = (fill_buffer data (me_padding env) m0)\<lparr>rm_size := length data, rm_channel_id := cn_channel_id st,
      rm_recv_timestamp := me_now_ns env,
      rm_symbol := take (min (length (cn_symbol st)) 31) (cn_symbol st) @ drop (min (length (cn_symbol st)) 31) (rm_symbol m0),
      rm_parse_fn := Some (ea_parse (cn_adapter st) (me_json env))\<rparr>"
  have buf: "rm_buffer m1 = data @ replicate (me_padding env) NUL @ drop (length data + me_padding env) (rm_buffer m0)"
    by (simp add: m1_def fill_buffer_buffer)
  have et: "rm_event_type m1 = ET_TICK" using m0 by (simp add: m1_def raw_message_zero_def)
  let ?shard = "unat (ucast (cn_channel_id st) XOR me_hash env (ea_name (cn_adapter st))) mod cn_shards st"
  have "take (length data) (rm_buffer m1) = data" using buf by simp
  then have m2: "(case me_iterate env (take (length data) (rm_buffer m1)) of
      Some doc \<Rightarrow> m1\<lparr>rm_event_type := ea_peek_event_type (cn_adapter st) (me_json env) doc\<rparr> | None \<Rightarrow> m1)
    = m1\<lparr>rm_event_type := announced env data st\<rparr>" using et by (simp add: announced_def split: option.split)
  have "OnMessage env data st = (if announced env data st = ET_UNKNOWN then None
      else Some (?shard, m1\<lparr>rm_event_type := announced env data st\<rparr>))"
    using al b ne sh m2 by (simp only: OnMessage_def Let_def m1_def prod.case bool.case) simp
  then have m: "m = m1\<lparr>rm_event_type := announced env data st\<rparr>" and known: "announced env data st \<noteq> ET_UNKNOWN"
    and shard: "shard = ?shard" using assms by (auto split: if_splits)
  show "data \<noteq> []" "shard < cn_shards st" using ne sh shard by simp_all
  show "rm_size m = length data" "rm_channel_id m = cn_channel_id st" "rm_recv_timestamp m = me_now_ns env"
    "rm_parse_fn m = Some (ea_parse (cn_adapter st) (me_json env))" by (simp_all add: m m1_def)
  show "take (rm_size m) (rm_buffer m) = data" "take (me_padding env) (drop (rm_size m) (rm_buffer m)) = replicate (me_padding env) NUL"
    using buf by (simp_all add: m m1_def)
  show "rm_symbol m = take 31 (cn_symbol st) @ drop (min (length (cn_symbol st)) 31) (replicate 32 NUL)"
    using m0 by (simp add: m m1_def raw_message_zero_def min_def)
  show "rm_event_type m = announced env data st" "rm_event_type m \<noteq> ET_UNKNOWN" using known by (simp_all add: m)
qed

lemma OnMessage_queues:
  fixes env :: "'n msg_env"
  assumes "data \<noteq> []" "0 < cn_shards st" "me_alloc_ok env" "announced env data st \<noteq> ET_UNKNOWN"
  shows "OnMessage env data st \<noteq> None"
proof -
  obtain b and m0 :: "'n parse_fn RawMessage"
    where al: "allocate (me_padding env) (me_alloc_ok env) (length data) raw_message_zero = (b, m0)" by fastforce
  then have b using allocate_cases(1) [OF al] assms(3) by simp
  then show ?thesis using assms al allocate_cases(3) [OF al]
    by (auto simp: OnMessage_def Let_def announced_def fill_buffer_buffer raw_message_zero_def split: option.splits if_splits)
qed

lemma OnMessage_symbol:
  assumes "OnMessage env data st = Some (shard, m)" "NUL \<notin> set (cn_symbol st)"
  shows "c_str (rm_symbol m) = take 31 (cn_symbol st)"
proof -
  have "drop (min (length (cn_symbol st)) 31) (replicate 32 NUL) = NUL # replicate (31 - min (length (cn_symbol st)) 31) NUL"
    by (simp add: Suc_diff_le flip: replicate_Suc)
  then show ?thesis unfolding OnMessage_Some(8) [OF assms(1)]
    using assms(2) by (simp, intro c_str_append_NUL) (auto dest: in_set_takeD)
qed


definition sample_msg_env :: "json msg_env" where
  "sample_msg_env = \<lparr>me_json = sample_json_env, me_iterate = (\<lambda>_. Some sample_trade), me_padding = 2, me_alloc_ok = True,
     me_hash = (\<lambda>_. 5), me_now_ns = 4\<rparr>"


end
