(* ===== verification/Rithmic_Process.thy ===== *)
theory Rithmic_Process
  imports Rithmic_Shm Storage_Router Config
begin

text \<open>
  The life cycle of the gateway process
  (\<open>src/exchange/rithmic/rithmic_process_manager.cpp\<close> and \<open>src/exchange/exchange_factory.cpp\<close>): the
  registration of the futures channels, spawning, the health check of the monitor thread, shutdown
  and destruction. The operating system is a table of child processes; which children have exited
  and which process ids other programs hold at each system call is an arbitrary argument. Sections
  under \<open>child_mtx_\<close> are atomic; the step relation interleaves the monitor thread with \<open>Shutdown\<close>
  and the destructor.
\<close>

section \<open>Registration of the futures channels\<close>

definition enabled_futures :: "ExchangeConfig \<Rightarrow> (string \<times> SymbolConfig) list" where
  "enabled_futures ex = concat (map (\<lambda>ch.
     if ch_type ch \<noteq> ''futures'' then [] else map (Pair (ex_name ex)) (filter sym_enabled (ch_symbols ch))) (ex_channels ex))"

definition rithmic_symbols :: "ExchangeConfig list \<Rightarrow> (string \<times> SymbolConfig) list" where
  "rithmic_symbols exs = concat (map (\<lambda>ex.
     if \<not> ex_enabled ex \<or> \<not> list_ex (\<lambda>ch. ch_type ch = ''futures'') (ex_channels ex) then []
     else enabled_futures ex) exs)"

definition futures_info :: "string \<Rightarrow> SymbolConfig \<Rightarrow> ChannelInfo" where
  "futures_info exchange sy = \<lparr>ci_id = 0, ci_exchange = exchange, ci_type = Futures, ci_symbol = sym_name sy,
     ci_depth_level = sym_depth_level sy, ci_topic_prefix = ''''\<rparr>"

text \<open>
  A collision ends the loop and keeps what was registered (the exception is caught and logged).
  \<open>None\<close>: a storage backend whose registry is frozen fails its assertion.
\<close>
fun register_loop ::
  "('v, 's) router_env \<Rightarrow> (string \<times> SymbolConfig) list \<Rightarrow> ChannelRegistry \<times> RithmicChannelMap \<times> 's StorageRouter \<Rightarrow>
   (ChannelRegistry \<times> RithmicChannelMap \<times> 's StorageRouter) option" where
  "register_loop env [] st = Some st"
| "register_loop env ((ex, sy) # rest) (reg, cm, r) =
     (case ChannelRegistry_Register (futures_info ex sy) reg of
        Inl _ \<Rightarrow> Some (reg, cm, r)
      | Inr (cid, reg1) \<Rightarrow>
          (case StorageRouter_RegisterChannel env cid (futures_info ex sy) (sym_persist_to_disk sy) r of
             None \<Rightarrow> None
           | Some r1 \<Rightarrow> register_loop env rest
               (reg1, RithmicChannelMap_Register ex (sym_name sy) cid (sym_enabled sy) cm, r1)))"

definition RegisterChannels where
  "RegisterChannels env exs reg r = register_loop env (rithmic_symbols exs) (reg, RithmicChannelMap_new, r)"

text \<open>The table the gateway process builds for itself (\<open>src/rithmic_gateway/main.cpp\<close>).\<close>
definition gateway_symbols :: "ExchangeConfig list \<Rightarrow> (string \<times> SymbolConfig) list" where
  "gateway_symbols exs = concat (map (\<lambda>ex. if \<not> ex_enabled ex then [] else enabled_futures ex) exs)"

definition gateway_channel_map :: "ExchangeConfig list \<Rightarrow> RithmicChannelMap" where
  "gateway_channel_map exs = fold (\<lambda>(ex, sy).
     RithmicChannelMap_Register ex (sym_name sy) (ComputeChannelId ex ''futures'' (sym_name sy)) (sym_enabled sy))
     (gateway_symbols exs) RithmicChannelMap_new"

lemma gateway_symbols_eq: "rithmic_symbols exs = gateway_symbols exs"
proof -
  have "enabled_futures ex = []" if "\<not> list_ex (\<lambda>ch. ch_type ch = ''futures'') (ex_channels ex)" for ex
    using that by (auto simp: enabled_futures_def list_ex_iff)
  then show ?thesis unfolding rithmic_symbols_def gateway_symbols_def by (metis (no_types, lifting))
qed

definition map_futures :: "(string \<times> SymbolConfig) list \<Rightarrow> RithmicChannelMap \<Rightarrow> RithmicChannelMap" where
  "map_futures = fold (\<lambda>(ex, sy).
     RithmicChannelMap_Register ex (sym_name sy) (ComputeChannelId ex ''futures'' (sym_name sy)) (sym_enabled sy))"

lemma map_futures_parts:
  "length (rcm_sub_list (map_futures syms cm)) = length (rcm_sub_list cm) + length syms"
  "rcm_registered_ids (map_futures syms cm) =
     rcm_registered_ids cm \<union> (\<lambda>(ex, sy). ComputeChannelId ex ''futures'' (sym_name sy)) ` set syms"
  by (induction syms arbitrary: cm) (auto simp: map_futures_def RithmicChannelMap_Register_def)

lemma futures_key: "channel_key (futures_info ex sy) = ComputeChannelId ex ''futures'' (sym_name sy)"
  "channel_ident (futures_info ex sy) = (ex, Futures, sym_name sy)"
  by (simp_all add: channel_key_def channel_ident_def futures_info_def)

lemma register_loop_prefix:
  "register_loop env syms (reg, cm, r) = Some (reg', cm', r') \<Longrightarrow>
     (\<exists>k \<le> length syms. cm' = map_futures (take k syms) cm
        \<and> (\<forall>(ex, sy) \<in> set (take k syms). look_channel reg' (channel_key (futures_info ex sy)) = Some (ex, Futures, sym_name sy)))
     \<and> (\<forall>c v. look_channel reg c = Some v \<longrightarrow> look_channel reg' c = Some v)"
proof (induction syms arbitrary: reg cm r)
  case (Cons x syms)
  obtain ex sy where x: "x = (ex, sy)" by fastforce
  show ?case
  proof (cases "ChannelRegistry_Register (futures_info ex sy) reg")
    case (Inl e)
    then show ?thesis using Cons.prems x by (auto intro!: exI [of _ 0] simp: map_futures_def)
  next
    case (Inr p)
    then obtain cid reg1 where p: "ChannelRegistry_Register (futures_info ex sy) reg = Inr (cid, reg1)" by (cases p) auto
    then have cid: "cid = channel_key (futures_info ex sy)" and reg: "reg_channel (futures_info ex sy) reg = Some reg1"
      using Register_result [OF p] unfolding reg_channel_Some by auto
    let ?cm = "RithmicChannelMap_Register ex (sym_name sy) cid (sym_enabled sy) cm"
    obtain r1 where r1: "register_loop env syms (reg1, ?cm, r1) = Some (reg', cm', r')"
      using Cons.prems x p by (auto split: option.splits)
    obtain k where k: "k \<le> length syms" "cm' = map_futures (take k syms) ?cm"
      "\<forall>(ex, sy) \<in> set (take k syms). look_channel reg' (channel_key (futures_info ex sy)) = Some (ex, Futures, sym_name sy)"
      and keep: "\<forall>c v. look_channel reg1 c = Some v \<longrightarrow> look_channel reg' c = Some v"
      using Cons.IH [OF r1] by blast
    have "look_channel reg' cid = Some (ex, Futures, sym_name sy)"
      using keep routing.reg_same [OF reg] cid by (simp add: futures_key(2))
    then have new: "cm' = map_futures (take (Suc k) (x # syms)) cm"
      "\<forall>(ex, sy) \<in> set (take (Suc k) (x # syms)). look_channel reg' (channel_key (futures_info ex sy)) = Some (ex, Futures, sym_name sy)"
      using k(2,3) x cid by (simp_all add: map_futures_def futures_key(1))
    have "\<forall>c v. look_channel reg c = Some v \<longrightarrow> look_channel reg' c = Some v"
      using keep routing.reg_keeps [OF reg] by blast
    then show ?thesis by (intro conjI exI [of _ "Suc k"] new) (simp_all only: length_Cons Suc_le_mono k(1))
  qed
qed (auto simp: map_futures_def)

text \<open>
  C38: The collector and the gateway process agree on the channels although each builds its own table:
  when the collector has registered all enabled futures symbols, its table equals the one the gateway
  builds from the same configuration, and every id the gateway puts into an event is found in the
  collector's registry with the exchange and symbol it stands for.
\<close>
theorem gateway_ids_resolve:
  assumes "RegisterChannels env exs reg r = Some (reg', cm, r')"
    "length (rcm_sub_list cm) = length (gateway_symbols exs)"
  shows "cm = gateway_channel_map exs
    \<and> (\<forall>(ex, sy) \<in> set (gateway_symbols exs). \<exists>info.
         ChannelRegistry_Lookup reg' (RithmicChannelMap_Lookup (gateway_channel_map exs) ex (sym_name sy)) = Some info
         \<and> ci_exchange info = ex \<and> ci_type info = Futures \<and> ci_symbol info = sym_name sy)"
proof -
  let ?g = "gateway_symbols exs"
  have l: "register_loop env ?g (reg, RithmicChannelMap_new, r) = Some (reg', cm, r')"
    using assms(1) by (simp add: RegisterChannels_def gateway_symbols_eq)
  then obtain k where k: "k \<le> length ?g" "cm = map_futures (take k ?g) RithmicChannelMap_new"
    "\<forall>(ex, sy) \<in> set (take k ?g). look_channel reg' (channel_key (futures_info ex sy)) = Some (ex, Futures, sym_name sy)"
    using register_loop_prefix [OF l] by blast
  have "k = length ?g" using assms(2) k(1) unfolding k(2) map_futures_parts(1) by (simp add: RithmicChannelMap_new_def)
  then have g: "cm = gateway_channel_map exs" using k(2) by (simp add: gateway_channel_map_def map_futures_def)
  have "RithmicChannelMap_Lookup cm ex (sym_name sy) = channel_key (futures_info ex sy)" if "(ex, sy) \<in> set ?g" for ex sy
    using that \<open>k = length ?g\<close> unfolding k(2) RithmicChannelMap_Lookup_def map_futures_parts(2) futures_key(1) by (force simp: Let_def)
  then show ?thesis using k(3) \<open>k = length ?g\<close> unfolding g [symmetric]
    by (fastforce simp: look_channel_def channel_ident_def)
qed

definition sample_exchanges :: "ExchangeConfig list" where
  "sample_exchanges = [\<lparr>ex_name = ''CME'', ex_enabled = True, ex_channels =
     [\<lparr>ch_type = ''futures'', ch_symbols =
        [default_symbol\<lparr>sym_name := ''ES'', sym_enabled := True, sym_persist_to_disk := False\<rparr>,
         default_symbol\<lparr>sym_name := ''NQ'', sym_enabled := False\<rparr>]\<rparr>]\<rparr>]"

theorem gateway_ids_resolve_witness:
  "\<exists>reg' r' info. RegisterChannels sample_router_env sample_exchanges Map.empty
       (StorageRouter_new sample_router_env (True, True) Map.empty Map.empty default_storage) = Some (reg', gateway_channel_map sample_exchanges, r')
     \<and> ChannelRegistry_Lookup reg' (RithmicChannelMap_Lookup (gateway_channel_map sample_exchanges) ''CME'' ''ES'') = Some info
     \<and> ci_symbol info = ''ES''"
proof -
  let ?r = "StorageRouter_new sample_router_env (True, True) Map.empty Map.empty default_storage"
  let ?es = "default_symbol\<lparr>sym_name := ''ES'', sym_enabled := True, sym_persist_to_disk := False\<rparr>"
  have g: "gateway_symbols sample_exchanges = [(''CME'', ?es)]"
    by (simp add: gateway_symbols_def enabled_futures_def sample_exchanges_def)
  obtain reg' cm where r: "RegisterChannels sample_router_env sample_exchanges Map.empty ?r = Some (reg', cm, ?r)"
    "length (rcm_sub_list cm) = 1"
    by (simp add: RegisterChannels_def gateway_symbols_eq g ChannelRegistry_Register_def StorageRouter_RegisterChannel_def
        RithmicChannelMap_Register_def RithmicChannelMap_new_def Let_def)
  then show ?thesis using gateway_ids_resolve [OF r(1)] by (auto simp: g)
qed

section \<open>Processes\<close>

datatype proc_state = PRunning | PZombie

datatype signo = SIG0 | SIGTERM | SIGKILL

text \<open>
  The children that have not been reaped, the process ids other programs hold, the number of system
  calls so far, and the signals delivered to a process that is not a child (\<open>po_strays\<close>).
\<close>
record proc_os =
  po_kids :: "int \<rightharpoonup> proc_state"
  po_foreign :: "int set"
  po_calls :: nat
  po_strays :: "(int \<times> signo) list"

text \<open>
  The environment: the children that have exited, the ids held by other programs and the id the
  kernel offers for a new process, each at the n-th system call.
\<close>
record proc_env =
  pv_exited :: "nat \<Rightarrow> int set"
  pv_foreign :: "nat \<Rightarrow> int set"
  pv_spawn :: "nat \<Rightarrow> int option"

text \<open>What has happened outside by the time of the next system call.\<close>
definition settle :: "proc_env \<Rightarrow> proc_os \<Rightarrow> proc_os" where
  "settle env os = os\<lparr>
     po_kids := (\<lambda>p. map_option (\<lambda>st. if p \<in> pv_exited env (po_calls os) then PZombie else st) (po_kids os p)),
     po_foreign := pv_foreign env (po_calls os) - dom (po_kids os),
     po_calls := po_calls os + 1\<rparr>"

text \<open>\<open>kill\<close>: true when the signal was sent. A signal to a non-positive id goes to a process group.\<close>
definition os_kill :: "proc_env \<Rightarrow> int \<Rightarrow> signo \<Rightarrow> proc_os \<Rightarrow> bool \<times> proc_os" where
  "os_kill env pid sig os0 =
     (let os = settle env os0
      in if po_kids os pid \<noteq> None then
           (True, if sig = SIGKILL then os\<lparr>po_kids := (po_kids os)(pid \<mapsto> PZombie)\<rparr> else os)
         else if pid \<in> po_foreign os \<or> pid \<le> 0 then
           (True, if sig = SIG0 then os else os\<lparr>po_strays := po_strays os @ [(pid, sig)]\<rparr>)
         else (False, os))"

text \<open>\<open>waitpid\<close> with \<open>WNOHANG\<close>: the id of a reaped child, 0 while it runs, -1 when there is no such child.\<close>
definition waitpid_nohang :: "proc_env \<Rightarrow> int \<Rightarrow> proc_os \<Rightarrow> int \<times> proc_os" where
  "waitpid_nohang env pid os0 =
     (let os = settle env os0
      in case po_kids os pid of
           Some PZombie \<Rightarrow> (pid, os\<lparr>po_kids := (po_kids os)(pid := None)\<rparr>)
         | Some PRunning \<Rightarrow> (0, os)
         | None \<Rightarrow> (- 1, os))"

text \<open>Blocking \<open>waitpid\<close>: \<open>None\<close> when the child still runs, so that the call does not return now.\<close>
definition waitpid :: "proc_env \<Rightarrow> int \<Rightarrow> proc_os \<Rightarrow> proc_os option" where
  "waitpid env pid os0 = (case waitpid_nohang env pid os0 of (r, os) \<Rightarrow> if r = 0 then None else Some os)"

text \<open>\<open>posix_spawn\<close>: the kernel gives out positive ids that no process has.\<close>
definition posix_spawn :: "proc_env \<Rightarrow> proc_os \<Rightarrow> int option \<times> proc_os" where
  "posix_spawn env os0 =
     (let os = settle env os0
      in case pv_spawn env (po_calls os0) of
           Some pid \<Rightarrow>
             if 0 < pid \<and> pid \<notin> dom (po_kids os) \<union> po_foreign os
             then (Some pid, os\<lparr>po_kids := (po_kids os)(pid \<mapsto> PRunning)\<rparr>) else (None, os)
         | None \<Rightarrow> (None, os))"

section \<open>The process manager\<close>

record proc_config =
  pc_shm_name :: string
  pc_config_path :: string
  pc_engine_core :: u32
  pc_forwarder_core :: u32
  pc_heartbeat_timeout_sec :: u32
  pc_max_restarts_per_min :: u32
  pc_cpu_affinity :: bool

definition default_proc_config :: proc_config where
  "default_proc_config = \<lparr>pc_shm_name = ''/sqc_rithmic'', pc_config_path = ''config/config.yaml'', pc_engine_core = 8,
     pc_forwarder_core = 9, pc_heartbeat_timeout_sec = 10, pc_max_restarts_per_min = 10, pc_cpu_affinity = True\<rparr>"

text \<open>The members of \<open>RithmicProcessManager\<close> that change; \<open>steady_clock\<close> time points are in nanoseconds.\<close>
record RithmicProcessManager =
  pm_config :: proc_config
  pm_child_pid :: int
  pm_last_restart :: int
  pm_restart_count :: u32
  pm_monitor_running :: bool

definition RithmicProcessManager_new :: "proc_config \<Rightarrow> int \<Rightarrow> RithmicProcessManager" where
  "RithmicProcessManager_new config now = \<lparr>pm_config = config, pm_child_pid = - 1, pm_last_restart = now,
     pm_restart_count = 0, pm_monitor_running = False\<rparr>"

type_synonym pm_state = "RithmicProcessManager \<times> proc_os"

definition SpawnChild :: "proc_env \<Rightarrow> pm_state \<Rightarrow> bool \<times> pm_state" where
  "SpawnChild env = (\<lambda>(pm, os).
     case posix_spawn env os of
       (Some pid, os1) \<Rightarrow> (True, pm\<lparr>pm_child_pid := pid\<rparr>, os1)
     | (None, os1) \<Rightarrow> (False, pm\<lparr>pm_child_pid := - 1\<rparr>, os1))"

text \<open>SIGKILL, then the blocking wait.\<close>
definition kill_and_reap :: "proc_env \<Rightarrow> int \<Rightarrow> proc_os \<Rightarrow> proc_os option" where
  "kill_and_reap env pid os = waitpid env pid (snd (os_kill env pid SIGKILL os))"

subsection \<open>CheckHealth\<close>

text \<open>The liveness probe under the lock.\<close>
definition probe_child :: "proc_env \<Rightarrow> pm_state \<Rightarrow> bool \<times> pm_state" where
  "probe_child env = (\<lambda>(pm, os).
     if 0 < pm_child_pid pm then
       (case waitpid_nohang env (pm_child_pid pm) os of
          (r, os1) \<Rightarrow> if r = pm_child_pid pm then (False, pm\<lparr>pm_child_pid := - 1\<rparr>, os1)
                     else if r = 0 then (True, pm, os1)
                     else (False, pm\<lparr>pm_child_pid := - 1\<rparr>, os1))
     else (False, pm, os))"

definition heartbeat_stale :: "proc_config \<Rightarrow> u64 \<Rightarrow> u64 \<Rightarrow> bool" where
  "heartbeat_stale config now_ns last_hb \<longleftrightarrow>
     0 < last_hb \<and> ucast (pc_heartbeat_timeout_sec config) < (now_ns - last_hb) div 1000000000"

text \<open>The kill after a heartbeat timeout, under the lock.\<close>
definition kill_stale :: "proc_env \<Rightarrow> pm_state \<Rightarrow> pm_state option" where
  "kill_stale env = (\<lambda>(pm, os).
     if 0 < pm_child_pid pm
     then map_option (Pair (pm\<lparr>pm_child_pid := - 1\<rparr>)) (kill_and_reap env (pm_child_pid pm) os)
     else Some (pm, os))"

text \<open>The rate limit: true when a restart may go ahead.\<close>
definition rate_limit :: "int \<Rightarrow> RithmicProcessManager \<Rightarrow> bool \<times> RithmicProcessManager" where
  "rate_limit now pm =
     (if (now - pm_last_restart pm) div 1000000000 < 60 then
        let count = pm_restart_count pm + 1
        in if pc_max_restarts_per_min (pm_config pm) < count
           then (False, pm\<lparr>pm_restart_count := count, pm_monitor_running := False\<rparr>)
           else (True, pm\<lparr>pm_restart_count := count, pm_last_restart := now\<rparr>)
      else (True, pm\<lparr>pm_restart_count := 0, pm_last_restart := now\<rparr>))"

text \<open>The restart under the lock.\<close>
definition respawn :: "proc_env \<Rightarrow> pm_state \<Rightarrow> bool \<times> pm_state" where
  "respawn env = (\<lambda>(pm, os).
     if 0 < pm_child_pid pm
     then SpawnChild env (pm\<lparr>pm_child_pid := - 1\<rparr>, snd (waitpid_nohang env (pm_child_pid pm) os))
     else SpawnChild env (pm, os))"

definition restart :: "proc_env \<Rightarrow> int \<Rightarrow> pm_state \<Rightarrow> bool \<times> pm_state" where
  "restart env now = (\<lambda>(pm, os).
     case rate_limit now pm of
       (False, pm1) \<Rightarrow> (False, pm1, os)
     | (True, pm1) \<Rightarrow> respawn env (pm1, os))"

text \<open>\<open>last_hb\<close> is the heartbeat in the shared header. \<open>None\<close>: the wait for the killed child does not return.\<close>
definition CheckHealth :: "proc_env \<Rightarrow> u64 \<Rightarrow> u64 \<Rightarrow> int \<Rightarrow> pm_state \<Rightarrow> (bool \<times> pm_state) option" where
  "CheckHealth env last_hb now_ns now st0 =
     (case probe_child env st0 of
        (True, st) \<Rightarrow>
          if heartbeat_stale (pm_config (fst st)) now_ns last_hb
          then map_option (restart env now) (kill_stale env st)
          else Some (True, st)
      | (False, st) \<Rightarrow> Some (restart env now st))"

subsection \<open>Shutdown and destruction\<close>

primrec wait_loop :: "proc_env \<Rightarrow> int \<Rightarrow> nat \<Rightarrow> proc_os \<Rightarrow> proc_os" where
  "wait_loop env pid 0 os = os"
| "wait_loop env pid (Suc n) os =
     (case waitpid_nohang env pid os of (r, os1) \<Rightarrow> if r = pid then os1 else wait_loop env pid n os1)"

text \<open>The section of \<open>Shutdown\<close> under the lock.\<close>
definition shutdown_child :: "proc_env \<Rightarrow> pm_state \<Rightarrow> pm_state option" where
  "shutdown_child env = (\<lambda>(pm, os).
     let pid = pm_child_pid pm
     in if 0 < pid then
          (let os1 = wait_loop env pid 50 (snd (os_kill env pid SIGTERM os));
               (there, os2) = os_kill env pid SIG0 os1
           in map_option (Pair (pm\<lparr>pm_child_pid := - 1\<rparr>))
                (if there then kill_and_reap env pid os2 else Some os2))
        else Some (pm, os))"

text \<open>The section of the destructor under the lock.\<close>
definition destroy_child :: "proc_env \<Rightarrow> pm_state \<Rightarrow> pm_state option" where
  "destroy_child env = (\<lambda>(pm, os).
     if 0 < pm_child_pid pm
     then map_option (Pair (pm\<lparr>pm_child_pid := - 1\<rparr>)) (kill_and_reap env (pm_child_pid pm) os)
     else Some (pm, os))"

section \<open>Interleaving of the monitor thread with shutdown\<close>

datatype monitor_pc = MonTop | MonProbe | MonAlive | MonDead | MonSpawn | MonExited

datatype main_pc = MainRunning | MainStopping | MainKilled | MainJoined | MainDestroyed

record pm_sys =
  py_pm :: RithmicProcessManager
  py_os :: proc_os
  py_mon :: monitor_pc
  py_main :: main_pc

text \<open>
  The monitor loop takes the sections of \<open>CheckHealth\<close> one at a time. \<open>Shutdown\<close> clears the flag, kills
  the child under the lock and joins the monitor; the destructor clears the flag, joins and kills.
  The clock and the heartbeat are arbitrary at every reading.
\<close>
inductive pm_step :: "proc_env \<Rightarrow> pm_sys \<Rightarrow> pm_sys \<Rightarrow> bool" for env where
  loop: "py_mon s = MonTop \<Longrightarrow> pm_monitor_running (py_pm s) \<Longrightarrow> pm_step env s (s\<lparr>py_mon := MonProbe\<rparr>)"
| leave: "py_mon s = MonTop \<Longrightarrow> \<not> pm_monitor_running (py_pm s) \<Longrightarrow> pm_step env s (s\<lparr>py_mon := MonExited\<rparr>)"
| probe: "py_mon s = MonProbe \<Longrightarrow> probe_child env (py_pm s, py_os s) = (alive, pm', os') \<Longrightarrow>
    pm_step env s (s\<lparr>py_pm := pm', py_os := os', py_mon := if alive then MonAlive else MonDead\<rparr>)"
| healthy: "py_mon s = MonAlive \<Longrightarrow> \<not> heartbeat_stale (pm_config (py_pm s)) now_ns last_hb \<Longrightarrow>
    pm_step env s (s\<lparr>py_mon := MonTop\<rparr>)"
| stale: "py_mon s = MonAlive \<Longrightarrow> heartbeat_stale (pm_config (py_pm s)) now_ns last_hb \<Longrightarrow>
    kill_stale env (py_pm s, py_os s) = Some (pm', os') \<Longrightarrow>
    pm_step env s (s\<lparr>py_pm := pm', py_os := os', py_mon := MonDead\<rparr>)"
| limit: "py_mon s = MonDead \<Longrightarrow> rate_limit now (py_pm s) = (go, pm') \<Longrightarrow>
    pm_step env s (s\<lparr>py_pm := pm', py_mon := if go then MonSpawn else MonTop\<rparr>)"
| spawn: "py_mon s = MonSpawn \<Longrightarrow> respawn env (py_pm s, py_os s) = (r, pm', os') \<Longrightarrow>
    pm_step env s (s\<lparr>py_pm := pm', py_os := os', py_mon := MonTop\<rparr>)"
| stop: "py_main s = MainRunning \<Longrightarrow>
    pm_step env s (s\<lparr>py_pm := (py_pm s)\<lparr>pm_monitor_running := False\<rparr>, py_main := MainStopping\<rparr>)"
| kill: "py_main s = MainStopping \<Longrightarrow> shutdown_child env (py_pm s, py_os s) = Some (pm', os') \<Longrightarrow>
    pm_step env s (s\<lparr>py_pm := pm', py_os := os', py_main := MainKilled\<rparr>)"
| join: "py_main s = MainStopping \<or> py_main s = MainKilled \<Longrightarrow> py_mon s = MonExited \<Longrightarrow>
    pm_step env s (s\<lparr>py_main := MainJoined\<rparr>)"
| destroy: "py_main s = MainJoined \<Longrightarrow> destroy_child env (py_pm s, py_os s) = Some (pm', os') \<Longrightarrow>
    pm_step env s (s\<lparr>py_pm := pm', py_os := os', py_main := MainDestroyed\<rparr>)"

inductive pm_reach :: "proc_env \<Rightarrow> pm_sys \<Rightarrow> bool" for env where
  started: "SpawnChild env (RithmicProcessManager_new config now, \<lparr>po_kids = Map.empty, po_foreign = {}, po_calls = 0, po_strays = []\<rparr>)
      = (True, pm, os) \<Longrightarrow>
    pm_reach env \<lparr>py_pm = pm\<lparr>pm_monitor_running := True\<rparr>, py_os = os, py_mon = MonTop, py_main = MainRunning\<rparr>"
| step: "pm_reach env s \<Longrightarrow> pm_step env s s' \<Longrightarrow> pm_reach env s'"

section \<open>The table of children\<close>

text \<open>The one child there may be is the one the manager knows.\<close>
definition owns :: "int \<Rightarrow> proc_os \<Rightarrow> bool" where
  "owns pid os \<longleftrightarrow> dom (po_kids os) = (if 0 < pid then {pid} else {})"

definition strays_ok :: "proc_env \<Rightarrow> proc_os \<Rightarrow> bool" where
  "strays_ok env os \<longleftrightarrow> (\<forall>(p, sig) \<in> set (po_strays os). sig = SIGKILL \<and> 0 < p \<and> (\<exists>n. p \<in> pv_foreign env n))"

lemma settle_simps [simp]:
  "dom (po_kids (settle env os)) = dom (po_kids os)" "po_strays (settle env os) = po_strays os"
  "po_kids os p = Some PZombie \<Longrightarrow> po_kids (settle env os) p = Some PZombie"
  "po_kids (settle env os) p = None \<longleftrightarrow> po_kids os p = None"
  "po_kids os p = None \<Longrightarrow> po_kids (settle env os) p = None"
  "(\<exists>st. po_kids (settle env os) p = Some st) \<longleftrightarrow> (\<exists>st. po_kids os p = Some st)"
  by (auto simp: settle_def dom_def)

lemma settle_foreign: "p \<in> po_foreign (settle env os) \<Longrightarrow> \<exists>n. p \<in> pv_foreign env n"
  by (auto simp: settle_def)

lemma waitpid_nohang_dom:
  assumes "waitpid_nohang env pid os = (r, os')" "0 < pid"
  shows "dom (po_kids os') = (if r = pid then dom (po_kids os) - {pid} else dom (po_kids os))
    \<and> po_strays os' = po_strays os \<and> (r = - 1 \<longleftrightarrow> pid \<notin> dom (po_kids os)) \<and> r \<in> {pid, 0, - 1}"
proof (cases "po_kids (settle env os) pid")
  case None
  then have "r = - 1" "os' = settle env os" "pid \<notin> dom (po_kids os)"
    using assms by (simp_all add: waitpid_nohang_def Let_def domIff)
  then show ?thesis using assms(2) by simp
next
  case (Some st)
  then have "pid \<in> dom (po_kids os)" using settle_simps(1) [of env os] by blast
  moreover have "r = (if st = PZombie then pid else 0)"
    "os' = (if st = PZombie then (settle env os)\<lparr>po_kids := (po_kids (settle env os))(pid := None)\<rparr> else settle env os)"
    using assms(1) Some by (cases st; simp add: waitpid_nohang_def Let_def)+
  ultimately show ?thesis using assms(2) by (cases st) simp_all
qed

lemma kill_and_reap_child:
  assumes "pid \<in> dom (po_kids os)" "0 < pid"
  shows "\<exists>os'. kill_and_reap env pid os = Some os' \<and> dom (po_kids os') = dom (po_kids os) - {pid} \<and> po_strays os' = po_strays os"
proof -
  let ?os = "snd (os_kill env pid SIGKILL os)"
  have k: "po_kids ?os pid = Some PZombie" "dom (po_kids ?os) = dom (po_kids os)" "po_strays ?os = po_strays os"
    using assms(1) by (auto simp: os_kill_def Let_def domIff)
  have "dom ((po_kids (settle env ?os))(pid := None)) = dom (po_kids os) - {pid}" using k(2) by simp
  then show ?thesis using k assms(2) by (simp add: kill_and_reap_def waitpid_def waitpid_nohang_def Let_def)
qed

lemma os_kill_SIG0:
  "os_kill env pid SIG0 os = (pid \<in> dom (po_kids os) \<or> pid \<in> po_foreign (settle env os) \<or> pid \<le> 0, settle env os)"
  by (simp add: os_kill_def Let_def domIff)

lemma kill_and_reap_stray:
  assumes "pid \<notin> dom (po_kids os)" "0 < pid" "strays_ok env os"
  shows "\<exists>os'. kill_and_reap env pid os = Some os' \<and> dom (po_kids os') = dom (po_kids os) \<and> strays_ok env os'"
proof -
  let ?os = "snd (os_kill env pid SIGKILL os)"
  have n: "po_kids os pid = None" using assms(1) by (simp add: domIff)
  have k: "dom (po_kids ?os) = dom (po_kids os)" "strays_ok env ?os"
    using n assms(2,3) settle_foreign [of pid env os] by (auto simp: os_kill_def Let_def strays_ok_def)
  then obtain r os' where w: "waitpid_nohang env pid ?os = (r, os')" by fastforce
  with k waitpid_nohang_dom [OF w assms(2)] assms(1,2) show ?thesis
    by (auto simp: kill_and_reap_def waitpid_def strays_ok_def)
qed

lemma wait_loop_child:
  "0 < pid \<Longrightarrow> dom (po_kids os) \<subseteq> {pid} \<Longrightarrow>
     dom (po_kids (wait_loop env pid n os)) \<subseteq> {pid} \<and> po_strays (wait_loop env pid n os) = po_strays os"
proof (induction n arbitrary: os)
  case (Suc n)
  obtain r os1 where w: "waitpid_nohang env pid os = (r, os1)" by fastforce
  have "dom (po_kids os1) \<subseteq> {pid}" "po_strays os1 = po_strays os"
    using waitpid_nohang_dom [OF w Suc.prems(1)] Suc.prems(2) by (auto split: if_splits)
  then show ?case using Suc.IH [of os1] Suc.prems(1) w by simp
qed simp

section \<open>Each section keeps the table\<close>

lemma SpawnChild_owns:
  assumes "SpawnChild env (pm, os) = (r, pm', os')" "owns (- 1) os"
  shows "owns (pm_child_pid pm') os' \<and> po_strays os' = po_strays os"
  using assms by (auto simp: SpawnChild_def posix_spawn_def owns_def Let_def split: option.splits if_splits)

lemma probe_child_owns:
  assumes "probe_child env (pm, os) = (alive, pm', os')" "owns (pm_child_pid pm) os"
  shows "owns (pm_child_pid pm') os' \<and> po_strays os' = po_strays os \<and> (\<not> alive \<longrightarrow> pm_child_pid pm' \<le> 0)
    \<and> pm' = pm\<lparr>pm_child_pid := pm_child_pid pm'\<rparr>"
proof (cases "0 < pm_child_pid pm")
  case True
  obtain r os1 where w: "waitpid_nohang env (pm_child_pid pm) os = (r, os1)" by fastforce
  show ?thesis using waitpid_nohang_dom [OF w True] assms True w
    by (auto simp: probe_child_def owns_def split: if_splits)
qed (use assms in \<open>simp add: probe_child_def\<close>)

lemma kill_child_owns:
  assumes "owns (pm_child_pid pm) os"
  shows "\<exists>pm' os'. kill_stale env (pm, os) = Some (pm', os') \<and> destroy_child env (pm, os) = Some (pm', os')
    \<and> owns (pm_child_pid pm') os' \<and> po_strays os' = po_strays os \<and> pm_child_pid pm' \<le> 0
    \<and> pm' = pm\<lparr>pm_child_pid := pm_child_pid pm'\<rparr>"
proof (cases "0 < pm_child_pid pm")
  case True
  then have p: "pm_child_pid pm \<in> dom (po_kids os)" and d: "dom (po_kids os) - {pm_child_pid pm} = {}"
    using assms by (auto simp: owns_def)
  obtain os' where "kill_and_reap env (pm_child_pid pm) os = Some os'" "dom (po_kids os') = {}" "po_strays os' = po_strays os"
    using kill_and_reap_child [OF p True, of env] unfolding d by blast
  then show ?thesis using True by (simp add: kill_stale_def destroy_child_def owns_def)
qed (use assms in \<open>simp add: kill_stale_def destroy_child_def\<close>)

lemma shutdown_child_owns:
  assumes "owns (pm_child_pid pm) os" "strays_ok env os"
  shows "\<exists>pm' os'. shutdown_child env (pm, os) = Some (pm', os') \<and> owns (pm_child_pid pm') os' \<and> strays_ok env os'
    \<and> pm_child_pid pm' \<le> 0"
proof (cases "0 < pm_child_pid pm")
  case True
  let ?p = "pm_child_pid pm"
  define os1 where "os1 = wait_loop env ?p 50 (snd (os_kill env ?p SIGTERM os))"
  define os2 where "os2 = settle env os1"
  define there where "there \<longleftrightarrow> ?p \<in> dom (po_kids os1) \<or> ?p \<in> po_foreign os2 \<or> ?p \<le> 0"
  have k0: "os_kill env ?p SIG0 os1 = (there, os2)" unfolding os_kill_SIG0 there_def os2_def ..
  have kid: "po_kids os ?p \<noteq> None" "dom (po_kids os) = {?p}" using assms(1) True by (auto simp: owns_def)
  then have "dom (po_kids (snd (os_kill env ?p SIGTERM os))) \<subseteq> {?p}"
    "po_strays (snd (os_kill env ?p SIGTERM os)) = po_strays os" by (simp_all add: os_kill_def Let_def)
  then have w: "dom (po_kids os1) \<subseteq> {?p}" "po_strays os1 = po_strays os"
    using wait_loop_child [OF True] unfolding os1_def by simp_all
  have d2: "dom (po_kids os2) = dom (po_kids os1)" "po_strays os2 = po_strays os"
    unfolding os2_def using w(2) by simp_all
  then have s2: "strays_ok env os2" using assms(2) by (simp add: strays_ok_def)
  have "\<exists>os3. (if there then kill_and_reap env ?p os2 else Some os2) = Some os3 \<and> dom (po_kids os3) = {} \<and> strays_ok env os3"
  proof (cases "?p \<in> dom (po_kids os2)")
    case p: True
    then have there unfolding there_def d2(1) by simp
    have e: "dom (po_kids os2) - {?p} = {}" using w(1) d2(1) by blast
    obtain os3 where k: "kill_and_reap env ?p os2 = Some os3" "dom (po_kids os3) = {}" "po_strays os3 = po_strays os2"
      using kill_and_reap_child [OF p True, of env] unfolding e by blast
    have "strays_ok env os3" using s2 unfolding strays_ok_def k(3) .
    moreover have "(if there then kill_and_reap env ?p os2 else Some os2) = Some os3" using \<open>there\<close> k(1) by (simp only: if_True)
    ultimately show ?thesis using k(2) by blast
  next
    case False
    have "dom (po_kids os2) = {} \<or> dom (po_kids os2) = {?p}" using w(1) unfolding d2(1) by (simp only: subset_singleton_iff)
    then have e: "dom (po_kids os2) = {}" using False by (elim disjE) simp_all
    obtain os3 where "kill_and_reap env ?p os2 = Some os3" "dom (po_kids os3) = {}" "strays_ok env os3"
      using kill_and_reap_stray [OF False True s2] unfolding e by blast
    then show ?thesis using e s2 by (cases there) (simp_all only: if_True if_False option.inject, blast+)
  qed
  then obtain os3 where "(if there then kill_and_reap env ?p os2 else Some os2) = Some os3" "dom (po_kids os3) = {}"
    "strays_ok env os3" by blast
  then show ?thesis using k0 True unfolding os1_def by (simp add: shutdown_child_def owns_def Let_def)
qed (use assms in \<open>simp add: shutdown_child_def\<close>)

lemma rate_limit_frame:
  assumes "rate_limit now pm = (go, pm')"
  shows "pm_child_pid pm' = pm_child_pid pm \<and> pm_config pm' = pm_config pm"
  using assms by (auto simp: rate_limit_def Let_def split: if_splits)

section \<open>No child is left behind\<close>

definition pm_inv :: "proc_env \<Rightarrow> pm_sys \<Rightarrow> bool" where
  "pm_inv env s \<longleftrightarrow> owns (pm_child_pid (py_pm s)) (py_os s) \<and> strays_ok env (py_os s)
     \<and> (py_mon s \<in> {MonDead, MonSpawn} \<longrightarrow> pm_child_pid (py_pm s) \<le> 0)
     \<and> (py_main s \<in> {MainJoined, MainDestroyed} \<longrightarrow> py_mon s = MonExited)
     \<and> (py_main s = MainDestroyed \<longrightarrow> pm_child_pid (py_pm s) \<le> 0)"

lemma pm_step_inv:
  assumes "pm_step env s s'" "pm_inv env s"
  shows "pm_inv env s'"
  using assms
proof cases
  case (probe alive pm' os')
  then show ?thesis using probe_child_owns [OF probe(3)] assms(2) by (auto simp: pm_inv_def strays_ok_def)
next
  case (stale now_ns last_hb pm' os')
  then show ?thesis using kill_child_owns [of "py_pm s" "py_os s" env] assms(2) by (auto simp: pm_inv_def strays_ok_def)
next
  case (limit now go pm')
  then show ?thesis using rate_limit_frame [OF limit(3)] assms(2) by (auto simp: pm_inv_def)
next
  case (spawn r pm' os')
  then have "pm_child_pid (py_pm s) \<le> 0" "owns (- 1) (py_os s)" using assms(2) by (auto simp: pm_inv_def owns_def)
  then show ?thesis using SpawnChild_owns [of env "py_pm s" "py_os s" r pm' os'] spawn assms(2)
    by (auto simp: pm_inv_def respawn_def strays_ok_def)
next
  case (kill pm' os')
  then show ?thesis using shutdown_child_owns [of "py_pm s" "py_os s" env] assms(2) by (auto simp: pm_inv_def)
next
  case (destroy pm' os')
  then show ?thesis using kill_child_owns [of "py_pm s" "py_os s" env] assms(2) by (auto simp: pm_inv_def strays_ok_def)
qed (auto simp: pm_inv_def)

lemma pm_reach_inv: "pm_reach env s \<Longrightarrow> pm_inv env s"
proof (induction rule: pm_reach.induct)
  case (started config now pm os)
  then show ?case using SpawnChild_owns [OF started]
    by (auto simp: pm_inv_def owns_def strays_ok_def)
qed (rule pm_step_inv)

text \<open>
  C11: The manager never loses its child process. In every interleaving of the monitor thread with
  shutdown and destruction there is at most one child, the one the manager knows; a wait for a killed
  child always returns; and when the manager is destroyed no child is left, running or zombie, even
  when the monitor respawned one after \<open>Shutdown\<close> had killed it. No signal goes to a process group, and
  the only signal that can reach a process that is not the child is a SIGKILL to a recycled id.
\<close>
theorem no_child_left_behind:
  assumes "pm_reach env s"
  shows "dom (po_kids (py_os s)) = (if 0 < pm_child_pid (py_pm s) then {pm_child_pid (py_pm s)} else {})
    \<and> kill_stale env (py_pm s, py_os s) \<noteq> None \<and> shutdown_child env (py_pm s, py_os s) \<noteq> None
    \<and> destroy_child env (py_pm s, py_os s) \<noteq> None
    \<and> (py_main s = MainDestroyed \<longrightarrow> po_kids (py_os s) = Map.empty)
    \<and> (\<forall>(p, sig) \<in> set (po_strays (py_os s)). sig = SIGKILL \<and> 0 < p \<and> (\<exists>n. p \<in> pv_foreign env n))"
proof -
  have i: "pm_inv env s" using pm_reach_inv [OF assms] .
  then have ow: "owns (pm_child_pid (py_pm s)) (py_os s)" "strays_ok env (py_os s)" by (simp_all add: pm_inv_def)
  have "po_kids (py_os s) = Map.empty" if "py_main s = MainDestroyed"
    using i that by (auto simp: pm_inv_def owns_def)
  then show ?thesis using ow kill_child_owns [OF ow(1), of env] shutdown_child_owns [OF ow]
    by (auto simp: owns_def strays_ok_def)
qed

text \<open>A child that exits on SIGTERM and whose id another program gets right after it was reaped.\<close>
definition recycling_env :: proc_env where
  "recycling_env = \<lparr>pv_exited = (\<lambda>n. if n = 2 then {42} else {}), pv_foreign = (\<lambda>n. if n < 3 then {} else {42}),
     pv_spawn = (\<lambda>_. Some 42)\<rparr>"

definition recycling_start :: "RithmicProcessManager \<times> proc_os" where
  "recycling_start = snd (SpawnChild recycling_env (RithmicProcessManager_new default_proc_config 0,
     \<lparr>po_kids = Map.empty, po_foreign = {}, po_calls = 0, po_strays = []\<rparr>))"

lemma recycling_start_simps:
  "SpawnChild recycling_env (RithmicProcessManager_new default_proc_config 0,
     \<lparr>po_kids = Map.empty, po_foreign = {}, po_calls = 0, po_strays = []\<rparr>) = (True, recycling_start)"
  "pm_child_pid (fst recycling_start) = 42" "po_kids (snd recycling_start) = [42 \<mapsto> PRunning]"
  "po_calls (snd recycling_start) = 1" "po_strays (snd recycling_start) = []"
  by (simp_all add: recycling_start_def SpawnChild_def posix_spawn_def settle_def recycling_env_def RithmicProcessManager_new_def Let_def)

text \<open>\<open>Shutdown\<close> reaps the child, finds its id alive again and kills the process that has it now.\<close>
theorem shutdown_kills_recycled_pid:
  "\<exists>os. shutdown_child recycling_env ((fst recycling_start)\<lparr>pm_monitor_running := False\<rparr>, snd recycling_start)
     = Some ((fst recycling_start)\<lparr>pm_monitor_running := False, pm_child_pid := - 1\<rparr>, os) \<and> po_strays os = [(42, SIGKILL)]"
  by (simp add: shutdown_child_def kill_and_reap_def waitpid_def waitpid_nohang_def os_kill_def settle_def recycling_start_simps
      recycling_env_def Let_def domIff eval_nat_numeral)

theorem no_child_left_behind_witness:
  "\<exists>s. pm_reach recycling_env s \<and> py_main s = MainDestroyed \<and> po_kids (py_os s) = Map.empty \<and> po_strays (py_os s) = [(42, SIGKILL)]"
proof -
  let ?pm = "(fst recycling_start)\<lparr>pm_monitor_running := False\<rparr>"
  define s0 where "s0 = \<lparr>py_pm = (fst recycling_start)\<lparr>pm_monitor_running := True\<rparr>, py_os = snd recycling_start, py_mon = MonTop, py_main = MainRunning\<rparr>"
  define s1 where "s1 = \<lparr>py_pm = ?pm, py_os = snd recycling_start, py_mon = MonTop, py_main = MainStopping\<rparr>"
  obtain os where os: "shutdown_child recycling_env (?pm, snd recycling_start) = Some (?pm\<lparr>pm_child_pid := - 1\<rparr>, os)"
    "po_strays os = [(42, SIGKILL)]" using shutdown_kills_recycled_pid by auto
  let ?s = "\<lambda>mon main. \<lparr>py_pm = ?pm\<lparr>pm_child_pid := - 1\<rparr>, py_os = os, py_mon = mon, py_main = main\<rparr>"
  have "pm_reach recycling_env s0"
    unfolding s0_def by (rule pm_reach.started [of _ default_proc_config 0]) (simp add: recycling_start_simps(1))
  moreover have "pm_step recycling_env s0 s1" using pm_step.stop [of s0 recycling_env] by (simp add: s0_def s1_def)
  moreover have "pm_step recycling_env s1 (?s MonTop MainKilled)"
    using pm_step.kill [of s1 recycling_env "?pm\<lparr>pm_child_pid := - 1\<rparr>" os] os by (simp add: s1_def)
  moreover have "pm_step recycling_env (?s MonTop MainKilled) (?s MonExited MainKilled)"
    using pm_step.leave [of "?s MonTop MainKilled"] by simp
  moreover have "pm_step recycling_env (?s MonExited MainKilled) (?s MonExited MainJoined)"
    using pm_step.join [of "?s MonExited MainKilled"] by simp
  moreover have "pm_step recycling_env (?s MonExited MainJoined) (?s MonExited MainDestroyed)"
    using pm_step.destroy [of "?s MonExited MainJoined" recycling_env "?pm\<lparr>pm_child_pid := - 1\<rparr>" os] by (simp add: destroy_child_def)
  ultimately have r: "pm_reach recycling_env (?s MonExited MainDestroyed)" by (meson pm_reach.step)
  then show ?thesis using no_child_left_behind [OF r] os(2) by (intro exI [of _ "?s MonExited MainDestroyed"]) simp
qed

section \<open>A stale heartbeat\<close>

text \<open>
  The monitor thread while the heartbeat in the shared header stays the same, with the clock readings
  of each round.
\<close>
fun monitor_rounds :: "proc_env \<Rightarrow> u64 \<Rightarrow> (u64 \<times> int) list \<Rightarrow> pm_state \<Rightarrow> pm_state option" where
  "monitor_rounds env last_hb [] st = Some st"
| "monitor_rounds env last_hb ((now_ns, now) # ts) st =
     (if \<not> pm_monitor_running (fst st) then Some st
      else case CheckHealth env last_hb now_ns now st of
             None \<Rightarrow> None
           | Some (_, st1) \<Rightarrow> monitor_rounds env last_hb ts st1)"

text \<open>A child with a fresh heartbeat is left alone.\<close>
lemma CheckHealth_healthy:
  assumes "probe_child env st = (True, st')" "\<not> heartbeat_stale (pm_config (fst st')) now_ns last_hb"
  shows "CheckHealth env last_hb now_ns now st = Some (True, st')"
  using assms by (simp add: CheckHealth_def)

lemma restart_limited:
  assumes "pm_child_pid pm \<le> 0" "owns (pm_child_pid pm) os" "(now - pm_last_restart pm) div 1000000000 < 60"
    "pm_restart_count pm \<le> pc_max_restarts_per_min (pm_config pm)" "pc_max_restarts_per_min (pm_config pm) \<noteq> - 1"
  shows "\<exists>r pm' os'. restart env now (pm, os) = (r, pm', os') \<and> owns (pm_child_pid pm') os' \<and> po_strays os' = po_strays os
    \<and> pm_config pm' = pm_config pm
    \<and> (if pm_restart_count pm = pc_max_restarts_per_min (pm_config pm)
       then \<not> pm_monitor_running pm' \<and> pm_child_pid pm' \<le> 0
       else pm_monitor_running pm' = pm_monitor_running pm \<and> pm_last_restart pm' = now
         \<and> pm_restart_count pm' = pm_restart_count pm + 1 \<and> pm_restart_count pm' \<le> pc_max_restarts_per_min (pm_config pm))"
proof (cases "pm_restart_count pm = pc_max_restarts_per_min (pm_config pm)")
  case True
  have "1 + pm_restart_count pm \<noteq> 0" using assms(5) True by (metis add_eq_0_iff)
  then have "pm_restart_count pm < pm_restart_count pm + 1" by (simp add: word_less_nat_alt unatSuc add.commute)
  then show ?thesis using assms True by (auto simp: restart_def rate_limit_def Let_def)
next
  case False
  then have le: "pm_restart_count pm + 1 \<le> pc_max_restarts_per_min (pm_config pm)" using assms(4) by (simp add: inc_le)
  define pm1 where "pm1 = pm\<lparr>pm_restart_count := pm_restart_count pm + 1, pm_last_restart := now\<rparr>"
  have lim: "rate_limit now pm = (True, pm1)" using assms(3) le by (simp add: rate_limit_def Let_def pm1_def not_less)
  obtain r pm' os' where sp: "SpawnChild env (pm1, os) = (r, pm', os')" by (metis prod_cases3)
  obtain c where "pm' = pm1\<lparr>pm_child_pid := c\<rparr>" using sp by (auto simp: SpawnChild_def split: prod.splits option.splits)
  moreover have "owns (pm_child_pid pm') os' \<and> po_strays os' = po_strays os"
    using SpawnChild_owns [OF sp] assms(1,2) by (simp add: owns_def)
  ultimately show ?thesis using lim sp assms(1) le False
    by (intro exI [of _ r] exI [of _ pm'] exI [of _ os']) (simp add: restart_def respawn_def pm1_def)
qed

lemma CheckHealth_stale:
  assumes "owns (pm_child_pid pm) os" "heartbeat_stale (pm_config pm) now_ns last_hb"
    "(now - pm_last_restart pm) div 1000000000 < 60"
    "pm_restart_count pm \<le> pc_max_restarts_per_min (pm_config pm)" "pc_max_restarts_per_min (pm_config pm) \<noteq> - 1"
  shows "\<exists>r pm' os'. CheckHealth env last_hb now_ns now (pm, os) = Some (r, pm', os') \<and> owns (pm_child_pid pm') os'
    \<and> po_strays os' = po_strays os \<and> pm_config pm' = pm_config pm
    \<and> (if pm_restart_count pm = pc_max_restarts_per_min (pm_config pm)
       then \<not> pm_monitor_running pm' \<and> pm_child_pid pm' \<le> 0
       else pm_monitor_running pm' = pm_monitor_running pm \<and> pm_last_restart pm' = now
         \<and> pm_restart_count pm' = pm_restart_count pm + 1 \<and> pm_restart_count pm' \<le> pc_max_restarts_per_min (pm_config pm))"
proof -
  obtain alive pm1 os1 where p: "probe_child env (pm, os) = (alive, pm1, os1)" by (metis prod_cases3)
  have o1: "owns (pm_child_pid pm1) os1" "po_strays os1 = po_strays os" "\<not> alive \<Longrightarrow> pm_child_pid pm1 \<le> 0"
    and pm1: "\<exists>c. pm1 = pm\<lparr>pm_child_pid := c\<rparr>" using probe_child_owns [OF p assms(1)] by blast+
  have "\<exists>pm2 os2. CheckHealth env last_hb now_ns now (pm, os) = Some (restart env now (pm2, os2))
      \<and> owns (pm_child_pid pm2) os2 \<and> po_strays os2 = po_strays os \<and> pm_child_pid pm2 \<le> 0 \<and> (\<exists>c. pm2 = pm\<lparr>pm_child_pid := c\<rparr>)"
  proof (cases alive)
    case True
    have st: "heartbeat_stale (pm_config pm1) now_ns last_hb" using assms(2) pm1 by auto
    obtain pm2 os2 where k: "kill_stale env (pm1, os1) = Some (pm2, os2)" "owns (pm_child_pid pm2) os2"
      "po_strays os2 = po_strays os1" "pm_child_pid pm2 \<le> 0" "pm2 = pm1\<lparr>pm_child_pid := pm_child_pid pm2\<rparr>"
      using kill_child_owns [OF o1(1), of env] by blast
    have "\<exists>c. pm2 = pm\<lparr>pm_child_pid := c\<rparr>" using k(5) pm1 by (metis RithmicProcessManager.surjective RithmicProcessManager.update_convs(2))
    then show ?thesis using k p st True o1(2) by (auto simp: CheckHealth_def)
  next
    case False
    then show ?thesis using p o1 pm1 by (auto simp: CheckHealth_def)
  qed
  then obtain pm2 os2 c where c: "CheckHealth env last_hb now_ns now (pm, os) = Some (restart env now (pm2, os2))"
    "owns (pm_child_pid pm2) os2" "po_strays os2 = po_strays os" "pm_child_pid pm2 \<le> 0" "pm2 = pm\<lparr>pm_child_pid := c\<rparr>" by blast
  have f: "pm_config pm2 = pm_config pm" "pm_restart_count pm2 = pm_restart_count pm" "pm_last_restart pm2 = pm_last_restart pm"
    "pm_monitor_running pm2 = pm_monitor_running pm" by (simp_all add: c(5))
  show ?thesis using restart_limited [OF c(4,2), of now env, unfolded f c(3), OF assms(3-5)]
    unfolding c(1) option.inject .
qed

text \<open>
  C39: A stale heartbeat makes the manager kill every replacement child and give up. The heartbeat in
  the shared header is not reset when a child is respawned, and the new child writes it only after it
  has logged in. While it stays stale, every health check within a minute kills the child, if it still
  runs, and starts another; after at most one check more than the restart limit the monitor has
  stopped for good and no child is left, whatever the children do.
\<close>
theorem stale_heartbeat_gives_up:
  assumes "owns (pm_child_pid pm) os" "pm_restart_count pm \<le> pc_max_restarts_per_min (pm_config pm)"
    "pc_max_restarts_per_min (pm_config pm) \<noteq> - 1"
    "t0 \<le> pm_last_restart pm" "pm_last_restart pm < t0 + 60000000000"
    "\<forall>(now_ns, now) \<in> set ts. heartbeat_stale (pm_config pm) now_ns last_hb \<and> t0 \<le> now \<and> now < t0 + 60000000000"
    "unat (pc_max_restarts_per_min (pm_config pm)) < unat (pm_restart_count pm) + length ts" "pm_monitor_running pm"
  shows "\<exists>pm' os'. monitor_rounds env last_hb ts (pm, os) = Some (pm', os') \<and> \<not> pm_monitor_running pm'
    \<and> pm_child_pid pm' \<le> 0 \<and> po_kids os' = Map.empty \<and> po_strays os' = po_strays os"
  using assms
proof (induction ts arbitrary: pm os)
  case Nil
  then show ?case by (simp add: word_le_nat_alt)
next
  case (Cons t ts)
  obtain now_ns now where t: "t = (now_ns, now)" by fastforce
  let ?max = "pc_max_restarts_per_min (pm_config pm)"
  have now: "heartbeat_stale (pm_config pm) now_ns last_hb" "t0 \<le> now" "now < t0 + 60000000000"
    using Cons.prems(6) t by simp_all
  have "(now - pm_last_restart pm) div 1000000000 < 60" using now Cons.prems(4) by (simp add: div_less_iff_less_mult)
  then obtain r pm1 os1 where c: "CheckHealth env last_hb now_ns now (pm, os) = Some (r, pm1, os1)" "owns (pm_child_pid pm1) os1"
    "po_strays os1 = po_strays os" "pm_config pm1 = pm_config pm"
    and lim: "if pm_restart_count pm = ?max then \<not> pm_monitor_running pm1 \<and> pm_child_pid pm1 \<le> 0
      else pm_monitor_running pm1 = pm_monitor_running pm \<and> pm_last_restart pm1 = now
         \<and> pm_restart_count pm1 = pm_restart_count pm + 1 \<and> pm_restart_count pm1 \<le> ?max"
    using CheckHealth_stale [OF Cons.prems(1) now(1) _ Cons.prems(2,3), of now env] by blast
  show ?case
  proof (cases "pm_restart_count pm = ?max")
    case True
    then have "\<not> pm_monitor_running pm1" "pm_child_pid pm1 \<le> 0" using lim by simp_all
    moreover from this have "monitor_rounds env last_hb ts (pm1, os1) = Some (pm1, os1)" by (cases ts) auto
    ultimately show ?thesis using t c Cons.prems(8) by (simp add: owns_def)
  next
    case False
    have "1 + pm_restart_count pm \<noteq> 0" using False Cons.prems(2,3) by (metis add_eq_0_iff word_order.extremum_unique)
    then have u: "unat (pm_restart_count pm1) = Suc (unat (pm_restart_count pm))" using lim False by (simp add: unatSuc add.commute)
    have l: "pm_monitor_running pm1" "pm_last_restart pm1 = now" "pm_restart_count pm1 \<le> ?max"
      using lim Cons.prems(8) unfolding if_not_P [OF False] by blast+
    have "\<exists>pm' os'. monitor_rounds env last_hb ts (pm1, os1) = Some (pm', os') \<and> \<not> pm_monitor_running pm'
        \<and> pm_child_pid pm' \<le> 0 \<and> po_kids os' = Map.empty \<and> po_strays os' = po_strays os1"
      by (rule Cons.IH) (use Cons.prems(3,6,7) c l u now in simp_all)
    then show ?thesis using c(1,3) t Cons.prems(8) by simp
  qed
qed

definition idle_env :: proc_env where
  "idle_env = \<lparr>pv_exited = (\<lambda>_. {}), pv_foreign = (\<lambda>_. {}), pv_spawn = (\<lambda>n. Some (int n + 100))\<rparr>"

text \<open>With the default limits and a heartbeat of 20 seconds ago it is over after eleven checks.\<close>
theorem stale_heartbeat_gives_up_witness:
  "\<exists>pm' os'. monitor_rounds idle_env 1 (replicate 11 (20000000001, 500000000))
     ((RithmicProcessManager_new default_proc_config 0)\<lparr>pm_child_pid := 7, pm_monitor_running := True\<rparr>,
      \<lparr>po_kids = [7 \<mapsto> PRunning], po_foreign = {}, po_calls = 0, po_strays = []\<rparr>) = Some (pm', os')
     \<and> \<not> pm_monitor_running pm' \<and> po_kids os' = Map.empty"
proof -
  let ?pm = "(RithmicProcessManager_new default_proc_config 0)\<lparr>pm_child_pid := 7, pm_monitor_running := True\<rparr>"
  have "heartbeat_stale default_proc_config 20000000001 1" by (simp add: heartbeat_stale_def default_proc_config_def)
  then show ?thesis
    using stale_heartbeat_gives_up [of ?pm "\<lparr>po_kids = [7 \<mapsto> PRunning], po_foreign = {}, po_calls = 0, po_strays = []\<rparr>" 0
        "replicate 11 (20000000001, 500000000)" 1 idle_env]
    by (auto simp: RithmicProcessManager_new_def default_proc_config_def owns_def)
qed

section \<open>Setup\<close>

text \<open>Everything \<open>Setup\<close> reads and changes.\<close>
record 's setup_world =
  sw_registry :: ChannelRegistry
  sw_router :: "'s StorageRouter"
  sw_dir :: shm_dir
  sw_channel_map :: RithmicChannelMap
  sw_shm :: "ShmSetup option"
  sw_pm :: RithmicProcessManager
  sw_os :: proc_os

text \<open>\<open>None\<close>: a failed assertion in the storage backend ends the process.\<close>
definition Setup :: "('v, 's) router_env \<Rightarrow> shm_env \<Rightarrow> proc_env \<Rightarrow> ExchangeConfig list \<Rightarrow> 's setup_world \<Rightarrow> (bool \<times> 's setup_world) option" where
  "Setup renv senv penv exs w0 =
     (case RegisterChannels renv exs (sw_registry w0) (sw_router w0) of
        None \<Rightarrow> None
      | Some (reg, cm, router) \<Rightarrow>
          (let w = w0\<lparr>sw_registry := reg, sw_channel_map := cm, sw_router := router\<rparr>;
               name = pc_shm_name (pm_config (sw_pm w))
           in if rcm_sub_list cm = [] then Some (False, w)
              else case ShmSetup_create senv name kTotalShmSize (sw_dir w) of
                     (Inl _, dir) \<Rightarrow> Some (False, w\<lparr>sw_dir := dir\<rparr>)
                   | (Inr shm, dir) \<Rightarrow>
                       (let dir1 = dir(name := map_option construct_queues (dir name))
                        in case SpawnChild penv (sw_pm w, sw_os w) of
                             (False, pm, os) \<Rightarrow>
                               Some (False, w\<lparr>sw_dir := ShmSetup_destroy shm dir1, sw_pm := pm, sw_os := os\<rparr>)
                           | (True, pm, os) \<Rightarrow>
                               Some (True, w\<lparr>sw_dir := dir1, sw_shm := Some shm, sw_pm := pm\<lparr>pm_monitor_running := True\<rparr>, sw_os := os\<rparr>))))"

text \<open>The settings \<open>CreateRithmicManager\<close> passes on.\<close>
definition manager_config :: "string \<Rightarrow> RootConfig \<Rightarrow> proc_config" where
  "manager_config config_path cfg = default_proc_config\<lparr>pc_config_path := config_path,
     pc_engine_core := rc_engine_core (cfg_rithmic cfg), pc_forwarder_core := rc_forwarder_core (cfg_rithmic cfg),
     pc_cpu_affinity := gc_cpu_affinity (cfg_global cfg)\<rparr>"

definition CreateRithmicManager where
  "CreateRithmicManager renv senv penv now config_path cfg w =
     Setup renv senv penv (cfg_exchanges cfg) (w\<lparr>sw_pm := RithmicProcessManager_new (manager_config config_path cfg) now\<rparr>)"

text \<open>
  The manager creates the region under the default name whatever the configuration says, while the
  gateway opens the configured name: with another name the gateway cannot open the region.
\<close>
theorem configured_shm_name_ignored:
  assumes "CreateRithmicManager renv senv penv now path cfg w = Some (True, w')"
    "rc_shm_name (cfg_rithmic cfg) \<noteq> ''/sqc_rithmic''" "sw_dir w (rc_shm_name (cfg_rithmic cfg)) = None"
  shows "ShmSetup_open senv' (rc_shm_name (cfg_rithmic cfg)) (sw_dir w') = Inl ShmOpen"
proof -
  have "sw_dir w' (rc_shm_name (cfg_rithmic cfg)) = None"
    using assms by (auto simp: CreateRithmicManager_def Setup_def manager_config_def default_proc_config_def RithmicProcessManager_new_def
        ShmSetup_create_def Let_def split: option.splits prod.splits sum.splits if_splits bool.splits)
  then show ?thesis by (simp add: ShmSetup_open_def)
qed

end
