(* ===== verification/Rithmic_Callbacks.thy ===== *)
theory Rithmic_Callbacks
  imports Order_Book Rithmic_Shm Channel_Registry
begin

text \<open>
  The market data callbacks of the gateway process
  (\<open>src/rithmic_gateway/rithmic_callbacks.cpp\<close>): the trading API calls them with trades, quotes and
  order book images, and they fill the three shared-memory queues. The structures of the API are
  records of the members the code reads; clock readings are arguments. A callback returns \<open>None\<close> when
  it would read past a buffer or spin on a book lock that nobody releases. The lemmas show that with
  well-formed input this never happens, that every queue slot holds a sound event, and that a batch of
  quotes becomes visible as one snapshot.
\<close>

section \<open>Input\<close>

text \<open>\<open>tsNCharcb\<close>: a pointer and a length; \<open>nc_rest\<close> is the memory behind the counted characters.\<close>
record nchar =
  nc_data :: "string option"
  nc_rest :: string

definition ToSv :: "nchar \<Rightarrow> string" where
  "ToSv s = (case nc_data s of None \<Rightarrow> [] | Some d \<Rightarrow> rev (dropWhile (\<lambda>c. c = CHR '' '') (rev d)))"

definition nc_memory :: "nchar \<Rightarrow> string" where
  "nc_memory s = (case nc_data s of None \<Rightarrow> [] | Some d \<Rightarrow> d @ nc_rest s)"

definition CopySymbol_gateway :: "char_array \<Rightarrow> string \<Rightarrow> char_array" where
  "CopySymbol_gateway dst src =
     (let n = (if length src < 11 then length src else 11) in take n src @ NUL # drop (Suc n) dst)"

record TradeInfo =
  ti_exchange :: nchar
  ti_ticker :: nchar
  ti_ssboe :: int
  ti_usecs :: int
  ti_price :: double
  ti_size :: int
  ti_aggressor_side :: nchar

text \<open>\<open>BidInfo\<close> and \<open>AskInfo\<close> have the same members.\<close>
record QuoteInfo =
  qi_exchange :: nchar
  qi_ticker :: nchar
  qi_ssboe :: int
  qi_usecs :: int
  qi_update_type :: int
  qi_price_flag :: bool
  qi_price :: double
  qi_size_flag :: bool
  qi_size :: int

record LimitOrderBookInfo =
  lo_exchange :: nchar
  lo_ticker :: nchar
  lo_ssboe :: int
  lo_usecs :: int
  lo_type :: int
  lo_asks :: "(double \<times> int) list"
  lo_bids :: "(double \<times> int) list"

record EndQuoteInfo =
  eq_exchange :: nchar
  eq_ticker :: nchar
  eq_ssboe :: int
  eq_usecs :: int

definition kUpdateTypeSolo :: int where "kUpdateTypeSolo = 1"
definition kUpdateTypeBegin :: int where "kUpdateTypeBegin = 2"
definition kUpdateTypeMiddle :: int where "kUpdateTypeMiddle = 3"
definition kUpdateTypeEnd :: int where "kUpdateTypeEnd = 4"
definition kUpdateTypeClear :: int where "kUpdateTypeClear = 5"
definition kMdImageCb :: int where "kMdImageCb = 1"

lemmas update_types = kUpdateTypeSolo_def kUpdateTypeBegin_def kUpdateTypeMiddle_def kUpdateTypeEnd_def kUpdateTypeClear_def

record clocks =
  ck_system_us :: u64
  ck_steady_ns :: u64

section \<open>State\<close>

definition kMaxBooks :: nat where
  "kMaxBooks = 8"

record MyCallbacks =
  cb_shm :: shm_object
  cb_channel_map :: RithmicChannelMap
  cb_max_depth_levels :: u32
  cb_books :: "RithmicOrderBook list"
  cb_channel_to_book :: "u32 \<rightharpoonup> nat"
  cb_book_count :: nat

definition MyCallbacks_new :: "shm_object \<Rightarrow> RithmicChannelMap \<Rightarrow> u32 \<Rightarrow> MyCallbacks" where
  "MyCallbacks_new shm channel_map max_depth_levels = \<lparr>cb_shm = shm, cb_channel_map = channel_map,
     cb_max_depth_levels = max_depth_levels, cb_books = replicate kMaxBooks book_zero, cb_channel_to_book = Map.empty,
     cb_book_count = 0\<rparr>"

section \<open>Helpers\<close>

text \<open>The index of the book, if there is one. \<open>Init\<close> is given the bare data pointer of the ticker.\<close>
definition FindBook :: "nchar \<Rightarrow> nchar \<Rightarrow> MyCallbacks \<Rightarrow> (nat option \<times> MyCallbacks) option" where
  "FindBook exchange ticker cb =
     (let channel_id = RithmicChannelMap_Lookup (cb_channel_map cb) (ToSv exchange) (ToSv ticker)
      in if channel_id = kNotFound then Some (None, cb)
         else case cb_channel_to_book cb channel_id of
                Some i \<Rightarrow> Some (Some i, cb)
              | None \<Rightarrow>
                  if kMaxBooks \<le> cb_book_count cb then Some (None, cb)
                  else map_option (\<lambda>book. (Some (cb_book_count cb),
                           cb\<lparr>cb_books := (cb_books cb)[cb_book_count cb := book],
                              cb_channel_to_book := (cb_channel_to_book cb)(channel_id \<mapsto> cb_book_count cb),
                              cb_book_count := Suc (cb_book_count cb)\<rparr>))
                         (Init channel_id (nc_memory ticker) (cb_books cb ! cb_book_count cb)))"

definition PushSnapshot :: "clocks \<Rightarrow> RithmicOrderBook \<Rightarrow> u64 \<Rightarrow> shm_object \<Rightarrow> shm_object" where
  "PushSnapshot ck book exchange_ts shm =
     (case ResolveRithmicExchangeTimestamp (ck_system_us ck) exchange_ts (ob_bid_count book) (ob_ask_count book) of
        None \<Rightarrow> shm
      | Some resolved_ts \<Rightarrow>
          shm\<lparr>so_depth_queue := snd (MTryPush depth_zero
            ((SnapshotTo book depth_zero resolved_ts)\<lparr>dep_local_diff := ck_steady_ns ck\<rparr>) (so_depth_queue shm))\<rparr>)"

text \<open>The frame of the book callbacks: find the book, lock it, work on it, unlock it.\<close>
definition with_book ::
  "nchar \<Rightarrow> nchar \<Rightarrow> (RithmicOrderBook \<Rightarrow> shm_object \<Rightarrow> RithmicOrderBook \<times> shm_object) \<Rightarrow> MyCallbacks \<Rightarrow> MyCallbacks option" where
  "with_book exchange ticker work cb =
     (case FindBook exchange ticker cb of
        None \<Rightarrow> None
      | Some (None, cb1) \<Rightarrow> Some cb1
      | Some (Some i, cb1) \<Rightarrow>
          (case Lock (cb_books cb1 ! i) of
             None \<Rightarrow> None
           | Some book \<Rightarrow>
               (case work book (cb_shm cb1) of
                  (book1, shm1) \<Rightarrow> Some (cb1\<lparr>cb_books := (cb_books cb1)[i := Unlock book1], cb_shm := shm1\<rparr>))))"

section \<open>Callbacks\<close>

definition TradePrint :: "clocks \<Rightarrow> TradeInfo \<Rightarrow> MyCallbacks \<Rightarrow> MyCallbacks option" where
  "TradePrint ck info cb =
     (let channel_id = RithmicChannelMap_Lookup (cb_channel_map cb) (ToSv (ti_exchange info)) (ToSv (ti_ticker info))
      in if channel_id = kNotFound then Some cb
         else let tick = tick_zero\<lparr>tick_channel_id := channel_id,
                    tick_exchange_timestamp := ToEpochMicros (ti_ssboe info) (ti_usecs info),
                    tick_price := ti_price info, tick_quantity := double_of_int (ti_size info), tick_trade_id := 0,
                    tick_symbol := CopySymbol_gateway (tick_symbol tick_zero) (ToSv (ti_ticker info)),
                    tick_is_buyer_maker := (ToSv (ti_aggressor_side info) = ''S''),
                    tick_local_diff := ck_steady_ns ck\<rparr>
              in Some (cb\<lparr>cb_shm := (cb_shm cb)\<lparr>so_tick_queue := snd (MTryPush tick_zero tick (so_tick_queue (cb_shm cb)))\<rparr>\<rparr>))"

definition TradeCondition :: "clocks \<Rightarrow> TradeInfo \<Rightarrow> MyCallbacks \<Rightarrow> MyCallbacks option" where
  "TradeCondition = TradePrint"

definition BestBidAskQuote :: "clocks \<Rightarrow> QuoteInfo \<Rightarrow> QuoteInfo \<Rightarrow> MyCallbacks \<Rightarrow> MyCallbacks option" where
  "BestBidAskQuote ck bid ask cb =
     (let channel_id = RithmicChannelMap_Lookup (cb_channel_map cb) (ToSv (qi_exchange bid)) (ToSv (qi_ticker bid))
      in if channel_id = kNotFound then Some cb
         else let bt = book_ticker_zero\<lparr>bt_channel_id := channel_id,
                    bt_exchange_timestamp := ToEpochMicros (qi_ssboe bid) (qi_usecs bid),
                    bt_symbol := CopySymbol_gateway (bt_symbol book_ticker_zero) (ToSv (qi_ticker bid)),
                    bt_best_bid_price := (if qi_price_flag bid then qi_price bid else d_zero),
                    bt_best_bid_qty := (if qi_size_flag bid then double_of_int (qi_size bid) else d_zero),
                    bt_best_ask_price := (if qi_price_flag ask then qi_price ask else d_zero),
                    bt_best_ask_qty := (if qi_size_flag ask then double_of_int (qi_size ask) else d_zero),
                    bt_local_diff := ck_steady_ns ck\<rparr>
              in Some (cb\<lparr>cb_shm := (cb_shm cb)\<lparr>so_book_ticker_queue :=
                   snd (MTryPush book_ticker_zero bt (so_book_ticker_queue (cb_shm cb)))\<rparr>\<rparr>))"

text \<open>The loops over the levels of an incremental update.\<close>
definition apply_quotes :: "(double \<times> int) list \<Rightarrow> bool \<Rightarrow> RithmicOrderBook \<Rightarrow> RithmicOrderBook" where
  "apply_quotes quotes is_ask = fold (\<lambda>(price, sz). ApplyLevel price (double_of_int sz) is_ask) quotes"

definition limit_order_update :: "u32 \<Rightarrow> LimitOrderBookInfo \<Rightarrow> RithmicOrderBook \<Rightarrow> RithmicOrderBook" where
  "limit_order_update max_depth_levels info book =
     (if lo_type info = kMdImageCb
      then ApplyImage (lo_bids info) False (ApplyImage (lo_asks info) True book)
      else let maxd = (if kMaxOrderbookLevels < unat max_depth_levels then kMaxOrderbookLevels else unat max_depth_levels)
           in apply_quotes (take maxd (lo_bids info)) False (apply_quotes (take maxd (lo_asks info)) True book))"

definition LimitOrderBook :: "clocks \<Rightarrow> LimitOrderBookInfo \<Rightarrow> MyCallbacks \<Rightarrow> MyCallbacks option" where
  "LimitOrderBook ck info cb =
     with_book (lo_exchange info) (lo_ticker info) (\<lambda>book shm.
       let book1 = limit_order_update (cb_max_depth_levels cb) info book
       in (book1, PushSnapshot ck book1 (ToEpochMicros (lo_ssboe info) (lo_usecs info)) shm)) cb"

definition quote_qty :: "QuoteInfo \<Rightarrow> double" where
  "quote_qty info = (if qi_size_flag info then double_of_int (qi_size info) else d_zero)"

definition buffer_quote :: "bool \<Rightarrow> QuoteInfo \<Rightarrow> RithmicOrderBook \<Rightarrow> RithmicOrderBook" where
  "buffer_quote is_ask info book =
     (if qi_price_flag info then BufferLevel (qi_price info) (quote_qty info) is_ask book else book)"

text \<open>The body of \<open>AskQuote\<close> and of \<open>BidQuote\<close>, which differ in the side only: the switch on the update type.\<close>
definition quote_work :: "bool \<Rightarrow> clocks \<Rightarrow> QuoteInfo \<Rightarrow> RithmicOrderBook \<Rightarrow> shm_object \<Rightarrow> RithmicOrderBook \<times> shm_object" where
  "quote_work is_ask ck info book shm =
     (let ts = ToEpochMicros (qi_ssboe info) (qi_usecs info)
      in if qi_update_type info = kUpdateTypeSolo then
           let book1 = (if qi_price_flag info then ApplyLevel (qi_price info) (quote_qty info) is_ask book else book)
           in (book1, PushSnapshot ck book1 ts shm)
         else if qi_update_type info = kUpdateTypeBegin then
           (buffer_quote is_ask info (BeginBatch (if ob_batch_active book then CancelBatch book else book)), shm)
         else if qi_update_type info = kUpdateTypeMiddle then
           (buffer_quote is_ask info (if \<not> ob_batch_active book then BeginBatch book else book), shm)
         else if qi_update_type info = kUpdateTypeEnd then
           let book1 = CommitBatch (buffer_quote is_ask info book) in (book1, PushSnapshot ck book1 ts shm)
         else if qi_update_type info = kUpdateTypeClear then
           let book1 = Clear book in (book1, PushSnapshot ck book1 ts shm)
         else (book, shm))"

definition AskQuote :: "clocks \<Rightarrow> QuoteInfo \<Rightarrow> MyCallbacks \<Rightarrow> MyCallbacks option" where
  "AskQuote ck info = with_book (qi_exchange info) (qi_ticker info) (quote_work True ck info)"

definition BidQuote :: "clocks \<Rightarrow> QuoteInfo \<Rightarrow> MyCallbacks \<Rightarrow> MyCallbacks option" where
  "BidQuote ck info = with_book (qi_exchange info) (qi_ticker info) (quote_work False ck info)"

definition EndQuote :: "clocks \<Rightarrow> EndQuoteInfo \<Rightarrow> MyCallbacks \<Rightarrow> MyCallbacks option" where
  "EndQuote ck info = with_book (eq_exchange info) (eq_ticker info) (\<lambda>book shm.
     if ob_batch_active book
     then let book1 = CommitBatch book in (book1, PushSnapshot ck book1 (ToEpochMicros (eq_ssboe info) (eq_usecs info)) shm)
     else (book, shm))"

text \<open>The calls of the API; the callbacks that only acknowledge are \<open>CB_Other\<close>.\<close>
datatype callback =
  CB_Trade TradeInfo
| CB_TradeCondition TradeInfo
| CB_BestBidAsk QuoteInfo QuoteInfo
| CB_LimitOrderBook LimitOrderBookInfo
| CB_Ask QuoteInfo
| CB_Bid QuoteInfo
| CB_EndQuote EndQuoteInfo
| CB_Other

fun run_callback :: "clocks \<Rightarrow> callback \<Rightarrow> MyCallbacks \<Rightarrow> MyCallbacks option" where
  "run_callback ck (CB_Trade i) cb = TradePrint ck i cb"
| "run_callback ck (CB_TradeCondition i) cb = TradeCondition ck i cb"
| "run_callback ck (CB_BestBidAsk b a) cb = BestBidAskQuote ck b a cb"
| "run_callback ck (CB_LimitOrderBook i) cb = LimitOrderBook ck i cb"
| "run_callback ck (CB_Ask i) cb = AskQuote ck i cb"
| "run_callback ck (CB_Bid i) cb = BidQuote ck i cb"
| "run_callback ck (CB_EndQuote i) cb = EndQuote ck i cb"
| "run_callback ck CB_Other cb = Some cb"

fun run_callbacks :: "(clocks \<times> callback) list \<Rightarrow> MyCallbacks \<Rightarrow> MyCallbacks option" where
  "run_callbacks [] cb = Some cb"
| "run_callbacks ((ck, c) # cs) cb = Option.bind (run_callback ck c cb) (run_callbacks cs)"

section \<open>Well-formed input\<close>

text \<open>What the code relies on: the ticker's memory is long enough or terminated, and numbers are numbers.\<close>
definition terminated :: "nchar \<Rightarrow> bool" where
  "terminated s \<longleftrightarrow> 11 \<le> length (nc_memory s) \<or> NUL \<in> set (nc_memory s)"

definition quotes_ok :: "(double \<times> int) list \<Rightarrow> bool" where
  "quotes_ok qs \<longleftrightarrow> (\<forall>(p, sz) \<in> set qs. \<not> is_nan p \<and> \<bar>sz\<bar> < 2 ^ 64)"

definition quote_ok :: "QuoteInfo \<Rightarrow> bool" where
  "quote_ok q \<longleftrightarrow> terminated (qi_ticker q) \<and> \<not> is_nan (qi_price q) \<and> \<bar>qi_size q\<bar> < 2 ^ 64"

fun callback_ok :: "callback \<Rightarrow> bool" where
  "callback_ok (CB_LimitOrderBook i) \<longleftrightarrow> terminated (lo_ticker i)
     \<and> (if lo_type i = kMdImageCb then image_ok True (lo_asks i) \<and> image_ok False (lo_bids i)
        else quotes_ok (lo_asks i) \<and> quotes_ok (lo_bids i))"
| "callback_ok (CB_Ask q) \<longleftrightarrow> quote_ok q"
| "callback_ok (CB_Bid q) \<longleftrightarrow> quote_ok q"
| "callback_ok (CB_EndQuote i) \<longleftrightarrow> terminated (eq_ticker i)"
| "callback_ok _ \<longleftrightarrow> True"

section \<open>Sound slots\<close>

text \<open>A depth event as the collector expects it: a known channel, both sides sorted with positive quantities.\<close>
definition depth_sound :: "u32 set \<Rightarrow> DepthUpdateEvent \<Rightarrow> bool" where
  "depth_sound ids e \<longleftrightarrow> dep_channel_id e \<in> ids \<and> depth_wf e
     \<and> side_ok False (take (dep_bid_count e) (dep_bids e)) \<and> side_ok True (take (dep_ask_count e) (dep_asks e))"

definition slots_sound :: "u32 set \<Rightarrow> shm_object \<Rightarrow> bool" where
  "slots_sound ids shm \<longleftrightarrow>
     (\<forall>t \<in> set (mq_data (so_tick_queue shm)). t = tick_zero \<or> tick_channel_id t \<in> ids \<and> tick_wf t)
     \<and> (\<forall>e \<in> set (mq_data (so_depth_queue shm)). e = depth_zero \<or> depth_sound ids e)
     \<and> (\<forall>b \<in> set (mq_data (so_book_ticker_queue shm)). b = book_ticker_zero \<or> bt_channel_id b \<in> ids \<and> book_ticker_wf b)"

lemma MTryPush_data: "set (mq_data (snd (MTryPush d x q))) \<subseteq> insert x (insert d (set (mq_data q)))"
  by (auto simp: MTryPush_def publish_def Let_def dest!: subsetD [OF set_update_subset_insert])

lemma CopySymbol_gateway_length: "length dst = 12 \<Longrightarrow> length (CopySymbol_gateway dst src) = 12"
  by (simp add: CopySymbol_gateway_def Let_def)

lemma SnapshotTo_sound:
  assumes "book_inv b" "ob_channel_id b \<in> ids"
  shows "depth_sound ids ((SnapshotTo b depth_zero ts)\<lparr>dep_local_diff := n\<rparr>)"
proof -
  have sh: "book_shape b" and ok: "side_ok False (bids_of b)" "side_ok True (asks_of b)" using assms(1) by (simp_all add: book_inv_def)
  have len: "length (ob_bids b) = 100" "length (ob_asks b) = 100" "ob_bid_count b \<le> 100" "ob_ask_count b \<le> 100" "length (ob_symbol b) = 12"
    using sh by (simp_all add: book_shape_def kMaxOrderbookLevels_def)
  obtain sy where "copy_symbol_loop (ob_symbol b) symbol_zero 0 = Some sy" "length sy = 12"
    using copy_symbol_loop_defined [OF len(5), of symbol_zero] by (auto simp: symbol_zero_def)
  then show ?thesis using ok len assms(2)
    by (simp add: depth_sound_def depth_wf_def SnapshotTo_def depth_zero_def kMaxOrderbookLevels_def copy_levels_eq bids_of_def asks_of_def)
qed

lemma PushSnapshot_sound:
  assumes "book_inv b" "ob_channel_id b \<in> ids" "slots_sound ids shm"
  shows "slots_sound ids (PushSnapshot ck b ts shm)"
proof (cases "ResolveRithmicExchangeTimestamp (ck_system_us ck) ts (ob_bid_count b) (ob_ask_count b)")
  case (Some t)
  let ?e = "(SnapshotTo b depth_zero t)\<lparr>dep_local_diff := ck_steady_ns ck\<rparr>"
  have "depth_sound ids ?e" by (rule SnapshotTo_sound [OF assms(1,2)])
  then show ?thesis using assms(3) Some MTryPush_data [of depth_zero ?e "so_depth_queue shm"]
    by (auto simp: PushSnapshot_def slots_sound_def)
qed (use assms(3) in \<open>simp add: PushSnapshot_def\<close>)

section \<open>The books stay sound\<close>

lemma channel_frame [simp]:
  "ob_channel_id (ApplyImage qs a b) = ob_channel_id b" "ob_channel_id (BeginBatch b) = ob_channel_id b"
  "ob_channel_id (BufferLevel p q a b) = ob_channel_id b" "ob_channel_id (CancelBatch b) = ob_channel_id b"
  "ob_channel_id (Clear b) = ob_channel_id b" "ob_channel_id (ApplyLevel p q a b) = ob_channel_id b"
  "ob_channel_id (Unlock b) = ob_channel_id b"
  by (simp_all add: ApplyImage_def set_side_def BeginBatch_def BufferLevel_def CancelBatch_def Clear_def ApplyLevel_frame
      Unlock_def Let_def)

lemma reach_shape: "reach_book b \<Longrightarrow> book_shape b"
  using reach_book_inv by (simp add: book_inv_def)

lemma CommitBatch_channel [simp]: "reach_book b \<Longrightarrow> ob_channel_id (CommitBatch b) = ob_channel_id b"
  using CommitBatch_sides(7) [OF reach_shape] by blast

lemma apply_quotes_reach:
  "reach_book b \<Longrightarrow> quotes_ok qs \<Longrightarrow> reach_book (apply_quotes qs a b) \<and> ob_channel_id (apply_quotes qs a b) = ob_channel_id b"
proof (induction qs arbitrary: b)
  case (Cons q qs)
  obtain p sz where q: "q = (p, sz)" by fastforce
  have "\<not> is_nan p" "\<not> is_nan (double_of_int sz)" "quotes_ok qs"
    using Cons.prems(2) d_key_double_of_int(2) [of sz] by (auto simp: quotes_ok_def q)
  then show ?case using Cons.IH [of "ApplyLevel p (double_of_int sz) a b"] Cons.prems(1)
    by (simp add: apply_quotes_def q reach_book.level)
qed (simp add: apply_quotes_def)

text \<open>What a piece of work on a locked book must keep.\<close>
definition work_sound :: "u32 set \<Rightarrow> (RithmicOrderBook \<Rightarrow> shm_object \<Rightarrow> RithmicOrderBook \<times> shm_object) \<Rightarrow> bool" where
  "work_sound ids work \<longleftrightarrow> (\<forall>b shm. reach_book b \<and> ob_channel_id b \<in> ids \<and> slots_sound ids shm \<longrightarrow>
     reach_book (fst (work b shm)) \<and> ob_channel_id (fst (work b shm)) = ob_channel_id b \<and> slots_sound ids (snd (work b shm)))"

lemma quote_numbers: "quote_ok q \<Longrightarrow> \<not> is_nan (qi_price q) \<and> \<not> is_nan (quote_qty q)"
  using d_key_double_of_int(2) by (simp add: quote_ok_def quote_qty_def)

lemma buffer_quote_reach:
  "reach_book b \<Longrightarrow> quote_ok q \<Longrightarrow> reach_book (buffer_quote a q b) \<and> ob_channel_id (buffer_quote a q b) = ob_channel_id b"
  using quote_numbers [of q] by (simp add: buffer_quote_def reach_book.buffer)

lemma snapshot_sound:
  assumes "reach_book b'" "ob_channel_id b' = ob_channel_id b" "ob_channel_id b \<in> ids" "slots_sound ids shm"
  shows "slots_sound ids (PushSnapshot ck b' ts shm)"
  using PushSnapshot_sound [OF reach_book_inv [OF assms(1)] _ assms(4)] assms(2,3) by simp

lemma quote_work_sound:
  assumes "quote_ok q"
  shows "work_sound ids (quote_work a ck q)"
  unfolding work_sound_def
proof (intro allI impI)
  fix b shm
  assume h: "reach_book b \<and> ob_channel_id b \<in> ids \<and> slots_sound ids shm"
  note n = quote_numbers [OF assms]
  define b1 where "b1 = (if qi_price_flag q then ApplyLevel (qi_price q) (quote_qty q) a b else b)"
  have 1: "reach_book b1" "ob_channel_id b1 = ob_channel_id b" using h n by (simp_all add: b1_def reach_book.level)
  define b2 where "b2 = buffer_quote a q (BeginBatch (if ob_batch_active b then CancelBatch b else b))"
  have 2: "reach_book b2" "ob_channel_id b2 = ob_channel_id b"
    using buffer_quote_reach [OF _ assms, of "BeginBatch (if ob_batch_active b then CancelBatch b else b)" a] h
    by (simp_all add: b2_def reach_book.begin_batch reach_book.cancel)
  define b3 where "b3 = buffer_quote a q (if \<not> ob_batch_active b then BeginBatch b else b)"
  have 3: "reach_book b3" "ob_channel_id b3 = ob_channel_id b"
    using buffer_quote_reach [OF _ assms, of "if \<not> ob_batch_active b then BeginBatch b else b" a] h
    by (simp_all add: b3_def reach_book.begin_batch)
  define b4 where "b4 = CommitBatch (buffer_quote a q b)"
  have 4: "reach_book b4" "ob_channel_id b4 = ob_channel_id b"
    using buffer_quote_reach [OF _ assms, of b a] h by (simp_all add: b4_def reach_book.commit)
  have 5: "reach_book (Clear b)" using h by (simp add: reach_book.clear)
  have s: "slots_sound ids (PushSnapshot ck b' ts shm)" if "reach_book b'" "ob_channel_id b' = ob_channel_id b" for b' ts
    using snapshot_sound [OF that] h by blast
  show "reach_book (fst (quote_work a ck q b shm)) \<and> ob_channel_id (fst (quote_work a ck q b shm)) = ob_channel_id b
      \<and> slots_sound ids (snd (quote_work a ck q b shm))"
    using h 1 2 3 4 5 s unfolding quote_work_def Let_def b1_def [symmetric] b2_def [symmetric] b3_def [symmetric] b4_def [symmetric] by simp
qed

lemma limit_order_update_reach:
  assumes "callback_ok (CB_LimitOrderBook i)" "reach_book b"
  shows "reach_book (limit_order_update m i b) \<and> ob_channel_id (limit_order_update m i b) = ob_channel_id b"
proof (cases "lo_type i = kMdImageCb")
  case True
  then show ?thesis using assms by (simp add: limit_order_update_def reach_book.image)
next
  case False
  define k where "k = (if kMaxOrderbookLevels < unat m then kMaxOrderbookLevels else unat m)"
  have q: "quotes_ok (take k (lo_asks i))" "quotes_ok (take k (lo_bids i))"
    using assms(1) False by (auto simp: quotes_ok_def dest: in_set_takeD)
  note a = apply_quotes_reach [OF assms(2) q(1), of True]
  show ?thesis using apply_quotes_reach [OF conjunct1 [OF a] q(2), of False] a False
    by (simp add: limit_order_update_def k_def [symmetric])
qed

lemma LimitOrderBook_sound:
  assumes "callback_ok (CB_LimitOrderBook i)"
  shows "work_sound ids (\<lambda>book shm. let book1 = limit_order_update m i book in (book1, PushSnapshot ck book1 ts shm))"
  using limit_order_update_reach [OF assms] by (auto simp: work_sound_def Let_def intro: snapshot_sound)

lemma EndQuote_sound:
  "work_sound ids (\<lambda>book shm. if ob_batch_active book
     then let book1 = CommitBatch book in (book1, PushSnapshot ck book1 ts shm) else (book, shm))"
  by (auto simp: work_sound_def Let_def reach_book.commit intro!: snapshot_sound [OF reach_book.commit CommitBatch_channel])

section \<open>The invariant of the callbacks\<close>

abbreviation cb_ids :: "MyCallbacks \<Rightarrow> u32 set" where
  "cb_ids cb \<equiv> rcm_registered_ids (cb_channel_map cb)"

definition cb_inv :: "MyCallbacks \<Rightarrow> bool" where
  "cb_inv cb \<longleftrightarrow> length (cb_books cb) = kMaxBooks \<and> cb_book_count cb \<le> kMaxBooks
     \<and> (\<forall>b \<in> set (cb_books cb). reach_book b \<and> \<not> ob_lock b)
     \<and> (\<forall>c i. cb_channel_to_book cb c = Some i \<longrightarrow> i < cb_book_count cb \<and> ob_channel_id (cb_books cb ! i) = c \<and> c \<in> cb_ids cb)
     \<and> slots_sound (cb_ids cb) (cb_shm cb)"

lemma Init_terminated:
  assumes "terminated s" "length (ob_symbol b) = 12"
  shows "\<exists>b'. Init c (nc_memory s) b = Some b' \<and> ob_channel_id b' = c \<and> ob_lock b' = ob_lock b"
proof -
  let ?m = "nc_memory s"
  have "length (c_str ?m) < length ?m \<or> 11 \<le> length (c_str ?m)"
  proof (cases "NUL \<in> set ?m")
    case True
    then obtain a b where "?m = a @ NUL # b" "NUL \<notin> set a" using split_list_first [of NUL ?m] by blast
    then show ?thesis by (simp add: c_str_append_NUL)
  next
    case False
    then have "c_str ?m = ?m" by (rule c_str_id)
    then show ?thesis using False assms(1) by (simp add: terminated_def)
  qed
  then have "length (take 11 (c_str ?m)) = 11 \<or> length (take 11 (c_str ?m)) < length ?m" by auto
  then show ?thesis using assms(2) by (auto simp: Init_def copy_symbol_loop_0 Let_def)
qed

lemma Lookup_known: "RithmicChannelMap_Lookup m e t \<noteq> kNotFound \<Longrightarrow> RithmicChannelMap_Lookup m e t \<in> rcm_registered_ids m"
  by (simp add: RithmicChannelMap_Lookup_def Let_def split: if_splits)

lemma FindBook_inv:
  assumes "cb_inv cb" "terminated ticker"
  shows "\<exists>r cb'. FindBook exchange ticker cb = Some (r, cb') \<and> cb_inv cb' \<and> cb_channel_map cb' = cb_channel_map cb
    \<and> (\<forall>i. r = Some i \<longrightarrow> i < kMaxBooks \<and> ob_channel_id (cb_books cb' ! i) \<in> cb_ids cb)"
proof -
  let ?c = "RithmicChannelMap_Lookup (cb_channel_map cb) (ToSv exchange) (ToSv ticker)"
  consider "?c = kNotFound" | i where "?c \<noteq> kNotFound" "cb_channel_to_book cb ?c = Some i"
    | "?c \<noteq> kNotFound" "cb_channel_to_book cb ?c = None" "kMaxBooks \<le> cb_book_count cb"
    | "?c \<noteq> kNotFound" "cb_channel_to_book cb ?c = None" "cb_book_count cb < kMaxBooks" by fastforce
  then show ?thesis
  proof cases
    case (2 i)
    then have "i < kMaxBooks \<and> ob_channel_id (cb_books cb ! i) \<in> cb_ids cb" using assms(1) by (fastforce simp: cb_inv_def)
    then show ?thesis using 2 assms(1) by (simp add: FindBook_def Let_def)
  next
    case 4
    let ?n = "cb_book_count cb"
    have n: "cb_books cb ! ?n \<in> set (cb_books cb)" using assms(1) 4(3) by (simp add: cb_inv_def)
    then have old: "reach_book (cb_books cb ! ?n)" "\<not> ob_lock (cb_books cb ! ?n)" using assms(1) by (simp_all add: cb_inv_def)
    then have "length (ob_symbol (cb_books cb ! ?n)) = 12" using reach_shape by (simp add: book_shape_def)
    then obtain b' where b': "Init ?c (nc_memory ticker) (cb_books cb ! ?n) = Some b'" "ob_channel_id b' = ?c" "\<not> ob_lock b'"
      using Init_terminated [OF assms(2)] old(2) by metis
    have r: "reach_book b'" using reach_book.init [OF old(1) b'(1)] .
    let ?cb = "cb\<lparr>cb_books := (cb_books cb)[?n := b'], cb_channel_to_book := (cb_channel_to_book cb)(?c \<mapsto> ?n), cb_book_count := Suc ?n\<rparr>"
    have "cb_inv ?cb" using assms(1) 4 b' r Lookup_known [OF 4(1)] unfolding cb_inv_def
      by (auto simp: nth_list_update less_Suc_eq dest!: subsetD [OF set_update_subset_insert])
    moreover have "FindBook exchange ticker cb = Some (Some ?n, ?cb)" using 4 b'(1) by (simp add: FindBook_def Let_def)
    moreover have "ob_channel_id (cb_books ?cb ! ?n) \<in> cb_ids cb" using 4 b'(2) assms(1) Lookup_known [OF 4(1)] by (simp add: cb_inv_def)
    ultimately show ?thesis using 4(3) by auto
  qed (use assms(1) in \<open>simp_all add: FindBook_def Let_def\<close>)
qed

lemma with_book_inv:
  assumes "cb_inv cb" "terminated ticker" "work_sound (cb_ids cb) work"
  shows "\<exists>cb'. with_book exchange ticker work cb = Some cb' \<and> cb_inv cb' \<and> cb_channel_map cb' = cb_channel_map cb"
proof -
  obtain r cb1 where f: "FindBook exchange ticker cb = Some (r, cb1)" "cb_inv cb1" "cb_channel_map cb1 = cb_channel_map cb"
    "\<And>i. r = Some i \<Longrightarrow> i < kMaxBooks \<and> ob_channel_id (cb_books cb1 ! i) \<in> cb_ids cb"
    using FindBook_inv [OF assms(1,2)] by blast
  show ?thesis
  proof (cases r)
    case None
    then show ?thesis using f by (simp add: with_book_def)
  next
    case (Some i)
    let ?b = "cb_books cb1 ! i"
    have "?b \<in> set (cb_books cb1)" using f(2,4) Some by (simp add: cb_inv_def)
    then have b: "reach_book ?b" "\<not> ob_lock ?b" using f(2) by (simp_all add: cb_inv_def)
    then have l: "Lock ?b = Some (?b\<lparr>ob_lock := True\<rparr>)" by (simp add: Lock_def)
    have "reach_book (?b\<lparr>ob_lock := True\<rparr>)" using reach_book.lock [OF b(1) l] .
    then obtain b2 shm2 where w: "work (?b\<lparr>ob_lock := True\<rparr>) (cb_shm cb1) = (b2, shm2)" "reach_book b2"
      "ob_channel_id b2 = ob_channel_id ?b" "slots_sound (cb_ids cb) shm2"
      using assms(3) f(2,3) f(4) [OF Some] unfolding work_sound_def cb_inv_def
      by (cases "work (?b\<lparr>ob_lock := True\<rparr>) (cb_shm cb1)") (auto dest!: spec [of _ "?b\<lparr>ob_lock := True\<rparr>"] spec [of _ "cb_shm cb1"])
    let ?cb = "cb1\<lparr>cb_books := (cb_books cb1)[i := Unlock b2], cb_shm := shm2\<rparr>"
    have "\<not> ob_lock (Unlock b2)" "reach_book (Unlock b2)" using reach_book.unlock [OF w(2)] by (simp_all add: Unlock_def)
    moreover have "ob_channel_id ((cb_books cb1)[i := Unlock b2] ! j) = ob_channel_id (cb_books cb1 ! j)" for j
      using f(2) f(4) [OF Some] w(3) by (cases "i = j") (simp_all add: cb_inv_def)
    ultimately have "cb_inv ?cb" using f(2,3) w(4) unfolding cb_inv_def
      by (auto dest!: subsetD [OF set_update_subset_insert])
    then show ?thesis using f(1,3) Some l w(1) by (simp add: with_book_def)
  qed
qed

lemma run_callback_inv:
  assumes "cb_inv cb" "callback_ok c"
  shows "\<exists>cb'. run_callback ck c cb = Some cb' \<and> cb_inv cb' \<and> cb_channel_map cb' = cb_channel_map cb"
proof -
  have tick: "\<exists>cb'. TradePrint ck i cb = Some cb' \<and> cb_inv cb' \<and> cb_channel_map cb' = cb_channel_map cb" for i
  proof (cases "RithmicChannelMap_Lookup (cb_channel_map cb) (ToSv (ti_exchange i)) (ToSv (ti_ticker i)) = kNotFound")
    case False
    have l: "length (tick_symbol tick_zero) = 12" by (simp add: tick_zero_def symbol_zero_def)
    show ?thesis using assms(1) False Lookup_known [OF False] CopySymbol_gateway_length [OF l]
      by (auto simp: TradePrint_def Let_def cb_inv_def slots_sound_def tick_wf_def dest!: subsetD [OF MTryPush_data])
  qed (use assms(1) in \<open>simp add: TradePrint_def\<close>)
  have best: "\<exists>cb'. BestBidAskQuote ck b a cb = Some cb' \<and> cb_inv cb' \<and> cb_channel_map cb' = cb_channel_map cb" for b a
  proof (cases "RithmicChannelMap_Lookup (cb_channel_map cb) (ToSv (qi_exchange b)) (ToSv (qi_ticker b)) = kNotFound")
    case False
    have l: "length (bt_symbol book_ticker_zero) = 12" by (simp add: book_ticker_zero_def symbol_zero_def)
    show ?thesis using assms(1) False Lookup_known [OF False] CopySymbol_gateway_length [OF l]
      by (auto simp: BestBidAskQuote_def Let_def cb_inv_def slots_sound_def book_ticker_wf_def dest!: subsetD [OF MTryPush_data])
  qed (use assms(1) in \<open>simp add: BestBidAskQuote_def\<close>)
  show ?thesis
  proof (cases c)
    case (CB_LimitOrderBook i)
    then show ?thesis using with_book_inv [OF assms(1) _ LimitOrderBook_sound] assms(2) by (simp add: LimitOrderBook_def)
  next
    case (CB_Ask q)
    then show ?thesis using with_book_inv [OF assms(1) _ quote_work_sound] assms(2) by (simp add: AskQuote_def quote_ok_def)
  next
    case (CB_Bid q)
    then show ?thesis using with_book_inv [OF assms(1) _ quote_work_sound] assms(2) by (simp add: BidQuote_def quote_ok_def)
  next
    case (CB_EndQuote i)
    then show ?thesis using with_book_inv [OF assms(1) _ EndQuote_sound] assms(2) by (simp add: EndQuote_def)
  qed (use tick best assms(1) in \<open>simp_all add: TradeCondition_def\<close>)
qed

lemma run_callbacks_inv:
  "cb_inv cb \<Longrightarrow> \<forall>(ck, c) \<in> set cs. callback_ok c \<Longrightarrow>
     \<exists>cb'. run_callbacks cs cb = Some cb' \<and> cb_inv cb' \<and> cb_channel_map cb' = cb_channel_map cb"
proof (induction cs arbitrary: cb)
  case (Cons x cs)
  obtain ck c where x: "x = (ck, c)" by fastforce
  then obtain cb1 where "run_callback ck c cb = Some cb1" "cb_inv cb1" "cb_channel_map cb1 = cb_channel_map cb"
    using run_callback_inv [OF Cons.prems(1), of c ck] Cons.prems(2) by auto
  then show ?case using Cons.IH [of cb1] Cons.prems(2) x by simp
qed simp

lemma slots_sound_new: "slots_sound ids (construct_queues shm)"
  by (auto simp: slots_sound_def construct_queues_def MpscQueue_new_def)

text \<open>
  C8: The gateway writes only sound events. Whatever well-formed callbacks arrive in whatever order,
  every one of them returns, with no read past a buffer and no book left locked, and every slot of the
  three shared-memory queues holds either a zeroed event or an event of a subscribed channel with a
  proper symbol field; depth events have at most 100 levels per side, strictly sorted by price with
  positive quantities.
\<close>
theorem gateway_events_sound:
  assumes "\<forall>(ck, c) \<in> set cs. callback_ok c"
  shows "\<exists>cb. run_callbacks cs (MyCallbacks_new (construct_queues shm) channel_map m) = Some cb
    \<and> (\<forall>b \<in> set (cb_books cb). \<not> ob_lock b)
    \<and> (\<forall>t \<in> set (mq_data (so_tick_queue (cb_shm cb))). t = tick_zero \<or> tick_channel_id t \<in> rcm_registered_ids channel_map \<and> tick_wf t)
    \<and> (\<forall>e \<in> set (mq_data (so_depth_queue (cb_shm cb))). e = depth_zero \<or> dep_channel_id e \<in> rcm_registered_ids channel_map \<and> depth_wf e
         \<and> side_ok False (take (dep_bid_count e) (dep_bids e)) \<and> side_ok True (take (dep_ask_count e) (dep_asks e)))
    \<and> (\<forall>b \<in> set (mq_data (so_book_ticker_queue (cb_shm cb))). b = book_ticker_zero
         \<or> bt_channel_id b \<in> rcm_registered_ids channel_map \<and> book_ticker_wf b)"
proof -
  let ?cb = "MyCallbacks_new (construct_queues shm) channel_map m"
  have "\<not> ob_lock book_zero" by (simp add: book_zero_def)
  then have inv: "cb_inv ?cb" using slots_sound_new reach_book.start by (auto simp: cb_inv_def MyCallbacks_new_def)
  have m: "cb_channel_map ?cb = channel_map" by (simp add: MyCallbacks_new_def)
  obtain cb where "run_callbacks cs ?cb = Some cb" "cb_inv cb" "cb_channel_map cb = channel_map"
    using run_callbacks_inv [OF inv assms] unfolding m by blast
  then show ?thesis by (auto simp: cb_inv_def slots_sound_def depth_sound_def)
qed

section \<open>Batches of quotes\<close>

text \<open>A quote of one side as a callback, and the level it stands for.\<close>
definition quote_event :: "clocks \<times> bool \<times> QuoteInfo \<Rightarrow> clocks \<times> callback" where
  "quote_event = (\<lambda>(ck, is_ask, q). (ck, if is_ask then CB_Ask q else CB_Bid q))"

definition quote_level :: "clocks \<times> bool \<times> QuoteInfo \<Rightarrow> PriceLevel \<times> bool" where
  "quote_level = (\<lambda>(ck, is_ask, q). (\<lparr>lvl_price = qi_price q, lvl_quantity = quote_qty q\<rparr>, is_ask))"

text \<open>The quote is for the book in slot \<open>i\<close>, carries a price and has the given update type.\<close>
definition quote_for :: "nat \<Rightarrow> int \<Rightarrow> MyCallbacks \<Rightarrow> clocks \<times> bool \<times> QuoteInfo \<Rightarrow> bool" where
  "quote_for i ty cb = (\<lambda>(ck, is_ask, q).
     let c = RithmicChannelMap_Lookup (cb_channel_map cb) (ToSv (qi_exchange q)) (ToSv (qi_ticker q))
     in c \<noteq> kNotFound \<and> cb_channel_to_book cb c = Some i \<and> qi_price_flag q \<and> qi_update_type q = ty)"

lemma relock [simp]: "\<not> ob_lock b \<Longrightarrow> Unlock (b\<lparr>ob_lock := True\<rparr>) = b"
  by (cases b) (simp add: Unlock_def)

lemma lock_commutes [simp]:
  "BufferLevel p q a (b\<lparr>ob_lock := l\<rparr>) = (BufferLevel p q a b)\<lparr>ob_lock := l\<rparr>"
  "BeginBatch (b\<lparr>ob_lock := l\<rparr>) = (BeginBatch b)\<lparr>ob_lock := l\<rparr>" "BeginBatch (CancelBatch b) = BeginBatch b"
  "ob_lock (BufferLevel p q a b) = ob_lock b" "ob_lock (BeginBatch b) = ob_lock b" "ob_batch_active (BufferLevel p q a b) = ob_batch_active b"
  by (simp_all add: BufferLevel_def BeginBatch_def CancelBatch_def Let_def)

lemma lock_irrelevant [simp]:
  "bids_of (b\<lparr>ob_lock := l\<rparr>) = bids_of b" "asks_of (b\<lparr>ob_lock := l\<rparr>) = asks_of b"
  "pending_bids_of (b\<lparr>ob_lock := l\<rparr>) = pending_bids_of b" "pending_asks_of (b\<lparr>ob_lock := l\<rparr>) = pending_asks_of b"
  "book_shape (b\<lparr>ob_lock := l\<rparr>) = book_shape b"
  by (simp_all add: book_defs book_shape_def)

lemma quote_found:
  assumes "quote_for i ty cb (ck, a, q)" "\<not> ob_lock (cb_books cb ! i)"
    "quote_work a ck q ((cb_books cb ! i)\<lparr>ob_lock := True\<rparr>) (cb_shm cb) = (b2, shm2)"
  shows "run_callback ck (if a then CB_Ask q else CB_Bid q) cb = Some (cb\<lparr>cb_books := (cb_books cb)[i := Unlock b2], cb_shm := shm2\<rparr>)"
proof -
  have f: "FindBook (qi_exchange q) (qi_ticker q) cb = Some (Some i, cb)" using assms(1) by (simp add: quote_for_def FindBook_def Let_def)
  have "with_book (qi_exchange q) (qi_ticker q) (quote_work a ck q) cb = Some (cb\<lparr>cb_books := (cb_books cb)[i := Unlock b2], cb_shm := shm2\<rparr>)"
    using f assms(2,3) by (simp add: with_book_def Lock_def)
  then show ?thesis by (cases a) (simp_all add: AskQuote_def BidQuote_def)
qed

lemma same_shm: "cb\<lparr>cb_books := bs, cb_shm := cb_shm cb\<rparr> = cb\<lparr>cb_books := bs\<rparr>"
  by (cases cb) simp

lemma begin_step:
  assumes "quote_for i kUpdateTypeBegin cb x" "\<not> ob_lock (cb_books cb ! i)"
  shows "run_callbacks [quote_event x] cb = Some (cb\<lparr>cb_books := (cb_books cb)[i := buffer_levels [quote_level x] (BeginBatch (cb_books cb ! i))]\<rparr>)"
proof -
  obtain ck a q where x: "x = (ck, a, q)" by (cases x) auto
  let ?b = "cb_books cb ! i"
  have w: "quote_work a ck q (?b\<lparr>ob_lock := True\<rparr>) (cb_shm cb) = ((BufferLevel (qi_price q) (quote_qty q) a (BeginBatch ?b))\<lparr>ob_lock := True\<rparr>, cb_shm cb)"
    using assms(1) by (simp add: x quote_for_def quote_work_def buffer_quote_def update_types Let_def)
  show ?thesis using quote_found [OF assms(1) [unfolded x] assms(2) w] assms(2)
    by (simp add: x quote_event_def quote_level_def same_shm)
qed

lemma middle_steps:
  "i < length (cb_books cb) \<Longrightarrow> \<forall>x \<in> set xs. quote_for i kUpdateTypeMiddle cb x \<Longrightarrow> \<not> ob_lock (cb_books cb ! i) \<Longrightarrow> ob_batch_active (cb_books cb ! i) \<Longrightarrow>
   run_callbacks (map quote_event xs) cb = Some (cb\<lparr>cb_books := (cb_books cb)[i := buffer_levels (map quote_level xs) (cb_books cb ! i)]\<rparr>)"
proof (induction xs arbitrary: cb)
  case Nil
  then show ?case by (cases cb) simp
next
  case (Cons x xs)
  obtain ck a q where x: "x = (ck, a, q)" by (cases x) auto
  let ?b = "cb_books cb ! i"
  let ?b1 = "BufferLevel (qi_price q) (quote_qty q) a ?b"
  let ?cb = "cb\<lparr>cb_books := (cb_books cb)[i := ?b1]\<rparr>"
  have q: "quote_for i kUpdateTypeMiddle cb (ck, a, q)" using Cons.prems(2) x by simp
  then have w: "quote_work a ck q (?b\<lparr>ob_lock := True\<rparr>) (cb_shm cb) = (?b1\<lparr>ob_lock := True\<rparr>, cb_shm cb)"
    using Cons.prems(4) by (simp add: quote_for_def quote_work_def buffer_quote_def update_types Let_def)
  have "Unlock (?b1\<lparr>ob_lock := True\<rparr>) = ?b1" using Cons.prems(3) by simp
  then have 1: "run_callback ck (if a then CB_Ask q else CB_Bid q) cb = Some ?cb"
    using quote_found [OF q Cons.prems(3) w] by (simp only: same_shm)
  have 2: "run_callbacks (map quote_event xs) ?cb = Some (?cb\<lparr>cb_books := (cb_books ?cb)[i := buffer_levels (map quote_level xs) (cb_books ?cb ! i)]\<rparr>)"
    by (rule Cons.IH) (use Cons.prems in \<open>simp_all add: quote_for_def\<close>)
  have "cb_books ?cb ! i = ?b1" using Cons.prems(1) by simp
  with 1 2 have "run_callbacks (map quote_event (x # xs)) cb = Some (?cb\<lparr>cb_books := (cb_books ?cb)[i := buffer_levels (map quote_level xs) ?b1]\<rparr>)"
    by (simp only: x list.map quote_event_def prod.case run_callbacks.simps bind.bind_lunit)
  moreover have "buffer_levels (map quote_level (x # xs)) ?b = buffer_levels (map quote_level xs) ?b1" by (simp add: x quote_level_def)
  ultimately show ?case by simp
qed

lemma buffer_levels_lock: "ob_lock (buffer_levels us b) = ob_lock b"
proof (induction us arbitrary: b)
  case (Cons u us)
  then show ?case by (cases u) simp
qed simp

lemma buffer_levels_channel [simp]: "ob_channel_id (buffer_levels us b) = ob_channel_id b"
proof (induction us arbitrary: b)
  case (Cons u us)
  then show ?case by (cases u) simp
qed simp

lemma run_callbacks_append: "run_callbacks (xs @ ys) cb = Option.bind (run_callbacks xs cb) (run_callbacks ys)"
  by (induction xs cb rule: run_callbacks.induct) (auto split: Option.bind_splits)

lemma batch_open:
  assumes "i < length (cb_books cb)" "quote_for i kUpdateTypeBegin cb x" "\<forall>y \<in> set ys. quote_for i kUpdateTypeMiddle cb y"
    "\<not> ob_lock (cb_books cb ! i)"
  shows "run_callbacks (map quote_event (x # ys)) cb
    = Some (cb\<lparr>cb_books := (cb_books cb)[i := buffer_levels (map quote_level (x # ys)) (BeginBatch (cb_books cb ! i))]\<rparr>)"
proof -
  let ?b = "buffer_levels [quote_level x] (BeginBatch (cb_books cb ! i))"
  let ?cb = "cb\<lparr>cb_books := (cb_books cb)[i := ?b]\<rparr>"
  have "ob_batch_active ?b" "\<not> ob_lock ?b" using assms(4) by (cases "quote_level x"; simp add: BeginBatch_simps)+
  then have "run_callbacks (map quote_event ys) ?cb = Some (?cb\<lparr>cb_books := (cb_books ?cb)[i := buffer_levels (map quote_level ys) (cb_books ?cb ! i)]\<rparr>)"
    using assms(1,3) by (intro middle_steps) (simp_all add: quote_for_def)
  moreover have "run_callbacks (map quote_event (x # ys)) cb = Option.bind (run_callbacks [quote_event x] cb) (run_callbacks (map quote_event ys))"
    using run_callbacks_append [of "[quote_event x]" "map quote_event ys"] by simp
  moreover have "buffer_levels (map quote_level ys) ?b = buffer_levels (map quote_level (x # ys)) (BeginBatch (cb_books cb ! i))"
    by (simp add: buffer_levels_def)
  ultimately show ?thesis using begin_step [OF assms(2,4)] assms(1) by simp
qed

lemma PushSnapshot_room:
  assumes "mq_inv (so_depth_queue shm)" "length (mq_items (so_depth_queue shm)) < mq_capacity (so_depth_queue shm)" "ts \<noteq> 0"
  shows "mq_items (so_depth_queue (PushSnapshot ck b ts shm))
    = mq_items (so_depth_queue shm) @ [(SnapshotTo b depth_zero ts)\<lparr>dep_local_diff := ck_steady_ns ck\<rparr>]"
  using mpsc.push_room [OF assms(1,2), of depth_zero "(SnapshotTo b depth_zero ts)\<lparr>dep_local_diff := ck_steady_ns ck\<rparr>"] assms(3)
  by (auto simp: PushSnapshot_def ResolveRithmicExchangeTimestamp_def)

lemma SnapshotTo_live:
  assumes "book_shape b"
  shows "take (dep_bid_count (SnapshotTo b depth_zero ts)) (dep_bids (SnapshotTo b depth_zero ts)) = bids_of b"
    "take (dep_ask_count (SnapshotTo b depth_zero ts)) (dep_asks (SnapshotTo b depth_zero ts)) = asks_of b"
    "dep_channel_id (SnapshotTo b depth_zero ts) = ob_channel_id b"
  using assms by (simp_all add: SnapshotTo_def depth_zero_def book_shape_def copy_levels_eq bids_of_def asks_of_def)

text \<open>
  C15: A batch of quotes reaches the collector as one event. When the API sends the quotes of a batch,
  bids and asks in any order, marked begin, middle and end, nothing is pushed before the last of them;
  then exactly one depth event is queued, and its sides are those of the book before the batch with the
  first 100 bids and the first 100 asks of the batch applied in their order of arrival.
\<close>
theorem quote_batch_one_event:
  assumes "cb_inv cb" "quote_for i kUpdateTypeBegin cb x" "\<forall>y \<in> set ys. quote_for i kUpdateTypeMiddle cb y"
    "quote_for i kUpdateTypeEnd cb (ck, a, q)" "ToEpochMicros (qi_ssboe q) (qi_usecs q) \<noteq> 0"
    "mq_inv (so_depth_queue (cb_shm cb))" "length (mq_items (so_depth_queue (cb_shm cb))) < mq_capacity (so_depth_queue (cb_shm cb))"
  shows "\<exists>cb1 cb2 e us. us = map quote_level (x # ys @ [(ck, a, q)])
    \<and> run_callbacks (map quote_event (x # ys)) cb = Some cb1 \<and> cb_shm cb1 = cb_shm cb
    \<and> run_callbacks [quote_event (ck, a, q)] cb1 = Some cb2
    \<and> mq_items (so_depth_queue (cb_shm cb2)) = mq_items (so_depth_queue (cb_shm cb)) @ [e]
    \<and> take (dep_bid_count e) (dep_bids e) = update_levels False (take kMaxOrderbookLevels [u. (u, s) \<leftarrow> us, \<not> s]) (bids_of (cb_books cb ! i))
    \<and> take (dep_ask_count e) (dep_asks e) = update_levels True (take kMaxOrderbookLevels [u. (u, s) \<leftarrow> us, s]) (asks_of (cb_books cb ! i))
    \<and> dep_channel_id e = ob_channel_id (cb_books cb ! i)"
proof -
  let ?b = "cb_books cb ! i" and ?us = "map quote_level (x # ys @ [(ck, a, q)])" and ?ts = "ToEpochMicros (qi_ssboe q) (qi_usecs q)"
  have i: "i < length (cb_books cb)" using assms(1,4) by (fastforce simp: quote_for_def Let_def cb_inv_def)
  then have "?b \<in> set (cb_books cb)" by simp
  then have b: "\<not> ob_lock ?b" "book_shape ?b" using assms(1) reach_shape by (auto simp: cb_inv_def)
  define b1 where "b1 = buffer_levels (map quote_level (x # ys)) (BeginBatch ?b)"
  define cb1 where "cb1 = cb\<lparr>cb_books := (cb_books cb)[i := b1]\<rparr>"
  have r1: "run_callbacks (map quote_event (x # ys)) cb = Some cb1"
    unfolding cb1_def b1_def by (rule batch_open [OF i assms(2,3) b(1)])
  have l1: "\<not> ob_lock b1" unfolding b1_def by (simp only: buffer_levels_lock) (simp add: b(1))
  define b2 where "b2 = CommitBatch ((BufferLevel (qi_price q) (quote_qty q) a b1)\<lparr>ob_lock := True\<rparr>)"
  have w: "quote_work a ck q ((cb_books cb1 ! i)\<lparr>ob_lock := True\<rparr>) (cb_shm cb1) = (b2, PushSnapshot ck b2 ?ts (cb_shm cb))"
    using assms(4) i by (simp add: quote_for_def quote_work_def buffer_quote_def update_types Let_def cb1_def b2_def)
  define cb2 where "cb2 = cb1\<lparr>cb_books := (cb_books cb1)[i := Unlock b2], cb_shm := PushSnapshot ck b2 ?ts (cb_shm cb)\<rparr>"
  have r2: "run_callbacks [quote_event (ck, a, q)] cb1 = Some cb2"
    using quote_found [OF _ _ w] assms(4) l1 i by (simp add: quote_event_def cb1_def cb2_def quote_for_def)
  have b2: "b2 = CommitBatch ((buffer_levels ?us (BeginBatch ?b))\<lparr>ob_lock := True\<rparr>)"
    by (simp add: b2_def b1_def buffer_levels_def quote_level_def)
  have sh: "book_shape (BeginBatch ?b)" using b(2) by (simp add: BeginBatch_simps)
  note pend = buffer_levels_pending [OF sh, of ?us]
  have "book_shape ((buffer_levels ?us (BeginBatch ?b))\<lparr>ob_lock := True\<rparr>)" using pend(5) by (simp only: lock_irrelevant)
  note sides = CommitBatch_sides [OF this, folded b2, unfolded lock_irrelevant pend(1-4) BeginBatch_simps append_Nil]
  let ?e = "(SnapshotTo b2 depth_zero ?ts)\<lparr>dep_local_diff := ck_steady_ns ck\<rparr>"
  have ch: "ob_channel_id b2 = ob_channel_id ?b" using sides(7) buffer_levels_channel by simp
  have "mq_items (so_depth_queue (cb_shm cb2)) = mq_items (so_depth_queue (cb_shm cb)) @ [?e]"
    using PushSnapshot_room [OF assms(6,7,5)] by (simp add: cb2_def)
  moreover have "take (dep_bid_count ?e) (dep_bids ?e) = bids_of b2" "take (dep_ask_count ?e) (dep_asks ?e) = asks_of b2" "dep_channel_id ?e = ob_channel_id ?b"
    using SnapshotTo_live [OF sides(5), of ?ts] ch by simp_all
  moreover have "cb_shm cb1 = cb_shm cb" by (simp add: cb1_def)
  ultimately show ?thesis using r1 r2 unfolding sides(1,2) by blast
qed

section \<open>Examples\<close>

definition sample_text :: "string \<Rightarrow> nchar" where
  "sample_text t = \<lparr>nc_data = Some t, nc_rest = [NUL]\<rparr>"

definition sample_map :: RithmicChannelMap where
  "sample_map = RithmicChannelMap_Register ''CME'' ''ES'' (ComputeChannelId ''CME'' ''futures'' ''ES'') True RithmicChannelMap_new"

definition sample_quote :: "int \<Rightarrow> QuoteInfo" where
  "sample_quote ty = \<lparr>qi_exchange = sample_text ''CME'', qi_ticker = sample_text ''ES'', qi_ssboe = 1, qi_usecs = 0,
     qi_update_type = ty, qi_price_flag = True, qi_price = double_of_int 100, qi_size_flag = True, qi_size = 7\<rparr>"

definition sample_clocks :: clocks where
  "sample_clocks = \<lparr>ck_system_us = 5, ck_steady_ns = 6\<rparr>"

lemma sample_lookup:
  "RithmicChannelMap_Lookup sample_map ''CME'' ''ES'' = ComputeChannelId ''CME'' ''futures'' ''ES''"
  "ComputeChannelId ''CME'' ''futures'' ''ES'' \<noteq> kNotFound"
  by (simp add: sample_map_def RithmicChannelMap_Lookup_def RithmicChannelMap_Register_def Let_def) code_simp

lemma sample_quote_ok: "quote_ok (sample_quote ty)" "ToSv (sample_text ''CME'') = ''CME''" "ToSv (sample_text ''ES'') = ''ES''"
  using d_key_double_of_int(2) [of 100]
  by (simp_all add: quote_ok_def sample_quote_def sample_text_def terminated_def nc_memory_def ToSv_def)

theorem gateway_events_sound_witness:
  "\<exists>cb. run_callbacks [(sample_clocks, CB_Ask (sample_quote kUpdateTypeSolo))] (MyCallbacks_new (construct_queues (shm_zero 1)) sample_map 10) = Some cb
     \<and> (\<forall>b \<in> set (cb_books cb). \<not> ob_lock b)"
  using gateway_events_sound [of "[(sample_clocks, CB_Ask (sample_quote kUpdateTypeSolo))]" "shm_zero 1" sample_map 10] sample_quote_ok
  by auto

lemma sample_book:
  "\<exists>cb. FindBook (sample_text ''CME'') (sample_text ''ES'') (MyCallbacks_new (construct_queues (shm_zero 1)) sample_map 10) = Some (Some 0, cb)
     \<and> cb_inv cb \<and> cb_channel_map cb = sample_map \<and> cb_channel_to_book cb (ComputeChannelId ''CME'' ''futures'' ''ES'') = Some 0
     \<and> cb_shm cb = construct_queues (shm_zero 1)"
proof -
  let ?cb = "MyCallbacks_new (construct_queues (shm_zero 1)) sample_map 10"
  have "cb_inv ?cb" using slots_sound_new reach_book.start by (auto simp: cb_inv_def MyCallbacks_new_def book_zero_def)
  moreover have "terminated (sample_text ''ES'')" by (simp add: terminated_def sample_text_def nc_memory_def)
  ultimately obtain r cb where f: "FindBook (sample_text ''CME'') (sample_text ''ES'') ?cb = Some (r, cb)" "cb_inv cb" "cb_channel_map cb = sample_map"
    using FindBook_inv [of ?cb "sample_text ''ES''" "sample_text ''CME''"] by (auto simp: MyCallbacks_new_def)
  then show ?thesis using sample_lookup sample_quote_ok(2,3)
    by (auto simp: FindBook_def Let_def MyCallbacks_new_def kMaxBooks_def)
qed

theorem quote_batch_one_event_witness:
  "\<exists>cb cb1 cb2 e. run_callbacks [quote_event (sample_clocks, False, sample_quote kUpdateTypeBegin)] cb = Some cb1 \<and> cb_shm cb1 = cb_shm cb
     \<and> run_callbacks [quote_event (sample_clocks, True, sample_quote kUpdateTypeEnd)] cb1 = Some cb2
     \<and> mq_items (so_depth_queue (cb_shm cb2)) = [e]"
proof -
  obtain cb where cb: "cb_inv cb" "cb_channel_map cb = sample_map" "cb_channel_to_book cb (ComputeChannelId ''CME'' ''futures'' ''ES'') = Some 0"
    "cb_shm cb = construct_queues (shm_zero 1)" using sample_book by blast
  have q: "quote_for 0 ty cb (sample_clocks, a, sample_quote ty)" for ty a
    using cb(2,3) sample_lookup sample_quote_ok(2,3) by (simp add: quote_for_def sample_quote_def)
  have e: "mq_inv (so_depth_queue (cb_shm cb))" "mq_items (so_depth_queue (cb_shm cb)) = []"
    using construct_queues_ok [of "shm_zero 1"] cb(4) by (simp_all add: shm_ok_def shm_events_def)
  have "ToEpochMicros (qi_ssboe (sample_quote kUpdateTypeEnd)) (qi_usecs (sample_quote kUpdateTypeEnd)) \<noteq> 0"
    by (simp add: sample_quote_def ToEpochMicros_def)
  moreover have "0 < mq_capacity (so_depth_queue (cb_shm cb))" using e(1) by (simp add: mq_inv_def)
  ultimately show ?thesis
    using quote_batch_one_event [OF cb(1) q [of kUpdateTypeBegin False], of "[]" sample_clocks True "sample_quote kUpdateTypeEnd"] q e
    by auto
qed

text \<open>
  The book of a padded ticker keeps the padding: \<open>Init\<close> reads from the data pointer up to the
  terminator, not the trimmed text that trades carry.
\<close>
theorem book_symbol_untrimmed:
  "map_option (\<lambda>b. c_str (ob_symbol b)) (Init 1 (nc_memory (sample_text ''ES  '')) book_zero) = Some ''ES  ''
   \<and> c_str (CopySymbol_gateway symbol_zero (ToSv (sample_text ''ES  ''))) = ''ES''"
  by code_simp

text \<open>The ninth subscribed symbol gets no book: its depth updates are dropped.\<close>
theorem ninth_book_refused:
  assumes "cb_book_count cb = kMaxBooks"
    "cb_channel_to_book cb (RithmicChannelMap_Lookup (cb_channel_map cb) (ToSv exchange) (ToSv ticker)) = None"
  shows "with_book exchange ticker work cb = Some cb"
  using assms by (simp add: with_book_def FindBook_def Let_def)

end
