(* ===== verification/Rithmic_Gateway.thy ===== *)
theory Rithmic_Gateway
  imports Rithmic_Process Rithmic_Callbacks
begin

text \<open>
  The gateway process outside the market data callbacks: the login callbacks of
  \<open>src/rithmic_gateway/rithmic_callbacks.cpp\<close>, the connection sequence of
  \<open>src/rithmic_gateway/rithmic_engine.cpp\<close> and \<open>src/rithmic_gateway/main.cpp\<close>. The trading API is an
  argument: the results of its calls and the notifications it delivers while the code waits. A wait
  that the delivered notifications do not end is \<open>None\<close>. The code's calls to the API are recorded in
  order, each with the login state at that moment.
\<close>

section \<open>Login state\<close>

definition LoginStatus_NotLoggedIn :: int where "LoginStatus_NotLoggedIn = 0"
definition LoginStatus_AwaitingResults :: int where "LoginStatus_AwaitingResults = 1"
definition LoginStatus_Failed :: int where "LoginStatus_Failed = 2"
definition LoginStatus_Complete :: int where "LoginStatus_Complete = 3"

record login_state =
  g_iRepLoginStatus :: int
  g_iMdLoginStatus :: int
  g_bRcvdUnacceptedAgreements :: bool
  g_iUnacceptedMandatoryAgreements :: nat

definition login_start :: login_state where
  "login_start = \<lparr>g_iRepLoginStatus = LoginStatus_NotLoggedIn, g_iMdLoginStatus = LoginStatus_NotLoggedIn,
     g_bRcvdUnacceptedAgreements = False, g_iUnacceptedMandatoryAgreements = 0\<rparr>"

datatype connection = REPOSITORY_CONNECTION_ID | MARKET_DATA_CONNECTION_ID | OtherConnection

datatype alert = ALERT_LOGIN_COMPLETE | ALERT_LOGIN_FAILED | ALERT_CONNECTION_BROKEN | OtherAlert

text \<open>A notification: an alert, or a list of agreements with their status and whether they are mandatory.\<close>
datatype notification = NAlert connection alert | NAgreements bool "(string \<times> bool) list"

definition alert_status :: "alert \<Rightarrow> int \<Rightarrow> int" where
  "alert_status a old =
     (if a = ALERT_LOGIN_COMPLETE then LoginStatus_Complete
      else if a = ALERT_LOGIN_FAILED \<or> a = ALERT_CONNECTION_BROKEN then LoginStatus_Failed else old)"

definition Alert :: "connection \<Rightarrow> alert \<Rightarrow> login_state \<Rightarrow> login_state" where
  "Alert conn a st0 =
     (let st = (if conn = REPOSITORY_CONNECTION_ID
                then st0\<lparr>g_iRepLoginStatus := alert_status a (g_iRepLoginStatus st0)\<rparr> else st0)
      in if conn = MARKET_DATA_CONNECTION_ID
         then st\<lparr>g_iMdLoginStatus := alert_status a (g_iMdLoginStatus st)\<rparr> else st)"

definition AgreementList :: "bool \<Rightarrow> (string \<times> bool) list \<Rightarrow> login_state \<Rightarrow> login_state" where
  "AgreementList bAccepted agreements st =
     (if \<not> bAccepted
      then st\<lparr>g_iUnacceptedMandatoryAgreements := fold (\<lambda>(status, mandatory) n. if status = ''active'' \<and> mandatory then n + 1 else n)
                 agreements (g_iUnacceptedMandatoryAgreements st),
              g_bRcvdUnacceptedAgreements := True\<rparr>
      else st)"

fun notify :: "notification \<Rightarrow> login_state \<Rightarrow> login_state" where
  "notify (NAlert conn a) st = Alert conn a st"
| "notify (NAgreements bAccepted ags) st = AgreementList bAccepted ags st"

section \<open>The trading API\<close>

datatype api_call =
  CallLoginRepository string string
| CallListAgreements
| CallLogoutRepository
| CallLogin string string string "string option" "string option"
| CallSubscribe string string
| CallUnsubscribe string string
| CallLogout

text \<open>The results of the API, and the notifications it will deliver, in order.\<close>
record rapi =
  ra_adm_callbacks :: bool
  ra_engine :: bool
  ra_callbacks :: bool
  ra_loginRepository :: bool
  ra_listAgreements :: bool
  ra_logoutRepository :: bool
  ra_login :: bool
  ra_notifications :: "notification list"

record engine =
  en_login :: login_state
  en_pending :: "notification list"
  en_calls :: "(api_call \<times> login_state) list"
  en_environment :: "string list"
  en_created :: bool

definition call :: "api_call \<Rightarrow> engine \<Rightarrow> engine" where
  "call c e = e\<lparr>en_calls := en_calls e @ [(c, en_login e)]\<rparr>"

text \<open>A polling loop: notifications arrive until the condition holds.\<close>
fun wait_until :: "(login_state \<Rightarrow> bool) \<Rightarrow> notification list \<Rightarrow> login_state \<Rightarrow> (login_state \<times> notification list) option" where
  "wait_until p [] st = (if p st then Some (st, []) else None)"
| "wait_until p (n # ns) st = (if p st then Some (st, n # ns) else wait_until p ns (notify n st))"

definition await :: "(login_state \<Rightarrow> bool) \<Rightarrow> engine \<Rightarrow> engine option" where
  "await p e = map_option (\<lambda>(st, ns). e\<lparr>en_login := st, en_pending := ns\<rparr>) (wait_until p (en_pending e) (en_login e))"

section \<open>The connection sequence\<close>

definition BuildFakeEnvp :: "RithmicConfig \<Rightarrow> string list" where
  "BuildFakeEnvp c =
     [''MML_SSL_CLNT_AUTH_FILE='' @ rc_ssl_cert_file c]
     @ (if rc_domain_servers c \<noteq> [] then [''MML_DMN_SRVR_ADDR='' @ rc_domain_servers c] else [])
     @ [''MML_DOMAIN_NAME='' @ rc_domain_name c]
     @ (if rc_license_servers c \<noteq> [] then [''MML_LIC_SRVR_ADDR='' @ rc_license_servers c] else [])
     @ (if rc_local_broker c \<noteq> [] then [''MML_LOC_BROK_ADDR='' @ rc_local_broker c] else [])
     @ (if rc_logger_servers c \<noteq> [] then [''MML_LOGGER_ADDR='' @ rc_logger_servers c] else [])
     @ [''MML_LOG_TYPE=log_net'', ''USER='' @ rc_user c]"

text \<open>The three objects are constructed in turn; an exception of the library ends the sequence.\<close>
definition CreateEngineAndCallbacks :: "rapi \<Rightarrow> RithmicConfig \<Rightarrow> engine \<Rightarrow> bool \<times> engine" where
  "CreateEngineAndCallbacks api c e =
     (let e1 = e\<lparr>en_environment := BuildFakeEnvp c\<rparr>
      in if \<not> ra_adm_callbacks api then (False, e1)
         else if \<not> ra_engine api then (False, e1)
         else (ra_callbacks api, e1\<lparr>en_created := True\<rparr>))"

definition login_decided :: "int \<Rightarrow> bool" where
  "login_decided s \<longleftrightarrow> s = LoginStatus_Complete \<or> s = LoginStatus_Failed"

definition LoginRepository :: "rapi \<Rightarrow> RithmicConfig \<Rightarrow> engine \<Rightarrow> (bool \<times> engine) option" where
  "LoginRepository api c e0 =
     (let e1 = call (CallLoginRepository (rc_user c) (rc_repository_connect_pt c)) e0
      in if \<not> ra_loginRepository api then Some (False, e1)
         else Option.bind (await (\<lambda>st. login_decided (g_iRepLoginStatus st)) e1) (\<lambda>e2.
           if g_iRepLoginStatus (en_login e2) = LoginStatus_Failed then Some (False, e2)
           else let e3 = call CallListAgreements e2
                in if \<not> ra_listAgreements api then Some (False, call CallLogoutRepository e3)
                   else Option.bind (await g_bRcvdUnacceptedAgreements e3) (\<lambda>e4.
                     if 0 < g_iUnacceptedMandatoryAgreements (en_login e4) then Some (False, call CallLogoutRepository e4)
                     else Some (ra_logoutRepository api, call CallLogoutRepository e4))))"

text \<open>
  The user and the connect points of the login: market data, trading system, and the optional history
  and profit-and-loss ones. The same user and password go to each.
\<close>
definition login_call :: "RithmicConfig \<Rightarrow> api_call" where
  "login_call c = CallLogin (rc_user c)
     (if rc_use_aggregated_md c \<and> rc_md_connect_pt_agg c \<noteq> [] then rc_md_connect_pt_agg c else rc_md_connect_pt c)
     (rc_ts_connect_pt c)
     (if rc_ih_connect_pt c \<noteq> [] then Some (rc_ih_connect_pt c) else None)
     (if rc_pnl_connect_pt c \<noteq> [] then Some (rc_pnl_connect_pt c) else None)"

definition LoginMarketData :: "rapi \<Rightarrow> RithmicConfig \<Rightarrow> engine \<Rightarrow> (bool \<times> engine) option" where
  "LoginMarketData api c e0 =
     (let e1 = call (login_call c) e0
      in if \<not> ra_login api then Some (False, e1)
         else Option.bind (await (\<lambda>st. login_decided (g_iMdLoginStatus st)) e1) (\<lambda>e2.
           Some (g_iMdLoginStatus (en_login e2) \<noteq> LoginStatus_Failed, e2)))"

text \<open>A failed subscription is logged and skipped.\<close>
definition SubscribeAll :: "SubEntry list \<Rightarrow> engine \<Rightarrow> engine" where
  "SubscribeAll subs = fold (\<lambda>sub e. if \<not> sub_enabled sub then e else call (CallSubscribe (sub_exchange sub) (sub_ticker sub)) e) subs"

definition Engine_Start :: "rapi \<Rightarrow> RithmicConfig \<Rightarrow> SubEntry list \<Rightarrow> engine \<Rightarrow> (bool \<times> engine) option" where
  "Engine_Start api c subs e0 =
     (case CreateEngineAndCallbacks api c e0 of
        (False, e1) \<Rightarrow> Some (False, e1)
      | (True, e1) \<Rightarrow>
          Option.bind (LoginRepository api c e1) (\<lambda>(ok, e2).
            if \<not> ok then Some (False, e2)
            else Option.bind (LoginMarketData api c e2) (\<lambda>(ok, e3).
              if \<not> ok then Some (False, e3) else Some (True, SubscribeAll subs e3))))"

definition Engine_Stop :: "SubEntry list \<Rightarrow> engine \<Rightarrow> engine" where
  "Engine_Stop subs e =
     (if \<not> en_created e then e
      else call CallLogout (fold (\<lambda>sub. call (CallUnsubscribe (sub_exchange sub) (sub_ticker sub))) subs e))"

section \<open>The process\<close>

datatype gateway_exit = Exit int | Uncaught shm_error

text \<open>Applies a change to the header of the shared object.\<close>
definition update_header :: "string \<Rightarrow> (ShmHeader \<Rightarrow> ShmHeader) \<Rightarrow> shm_dir \<Rightarrow> shm_dir" where
  "update_header name f dir = dir(name := map_option (\<lambda>obj. obj\<lparr>so_header := f (so_header obj)\<rparr>) (dir name))"

text \<open>
  \<open>main\<close> up to the loop, over the loaded configuration (\<open>None\<close>: loading failed): the exit code, or the
  running engine.
\<close>
definition gateway_startup :: "shm_env \<Rightarrow> rapi \<Rightarrow> RootConfig option \<Rightarrow> shm_dir \<Rightarrow> (gateway_exit + engine) option \<times> shm_dir" where
  "gateway_startup senv api config dir =
     (case config of
        None \<Rightarrow> (Some (Inl (Exit 1)), dir)
      | Some cfg \<Rightarrow>
          (let subs = rcm_sub_list (gateway_channel_map (cfg_exchanges cfg)); name = rc_shm_name (cfg_rithmic cfg)
           in if subs = [] then (Some (Inl (Exit 1)), dir)
              else case ShmSetup_open senv name dir of
                     Inl err \<Rightarrow> (Some (Inl (Uncaught err)), dir)
                   | Inr shm \<Rightarrow>
                       (case Engine_Start api (cfg_rithmic cfg) subs
                               \<lparr>en_login = login_start, en_pending = ra_notifications api, en_calls = [], en_environment = [], en_created = False\<rparr> of
                          None \<Rightarrow> (None, dir)
                        | Some (False, e) \<Rightarrow> (Some (Inl (Exit 1)), dir)
                        | Some (True, e) \<Rightarrow> (Some (Inr e), update_header name (\<lambda>h. h\<lparr>sh_child_ready := 1\<rparr>) dir))))"

text \<open>One round of the main loop.\<close>
definition gateway_heartbeat :: "string \<Rightarrow> u64 \<Rightarrow> shm_dir \<Rightarrow> shm_dir" where
  "gateway_heartbeat name now_ns = update_header name (\<lambda>h. h\<lparr>sh_heartbeat_ns := now_ns\<rparr>)"

definition gateway_shutdown :: "string \<Rightarrow> SubEntry list \<Rightarrow> engine \<Rightarrow> shm_dir \<Rightarrow> gateway_exit \<times> engine \<times> shm_dir" where
  "gateway_shutdown name subs e dir = (Exit 0, Engine_Stop subs e, update_header name (\<lambda>h. h\<lparr>sh_child_ready := 0\<rparr>) dir)"

section \<open>The login protocol\<close>

lemma wait_until_holds: "wait_until p ns st = Some (st', ns') \<Longrightarrow> p st'"
  by (induction p ns st rule: wait_until.induct) (auto split: if_splits)

lemma await_holds: "await p e = Some e' \<Longrightarrow> p (en_login e') \<and> en_calls e' = en_calls e \<and> en_created e' = en_created e"
  using wait_until_holds by (fastforce simp: await_def)

lemma call_simps [simp]: "en_calls (call c e) = en_calls e @ [(c, en_login e)]" "en_login (call c e) = en_login e"
  by (simp_all add: call_def)

lemma SubscribeAll_calls:
  "en_calls (SubscribeAll subs e) = en_calls e @ [(CallSubscribe (sub_exchange s) (sub_ticker s), en_login e). s \<leftarrow> subs, sub_enabled s]
   \<and> en_login (SubscribeAll subs e) = en_login e"
  by (induction subs arbitrary: e) (simp_all add: SubscribeAll_def cong: if_cong)

lemma LoginRepository_calls:
  assumes "LoginRepository api c e = Some (True, e')"
  shows "\<exists>st0 st1 st2. en_calls e' = en_calls e @ [(CallLoginRepository (rc_user c) (rc_repository_connect_pt c), st0),
      (CallListAgreements, st1), (CallLogoutRepository, st2)]
    \<and> g_iRepLoginStatus st1 = LoginStatus_Complete \<and> g_bRcvdUnacceptedAgreements st2 \<and> g_iUnacceptedMandatoryAgreements st2 = 0
    \<and> en_login e' = st2"
  using assms unfolding LoginRepository_def Let_def
  by (auto simp: bind_eq_Some_conv login_decided_def split: if_splits dest!: await_holds)


definition sample_api :: rapi where
  "sample_api = \<lparr>ra_adm_callbacks = True, ra_engine = True, ra_callbacks = True, ra_loginRepository = True, ra_listAgreements = True, ra_logoutRepository = True, ra_login = True,
     ra_notifications = [NAlert REPOSITORY_CONNECTION_ID ALERT_LOGIN_COMPLETE, NAgreements False [(''active'', False)],
       NAlert MARKET_DATA_CONNECTION_ID ALERT_LOGIN_COMPLETE]\<rparr>"

definition sample_engine :: engine where
  "sample_engine = \<lparr>en_login = login_start, en_pending = ra_notifications sample_api, en_calls = [], en_environment = [], en_created = False\<rparr>"

lemmas login_status = LoginStatus_NotLoggedIn_def LoginStatus_Failed_def LoginStatus_Complete_def


text \<open>A mandatory agreement that is active and not accepted keeps the gateway from logging in to market data.\<close>
lemma mandatory_agreement_stops:
  assumes "LoginRepository api c e = Some (ok, e')" "0 < g_iUnacceptedMandatoryAgreements (en_login e')"
    "ra_loginRepository api" "ra_listAgreements api" "g_iRepLoginStatus (en_login e') \<noteq> LoginStatus_Failed"
  shows "\<not> ok \<and> fst (last (en_calls e')) = CallLogoutRepository"
  using assms by (auto simp: LoginRepository_def bind_eq_Some_conv Let_def split: if_splits)

text \<open>
  A gateway that hangs before its first heartbeat is never restarted: the heartbeat of a new region is
  0, and the health check ignores that value.
\<close>
theorem silent_gateway_not_restarted:
  assumes "probe_child env st = (True, st')" "sh_heartbeat_ns ShmHeader_new = last_hb"
  shows "CheckHealth env last_hb now_ns now st = Some (True, st')"
  using assms by (simp add: CheckHealth_healthy heartbeat_stale_def ShmHeader_new_def)

end
