(* ===== verification/Signal_Handler.thy ===== *)
theory Signal_Handler
  imports Prelude
begin

text \<open>
  The shutdown request of \<open>src/common/signal_handler.cpp\<close>: a flag that is set when a blocked signal has
  been taken. What \<open>sigwait\<close> returns, and what \<open>errno\<close> holds then, is an argument, one pair for every
  call. \<open>sigwait\<close> reports an error as its result and need not set \<open>errno\<close>.
\<close>

text \<open>The effect of \<open>Install\<close> and of \<open>Reset\<close> on the flag. The signal mask belongs to the system.\<close>
definition Install :: "bool \<Rightarrow> bool" where
  "Install shutdown_requested = False"

definition Reset :: "bool \<Rightarrow> bool" where
  "Reset shutdown_requested = False"

text \<open>
  A call is its result, 0 for a signal, and whether \<open>errno\<close> is \<open>EINTR\<close> after it. The value is the flag when
  the function returns; \<open>None\<close>: it is still waiting after these calls.
\<close>
fun WaitForShutdown :: "(int \<times> bool) list \<Rightarrow> bool \<Rightarrow> bool option" where
  "WaitForShutdown [] shutdown_requested = None"
| "WaitForShutdown ((rc, eintr) # calls) shutdown_requested =
     (if rc = 0 then Some True
      else if \<not> eintr then Some shutdown_requested
      else WaitForShutdown calls shutdown_requested)"

text \<open>Interrupted waits are repeated; a signal then sets the flag.\<close>
lemma WaitForShutdown_interrupted:
  "\<forall>(rc, eintr)\<in>set calls. rc \<noteq> 0 \<and> eintr \<Longrightarrow> WaitForShutdown (calls @ [(0, b)]) flag = Some True"
  by (induction calls) auto

lemma WaitForShutdown_waits:
  "\<forall>(rc, eintr)\<in>set calls. rc \<noteq> 0 \<and> eintr \<Longrightarrow> WaitForShutdown calls flag = None"
  by (induction calls) auto

text \<open>
  Any other error makes the function return with the flag unset: the shutdown sequence then runs although
  nothing that checks the flag knows of it.
\<close>
theorem failed_wait_leaves_flag:
  assumes "rc \<noteq> 0"
  shows "WaitForShutdown ((rc, False) # calls) (Install flag) = Some False"
  using assms by (simp add: Install_def)

end
