(* ===== verification/Collector.thy ===== *)
theory Collector
  imports Crypto_Channel Rithmic_Gateway Data_Dispatcher Signal_Handler
begin

text \<open>
  The collector process as a whole: the factory of the crypto subsystem
  (\<open>src/exchange/crypto/crypto_factory.cpp\<close>) and the startup sequence of \<open>src/main.cpp\<close>. The theorems follow
  an event across components: from the configuration to the registered channel, and from a
  message of the network to storage and the publisher.
\<close>

section \<open>Building the crypto channels\<close>

text \<open>The exceptions that registration throws.\<close>
datatype build_error = BadChannelType string | IdCollision registry_error

type_synonym ('n, 's) build_state = "ChannelRegistry \<times> 's StorageRouter \<times> 'n SymbolChannel list"

text \<open>An exception is \<open>Inl\<close>; \<open>None\<close> is a failed assertion of a storage backend.\<close>
type_synonym ('n, 's) build_result = "(build_error + ('n, 's) build_state) option"

definition crypto_info :: "string \<Rightarrow> ChannelType \<Rightarrow> SymbolConfig \<Rightarrow> ChannelInfo" where
  "crypto_info exchange ty sy = \<lparr>ci_id = 0, ci_exchange = exchange, ci_type = ty, ci_symbol = sym_name sy,
     ci_depth_level = sym_depth_level sy, ci_topic_prefix = []\<rparr>"

fun build_symbols ::
  "('v, 's) router_env \<Rightarrow> nat \<Rightarrow> string \<Rightarrow> 'n ExchangeAdapter \<Rightarrow> SymbolConfig list \<Rightarrow> ('n, 's) build_state \<Rightarrow> ('n, 's) build_result" where
  "build_symbols env n ex a [] st = Some (Inr st)"
| "build_symbols env n ex a (sy # sys) (reg, r, chs) =
     (if \<not> sym_enabled sy then build_symbols env n ex a sys (reg, r, chs)
      else let info = crypto_info ex (ea_channel_type a) sy
           in case ChannelRegistry_Register info reg of
                Inl e \<Rightarrow> Some (Inl (IdCollision e))
              | Inr (cid, reg1) \<Rightarrow>
                  (case StorageRouter_RegisterChannel env cid info (sym_persist_to_disk sy) r of
                     None \<Rightarrow> None
                   | Some r1 \<Rightarrow> build_symbols env n ex a sys
                       (reg1, r1, chs @ [SymbolChannel_new a (sym_name sy) (sym_depth_level sy) cid n])))"

fun build_channels ::
  "('v, 's) router_env \<Rightarrow> nat \<Rightarrow> string \<Rightarrow> ChannelConfig list \<Rightarrow> ('n, 's) build_state \<Rightarrow> ('n, 's) build_result" where
  "build_channels env n ex [] st = Some (Inr st)"
| "build_channels env n ex (ch # rest) st =
     (case ParseChannelType (ch_type ch) of
        Inl e \<Rightarrow> Some (Inl (BadChannelType e))
      | Inr ty \<Rightarrow>
          (case GetAdapter ex ty of
             None \<Rightarrow> build_channels env n ex rest st
           | Some a \<Rightarrow>
               (case build_symbols env n ex a (ch_symbols ch) st of
                  Some (Inr st1) \<Rightarrow> build_channels env n ex rest st1
                | res \<Rightarrow> res)))"

fun build_exchanges ::
  "('v, 's) router_env \<Rightarrow> nat \<Rightarrow> ExchangeConfig list \<Rightarrow> ('n, 's) build_state \<Rightarrow> ('n, 's) build_result" where
  "build_exchanges env n [] st = Some (Inr st)"
| "build_exchanges env n (ex # rest) st =
     (if \<not> ex_enabled ex then build_exchanges env n rest st
      else case build_channels env n (ex_name ex) (ex_channels ex) st of
             Some (Inr st1) \<Rightarrow> build_exchanges env n rest st1
           | res \<Rightarrow> res)"

definition kShardQueueCapacity :: u64 where
  "kShardQueueCapacity = 4096"

record 'n CryptoChannels =
  cc_shard_queues :: "'n parse_fn ShardQueue list"
  cc_channels :: "'n SymbolChannel list"

text \<open>
  The channels, with the registry and the router after all registrations. (The capacity is a power of two:
  \<open>kShardQueue_new\<close> below shows that the first case does not occur.)
\<close>
definition BuildCryptoChannels ::
  "('v, 's) router_env \<Rightarrow> nat \<Rightarrow> ExchangeConfig list \<Rightarrow> ChannelRegistry \<Rightarrow> 's StorageRouter \<Rightarrow>
   (build_error + ('n CryptoChannels \<times> ChannelRegistry \<times> 's StorageRouter)) option" where
  "BuildCryptoChannels env num_parsers exs reg r =
     (case ShardQueue_new kShardQueueCapacity of
        None \<Rightarrow> None
      | Some q \<Rightarrow>
          (case build_exchanges env num_parsers exs (reg, r, []) of
             None \<Rightarrow> None
           | Some (Inl e) \<Rightarrow> Some (Inl e)
           | Some (Inr (reg1, r1, chs)) \<Rightarrow>
               Some (Inr (\<lparr>cc_shard_queues = replicate num_parsers q, cc_channels = chs\<rparr>, reg1, r1))))"

section \<open>The parser pool\<close>

text \<open>A worker: its core, its input queue, and the dispatcher its three handlers share.\<close>
record 'n ShardParserWorker =
  wk_core_id :: u32
  wk_input_queue :: nat
  wk_dispatcher :: "'n parse_fn DataDispatcher"

record 'n CryptoParserPool =
  pp_telemetry_slots :: "TelemetrySlot list"
  pp_workers :: "'n ShardParserWorker list"

definition BuildParserPool :: "u32 list \<Rightarrow> 'n CryptoChannels \<Rightarrow> TelemetryAgent \<Rightarrow> 'n CryptoParserPool \<times> TelemetryAgent" where
  "BuildParserPool parser_cores crypto agent =
     (let n = length (cc_shard_queues crypto); slots = replicate n TelemetrySlot_new
      in (\<lparr>pp_telemetry_slots = slots,
           pp_workers = map (\<lambda>i. \<lparr>wk_core_id = parser_cores ! i, wk_input_queue = i,
             wk_dispatcher = \<lparr>dd_has_slot = True, dd_shard_queue = Some (cc_shard_queues crypto ! i), dd_shard_idx = i\<rparr>\<rparr>) [0..<n]\<rparr>,
          fold RegisterSlot slots agent))"

record 'n CryptoSubsystem =
  cs_channels :: "'n CryptoChannels"
  cs_parser_pool :: "'n CryptoParserPool"

text \<open>\<open>Inl ()\<close> is \<open>std::nullopt\<close>.\<close>
definition BuildCryptoSubsystem ::
  "('v, 's) router_env \<Rightarrow> RootConfig \<Rightarrow> ChannelRegistry \<Rightarrow> 's StorageRouter \<Rightarrow> TelemetryAgent \<Rightarrow>
   (unit + ('n CryptoSubsystem \<times> ChannelRegistry \<times> 's StorageRouter \<times> TelemetryAgent)) option" where
  "BuildCryptoSubsystem env cfg reg r agent =
     (let cores = tc_parser_cores (cfg_threading_matrix cfg)
      in if cores = [] then Some (Inl ())
         else case BuildCryptoChannels env (length cores) (cfg_exchanges cfg) reg r of
                None \<Rightarrow> None
              | Some (Inl e) \<Rightarrow> Some (Inl ())
              | Some (Inr (channels, reg1, r1)) \<Rightarrow>
                  (case BuildParserPool cores channels agent of
                     (pool, agent1) \<Rightarrow> Some (Inr (\<lparr>cs_channels = channels, cs_parser_pool = pool\<rparr>, reg1, r1, agent1))))"

definition channels_Start :: "nat \<Rightarrow> 'n CryptoChannels \<Rightarrow> 'n CryptoChannels" where
  "channels_Start now_sec c = c\<lparr>cc_channels := map (Start now_sec) (cc_channels c)\<rparr>"

definition channels_Stop :: "'n CryptoChannels \<Rightarrow> 'n CryptoChannels" where
  "channels_Stop c = c\<lparr>cc_channels := map Stop (cc_channels c)\<rparr>"

text \<open>A poison pill into every queue, each with the queue as its consumer leaves it at every attempt.\<close>
definition DrainQueues :: "'n parse_fn ShardQueue list list \<Rightarrow> 'n parse_fn ShardQueue option list" where
  "DrainQueues attempts = map PushPoisonPill attempts"

section \<open>Startup\<close>

datatype 'a start_result = Exit_failure | Aborted | Running 'a

record ('n, 's) collector =
  co_crypto :: "'n CryptoSubsystem"
  co_pub :: PubWorker
  co_telemetry :: TelemetryAgent
  co_world :: "'s setup_world"
  co_rithmic :: bool

text \<open>
  \<open>main\<close> up to the start of the threads, on a loaded configuration: the singletons, telemetry, the crypto
  subsystem, the publisher, the freeze of the storage registrations, then the Rithmic pipeline. \<open>w\<close> is the
  world outside and \<open>listens\<close> whether the metrics port could be opened.
\<close>
definition main_startup ::
  "('v, 's) router_env \<Rightarrow> shm_env \<Rightarrow> proc_env \<Rightarrow> int \<Rightarrow> bool \<Rightarrow> 's \<Rightarrow> disk \<Rightarrow> text_disk \<Rightarrow> string \<Rightarrow> RootConfig \<Rightarrow> 's setup_world \<Rightarrow>
   ('n, 's) collector start_result" where
  "main_startup renv senv penv now listens server d td config_path cfg w =
     (let router = StorageRouter_new renv server d td (cfg_storage cfg);
          agent = \<lparr>ta_exposer = PrometheusExposer_new listens, ta_slots = []\<rparr>
      in case BuildCryptoSubsystem renv cfg Map.empty router agent of
           None \<Rightarrow> Aborted
         | Some (Inl ()) \<Rightarrow> Exit_failure
         | Some (Inr (crypto, reg1, r1, agent1)) \<Rightarrow>
             (let pub = PubWorker_new (length (tc_parser_cores (cfg_threading_matrix cfg)));
                  w1 = w\<lparr>sw_registry := reg1, sw_router := StorageRouter_FreezeChannels r1\<rparr>
              in case CreateRithmicManager renv senv penv now config_path cfg w1 of
                   None \<Rightarrow> Aborted
                 | Some (ok, w2) \<Rightarrow>
                     Running \<lparr>co_crypto = crypto, co_pub = pub, co_telemetry = agent1, co_world = w2, co_rithmic = ok\<rparr>))"

section \<open>Every configured channel is built and registered\<close>

text \<open>The symbols the factory goes through: exchange, adapter, settings.\<close>
definition channel_symbols :: "string \<Rightarrow> ChannelConfig \<Rightarrow> (string \<times> 'n ExchangeAdapter \<times> SymbolConfig) list" where
  "channel_symbols ex ch = (case ParseChannelType (ch_type ch) of
      Inl _ \<Rightarrow> []
    | Inr ty \<Rightarrow> (case GetAdapter ex ty of None \<Rightarrow> [] | Some a \<Rightarrow> map (\<lambda>sy. (ex, a, sy)) (filter sym_enabled (ch_symbols ch))))"

definition crypto_symbols :: "ExchangeConfig list \<Rightarrow> (string \<times> 'n ExchangeAdapter \<times> SymbolConfig) list" where
  "crypto_symbols exs = concat (map (\<lambda>ex. if ex_enabled ex then concat (map (channel_symbols (ex_name ex)) (ex_channels ex)) else []) exs)"

fun symbol_info :: "string \<times> 'n ExchangeAdapter \<times> SymbolConfig \<Rightarrow> ChannelInfo" where
  "symbol_info (ex, a, sy) = crypto_info ex (ea_channel_type a) sy"

fun channel_of :: "nat \<Rightarrow> string \<times> 'n ExchangeAdapter \<times> SymbolConfig \<Rightarrow> 'n SymbolChannel" where
  "channel_of n (ex, a, sy) = SymbolChannel_new a (sym_name sy) (sym_depth_level sy) (channel_key (crypto_info ex (ea_channel_type a) sy)) n"

text \<open>Going through \<open>syms\<close> appends their channels, registers them, and keeps earlier registrations.\<close>
definition registers :: "nat \<Rightarrow> (string \<times> 'n ExchangeAdapter \<times> SymbolConfig) list \<Rightarrow> ('n, 's) build_state \<Rightarrow> ('n, 's) build_state \<Rightarrow> bool" where
  "registers n syms st st' \<longleftrightarrow> (case (st, st') of ((reg, _, chs), (reg', _, chs')) \<Rightarrow>
     chs' = chs @ map (channel_of n) syms
     \<and> (\<forall>x\<in>set syms. look_channel reg' (channel_key (symbol_info x)) = Some (channel_ident (symbol_info x)))
     \<and> (\<forall>c v. look_channel reg c = Some v \<longrightarrow> look_channel reg' c = Some v))"

lemma registers_refl: "registers n [] st st"
  by (cases st) (simp add: registers_def)

lemma registers_trans:
  assumes "registers n xs st st1" "registers n ys st1 st2"
  shows "registers n (xs @ ys) st st2"
proof -
  obtain reg r chs reg1 r1 chs1 reg2 r2 chs2 where st: "st = (reg, r, chs)" "st1 = (reg1, r1, chs1)" "st2 = (reg2, r2, chs2)"
    by (metis prod_cases3)
  have "look_channel reg2 (channel_key (symbol_info x)) = Some (channel_ident (symbol_info x))" if "x \<in> set (xs @ ys)" for x
    using assms that unfolding registers_def st prod.case set_append by blast
  moreover have "look_channel reg2 c = Some v" if "look_channel reg c = Some v" for c v
    using assms that unfolding registers_def st prod.case by blast
  moreover have "chs2 = chs @ map (channel_of n) (xs @ ys)" using assms unfolding registers_def st prod.case by simp
  ultimately show ?thesis unfolding registers_def st prod.case by blast
qed

lemma register_one:
  assumes "ChannelRegistry_Register (crypto_info ex (ea_channel_type a) sy) reg = Inr (cid, reg1)"
  shows "registers n [(ex, a, sy)] (reg, r, chs) (reg1, r1, chs @ [SymbolChannel_new a (sym_name sy) (sym_depth_level sy) cid n])"
proof -
  have cid: "cid = channel_key (crypto_info ex (ea_channel_type a) sy)" using Register_result [OF assms] by simp
  then have r: "reg_channel (crypto_info ex (ea_channel_type a) sy) reg = Some reg1" using assms by (simp add: reg_channel_Some)
  show ?thesis using cid routing.reg_same [OF r] routing.reg_keeps [OF r] by (simp add: registers_def)
qed

lemma build_symbols_registers:
  "build_symbols env n ex a sys st = Some (Inr st') \<Longrightarrow> registers n (map (\<lambda>sy. (ex, a, sy)) (filter sym_enabled sys)) st st'"
proof (induction sys arbitrary: st)
  case (Cons sy sys)
  obtain reg r chs where st: "st = (reg, r, chs)" by (cases st)
  show ?case
  proof (cases "sym_enabled sy")
    case False
    then show ?thesis using Cons st by simp
  next
    case True
    let ?info = "crypto_info ex (ea_channel_type a) sy"
    obtain cid reg1 where reg: "ChannelRegistry_Register ?info reg = Inr (cid, reg1)"
      using Cons.prems st True by (auto simp: Let_def split: sum.splits)
    obtain r1 where "build_symbols env n ex a sys (reg1, r1, chs @ [SymbolChannel_new a (sym_name sy) (sym_depth_level sy) cid n]) = Some (Inr st')"
      using Cons.prems st True reg by (auto simp: Let_def split: option.splits)
    from registers_trans [OF register_one [OF reg] Cons.IH [OF this]] show ?thesis using st True by simp
  qed
qed (simp add: registers_refl)

lemma build_channels_registers:
  fixes st :: "('n, 's) build_state"
  shows "build_channels env n ex chans st = Some (Inr st') \<Longrightarrow> registers n (concat (map (channel_symbols ex) chans)) st st'"
proof (induction chans arbitrary: st)
  case (Cons ch chans)
  obtain ty where ty: "ParseChannelType (ch_type ch) = Inr ty" using Cons.prems by (auto split: sum.splits)
  show ?case
  proof (cases "GetAdapter ex ty :: 'n ExchangeAdapter option")
    case None
    then show ?thesis using Cons ty by (simp add: channel_symbols_def)
  next
    case (Some a)
    then obtain st1 where "build_symbols env n ex a (ch_symbols ch) st = Some (Inr st1)" "build_channels env n ex chans st1 = Some (Inr st')"
      using Cons.prems ty by (auto split: option.splits sum.splits)
    from registers_trans [OF build_symbols_registers [OF this(1)] Cons.IH [OF this(2)]]
    show ?thesis using ty Some by (simp add: channel_symbols_def)
  qed
qed (simp add: registers_refl)

lemma build_exchanges_registers:
  "build_exchanges env n exs st = Some (Inr st') \<Longrightarrow> registers n (crypto_symbols exs) st st'"
proof (induction exs arbitrary: st)
  case (Cons ex exs)
  show ?case
  proof (cases "ex_enabled ex")
    case False
    then show ?thesis using Cons by (simp add: crypto_symbols_def)
  next
    case True
    then obtain st1 where "build_channels env n (ex_name ex) (ex_channels ex) st = Some (Inr st1)" "build_exchanges env n exs st1 = Some (Inr st')"
      using Cons.prems by (auto split: option.splits sum.splits)
    from registers_trans [OF build_channels_registers [OF this(1)] Cons.IH [OF this(2)]]
    show ?thesis using True by (simp add: crypto_symbols_def)
  qed
qed (simp add: crypto_symbols_def registers_refl)

lemma kShardQueue_new: "\<exists>q. ShardQueue_new kShardQueueCapacity = Some q \<and> shq_slots q = replicate 4096 raw_message_zero"
proof -
  have "NextPowerOf2 4096 = Some 4096"
    by (simp add: NextPowerOf2_def NextPowerOf2_loop.simps)
  then show ?thesis by (simp add: ShardQueue_new_def kShardQueueCapacity_def)
qed

lemma BuildCryptoChannels_registers:
  assumes "BuildCryptoChannels env n exs reg r = Some (Inr (cc, reg', r'))"
  shows "registers n (crypto_symbols exs) (reg, r, []) (reg', r', cc_channels cc)" "length (cc_shard_queues cc) = n"
  using assms build_exchanges_registers [of env n exs "(reg, r, [])"]
  by (auto simp: BuildCryptoChannels_def split: option.splits sum.splits)

lemma BuildCryptoSubsystem_parts:
  assumes "BuildCryptoSubsystem env cfg reg r agent = Some (Inr (crypto, reg', r', agent'))"
  shows "BuildCryptoChannels env (length (tc_parser_cores (cfg_threading_matrix cfg))) (cfg_exchanges cfg) reg r
      = Some (Inr (cs_channels crypto, reg', r'))"
    and "BuildParserPool (tc_parser_cores (cfg_threading_matrix cfg)) (cs_channels crypto) agent = (cs_parser_pool crypto, agent')"
    and "tc_parser_cores (cfg_threading_matrix cfg) \<noteq> []"
  using assms by (auto simp: BuildCryptoSubsystem_def Let_def split: if_splits option.splits sum.splits prod.splits)

lemma RegisterSlot_fold: "ta_slots (fold RegisterSlot slots a) = ta_slots a @ slots"
  by (induction slots arbitrary: a) (simp_all add: RegisterSlot_def)

lemma GetAdapter_name: "GetAdapter ex ty = Some a \<Longrightarrow> ea_name a = ex"
  by (auto simp: GetAdapter_def adapter_defs split: if_splits)

lemma crypto_symbols_adapter:
  assumes "(ex, a, sy) \<in> set (crypto_symbols exs)"
  obtains ty where "GetAdapter ex ty = Some a" "ea_name a = ex"
proof -
  have "\<exists>ty. GetAdapter ex ty = Some a"
    using assms by (auto simp: crypto_symbols_def channel_symbols_def split: if_splits sum.splits option.splits)
  then show ?thesis using that GetAdapter_name by blast
qed

text \<open>A channel of the subsystem: its adapter is one of the four, and its identity is registered under its identifier.\<close>
lemma built_channel:
  assumes "registers n (crypto_symbols exs) (reg, r, []) (reg', r', chs)" "ch \<in> set chs"
  shows "look_channel reg' (cn_channel_id ch) = Some (ea_name (cn_adapter ch), ea_channel_type (cn_adapter ch), cn_symbol ch)"
    and "\<exists>name ty. GetAdapter name ty = Some (cn_adapter ch)" and "cn_shards ch = n"
proof -
  have "chs = map (channel_of n) (crypto_symbols exs)" using assms(1) by (simp add: registers_def)
  then obtain ex a sy where x: "(ex, a, sy) \<in> set (crypto_symbols exs)" "ch = channel_of n (ex, a, sy)"
    using assms(2) by auto
  obtain ty where a: "GetAdapter ex ty = Some a" "ea_name a = ex" by (rule crypto_symbols_adapter [OF x(1)])
  have "look_channel reg' (channel_key (symbol_info (ex, a, sy))) = Some (channel_ident (symbol_info (ex, a, sy)))"
    using assms(1) x(1) unfolding registers_def prod.case by blast
  then show "look_channel reg' (cn_channel_id ch) = Some (ea_name (cn_adapter ch), ea_channel_type (cn_adapter ch), cn_symbol ch)"
    using x(2) a(2) by (simp add: SymbolChannel_new_def channel_ident_def crypto_info_def)
  show "\<exists>name ty. GetAdapter name ty = Some (cn_adapter ch)" "cn_shards ch = n" using x(2) a(1) by (auto simp: SymbolChannel_new_def)
qed

lemma BuildParserPool_parts:
  assumes "BuildParserPool cores cc agent = (pool, agent')" "length (cc_shard_queues cc) = length cores"
  shows "map wk_core_id (pp_workers pool) = cores" "map wk_input_queue (pp_workers pool) = [0..<length (cc_shard_queues cc)]"
    "map (dd_shard_idx \<circ> wk_dispatcher) (pp_workers pool) = [0..<length cores]"
    "length (ta_slots agent') = length (ta_slots agent) + length cores"
proof -
  let ?workers = "map (\<lambda>i. \<lparr>wk_core_id = cores ! i, wk_input_queue = i,
      wk_dispatcher = \<lparr>dd_has_slot = True, dd_shard_queue = Some (cc_shard_queues cc ! i), dd_shard_idx = i\<rparr>\<rparr>) [0..<length cores]"
  have w: "pp_workers pool = ?workers" and a: "agent' = fold RegisterSlot (replicate (length cores) TelemetrySlot_new) agent"
    using assms by (auto simp: BuildParserPool_def Let_def)
  show "map wk_core_id (pp_workers pool) = cores" by (simp add: w comp_def map_nth)
  show "map wk_input_queue (pp_workers pool) = [0..<length (cc_shard_queues cc)]"
    "map (dd_shard_idx \<circ> wk_dispatcher) (pp_workers pool) = [0..<length cores]" by (simp_all add: w comp_def assms(2))
  show "length (ta_slots agent') = length (ta_slots agent) + length cores" unfolding a RegisterSlot_fold by simp
qed

text \<open>
  C16: When the crypto subsystem starts, every enabled symbol of every enabled and known exchange has its
  channel, in the order of the configuration and no other, and is registered under the channel's identifier
  with its own identity. There is one parser per configured core; parser \<open>i\<close> runs on core \<open>i\<close>, reads queue \<open>i\<close>
  and publishes into shard \<open>i\<close>, and each has a telemetry slot that the agent polls.
\<close>
theorem configured_channels_built:
  assumes "BuildCryptoSubsystem env cfg reg r agent = Some (Inr (crypto, reg', r', agent'))"
    and "cores = tc_parser_cores (cfg_threading_matrix cfg)"
  shows "cc_channels (cs_channels crypto) = map (channel_of (length cores)) (crypto_symbols (cfg_exchanges cfg))
    \<and> (\<forall>ch\<in>set (cc_channels (cs_channels crypto)). look_channel reg' (cn_channel_id ch)
          = Some (ea_name (cn_adapter ch), ea_channel_type (cn_adapter ch), cn_symbol ch))
    \<and> map wk_core_id (pp_workers (cs_parser_pool crypto)) = cores
    \<and> map wk_input_queue (pp_workers (cs_parser_pool crypto)) = [0..<length (cc_shard_queues (cs_channels crypto))]
    \<and> map (dd_shard_idx \<circ> wk_dispatcher) (pp_workers (cs_parser_pool crypto)) = [0..<length cores]
    \<and> length (ta_slots agent') = length (ta_slots agent) + length cores"
proof -
  note parts = BuildCryptoSubsystem_parts [OF assms(1), folded assms(2)]
  note reg = BuildCryptoChannels_registers [OF parts(1)]
  have "cc_channels (cs_channels crypto) = map (channel_of (length cores)) (crypto_symbols (cfg_exchanges cfg))"
    using reg(1) by (simp add: registers_def)
  then show ?thesis using built_channel(1) [OF reg(1)] BuildParserPool_parts [OF parts(2) reg(2)] by blast
qed

text \<open>The futures channels are registered later, in the same registry; the crypto channels stay as they are.\<close>
lemma Setup_keeps:
  assumes "Setup renv senv penv exs w = Some (ok, w')" "look_channel (sw_registry w) c = Some v"
  shows "look_channel (sw_registry w') c = Some v"
proof -
  obtain reg cm router where r: "RegisterChannels renv exs (sw_registry w) (sw_router w) = Some (reg, cm, router)"
    using assms(1) by (auto simp: Setup_def split: option.splits)
  have "sw_registry w' = reg"
    using assms(1) r by (auto simp: Setup_def Let_def split: if_splits prod.splits sum.splits bool.splits)
  then show ?thesis using register_loop_prefix [OF r [unfolded RegisterChannels_def]] assms(2) by blast
qed

lemma started_const:
  "cn_adapter (channel_run evs (Start now_sec ch)) = cn_adapter ch"
  "cn_channel_id (channel_run evs (Start now_sec ch)) = cn_channel_id ch"
  "cn_shards (channel_run evs (Start now_sec ch)) = cn_shards ch"
  using channel_run_const [of evs "Start now_sec ch"]
  by (simp_all add: cn_const_def [of "channel_run evs (Start now_sec ch)"] cn_const_def [of ch])

lemma started_parts:
  assumes "main_startup renv senv penv now listens server d td path cfg w = Running c"
  obtains r0 agent0 reg1 r1 where
    "BuildCryptoSubsystem renv cfg Map.empty r0 agent0 = Some (Inr (co_crypto c, reg1, r1, co_telemetry c))"
    and "\<And>i v. look_channel reg1 i = Some v \<Longrightarrow> look_channel (sw_registry (co_world c)) i = Some v"
    and "length (pw_shards (co_pub c)) = length (tc_parser_cores (cfg_threading_matrix cfg))"
proof -
  let ?r0 = "StorageRouter_new renv server d td (cfg_storage cfg)"
  let ?agent0 = "\<lparr>ta_exposer = PrometheusExposer_new listens, ta_slots = []\<rparr>"
  obtain reg1 r1 ok where b: "BuildCryptoSubsystem renv cfg Map.empty ?r0 ?agent0 = Some (Inr (co_crypto c, reg1, r1, co_telemetry c))"
    and s: "CreateRithmicManager renv senv penv now path cfg
        (w\<lparr>sw_registry := reg1, sw_router := StorageRouter_FreezeChannels r1\<rparr>) = Some (ok, co_world c)"
    and p: "co_pub c = PubWorker_new (length (tc_parser_cores (cfg_threading_matrix cfg)))"
    using assms by (auto simp: main_startup_def Let_def split: option.splits sum.splits unit.splits prod.splits)
  have "look_channel (sw_registry (co_world c)) i = Some v" if "look_channel reg1 i = Some v" for i v
    using Setup_keeps [OF s [unfolded CreateRithmicManager_def]] that by simp
  then show ?thesis using that b p by (simp add: PubWorker_new_def)
qed

text \<open>
  C3: From the network to storage. Take any crypto channel of a collector that has started, in any state its event loop
  can reach. A message it queues goes to an existing parser, and to an existing shard of the publisher; an event
  parsed from it is found in the registry, which the futures channels share, under the exchange, market and symbol
  of that very channel, and the dispatcher hands it to storage.
\<close>
theorem received_event_stored:
  assumes "main_startup renv senv penv now listens server d td path cfg w = Running c"
    and "ch \<in> set (cc_channels (cs_channels (co_crypto c)))"
    and "OnMessage menv data (channel_run evs (Start now_sec ch)) = Some (shard, msg)"
    and "ParseAndDispatch (me_iterate menv) msg = Some e"
  shows "shard < length (pp_workers (cs_parser_pool (co_crypto c))) \<and> shard < length (pw_shards (co_pub c))
    \<and> (\<exists>info. ChannelRegistry_Lookup (sw_registry (co_world c)) (pe_channel e) = Some info
      \<and> (ci_exchange info, ci_type info, ci_symbol info) = (ea_name (cn_adapter ch), ea_channel_type (cn_adapter ch), cn_symbol ch)
      \<and> (\<forall>env t dsp s. sr_backend (sk_router (dispatch_event env t (sw_registry (co_world c)) dsp e s))
            = backend_insert env (stored_form t info e) (sr_backend (sk_router s))))"
proof -
  let ?st = "channel_run evs (Start now_sec ch)"
  obtain r0 agent0 reg1 r1 where b: "BuildCryptoSubsystem renv cfg Map.empty r0 agent0 = Some (Inr (co_crypto c, reg1, r1, co_telemetry c))"
    and keeps: "\<And>i v. look_channel reg1 i = Some v \<Longrightarrow> look_channel (sw_registry (co_world c)) i = Some v"
    and shards: "length (pw_shards (co_pub c)) = length (tc_parser_cores (cfg_threading_matrix cfg))"
    using started_parts [OF assms(1)] by blast
  note parts = BuildCryptoSubsystem_parts [OF b]
  note reg = BuildCryptoChannels_registers [OF parts(1)]
  note ch = built_channel [OF reg(1) assms(2)]
  note const = started_const [of evs now_sec ch]
  note m = OnMessage_Some [OF assms(3)]
  have "length (pp_workers (cs_parser_pool (co_crypto c))) = cn_shards ch"
    using arg_cong [OF BuildParserPool_parts(1) [OF parts(2) reg(2)], of length] ch(3) by simp
  then have shard: "shard < length (pp_workers (cs_parser_pool (co_crypto c)))" "shard < length (pw_shards (co_pub c))"
    using m(2) const(3) ch(3) shards by simp_all
  have "from_adapter msg" using ch(2) m(11) const(1) by (auto simp: from_adapter_def)
  then have id: "pe_channel e = cn_channel_id ch"
    using ParseAndDispatch_stamped [OF _ assms(4)] m(6) const(2) by (simp add: stamped_from_def)
  obtain info where info: "ChannelRegistry_Lookup (sw_registry (co_world c)) (pe_channel e) = Some info"
    "channel_ident info = (ea_name (cn_adapter ch), ea_channel_type (cn_adapter ch), cn_symbol ch)"
    using keeps [OF ch(1)] id by (auto simp: look_channel_def)
  then show ?thesis using shard by (auto simp: dispatch_router channel_ident_def)
qed

text \<open>
  The storage registrations are frozen before the futures channels are registered. With the database engine, a
  persisted futures symbol then fails the assertion of the storage registry in a debug build; in a release build its
  registration has no effect.
\<close>
theorem frozen_database_refuses_channels:
  assumes "sr_backend r = BDolphinDB b" "sr_persist_to_disk r"
  shows "StorageRouter_RegisterChannel env cid info True (StorageRouter_FreezeChannels r)
    = (if rn_ndebug env then Some (StorageRouter_FreezeChannels r) else None)"
  using assms by (simp add: StorageRouter_RegisterChannel_def StorageRouter_FreezeChannels_def DolphinDBBackend_RegisterChannel_def
      DolphinDBBackend_FreezeChannels_def client_RegisterChannel_def client_FreezeChannels_def StorageChannelRegistry_Register_def Freeze_def)

section \<open>Example\<close>

definition one_symbol :: SymbolConfig where
  "one_symbol = \<lparr>sym_name = ''BTCUSDT'', sym_enabled = True, sym_depth_level = 20, sym_record_tick = True, sym_persist_to_disk = False\<rparr>"

definition small_config :: RootConfig where
  "small_config = default_root\<lparr>cfg_threading_matrix := default_threading\<lparr>tc_parser_cores := [3]\<rparr>,
     cfg_exchanges := [\<lparr>ex_name = ''binance'', ex_enabled = True, ex_channels = [\<lparr>ch_type = ''spot'', ch_symbols = [one_symbol]\<rparr>]\<rparr>]\<rparr>"

definition small_world :: "(bool \<times> bool) setup_world" where
  "small_world = \<lparr>sw_registry = Map.empty, sw_router = StorageRouter_new sample_router_env (True, True) Map.empty Map.empty default_storage,
     sw_dir = Map.empty, sw_channel_map = RithmicChannelMap_new, sw_shm = None, sw_pm = RithmicProcessManager_new default_proc_config 0,
     sw_os = \<lparr>po_kids = Map.empty, po_foreign = {}, po_calls = 0, po_strays = []\<rparr>\<rparr>"

definition small_channel :: "json SymbolChannel" where
  "small_channel = SymbolChannel_new kBinanceSpotAdapter ''BTCUSDT'' 20 (channel_key (crypto_info ''binance'' Spot one_symbol)) 1"

lemma small_config_parts:
  "tc_parser_cores (cfg_threading_matrix small_config) = [3]" "cfg_storage small_config = default_storage"
  "rithmic_symbols (cfg_exchanges small_config) = []"
  by (simp_all add: small_config_def default_root_def rithmic_symbols_def)

lemma small_register:
  obtains reg where "ChannelRegistry_Register (crypto_info ''binance'' Spot one_symbol) Map.empty
    = Inr (channel_key (crypto_info ''binance'' Spot one_symbol), reg)"
  by (simp add: ChannelRegistry_Register_def channel_key_def Let_def)

lemma small_subsystem:
  "\<exists>crypto reg r agent'. BuildCryptoSubsystem sample_router_env small_config Map.empty
      (StorageRouter_new sample_router_env (True, True) Map.empty Map.empty default_storage) agent = Some (Inr (crypto, reg, r, agent'))
     \<and> cc_channels (cs_channels crypto) = [small_channel]"
proof -
  obtain q :: "json parse_fn ShardQueue" where q: "ShardQueue_new kShardQueueCapacity = Some q" using kShardQueue_new by blast
  obtain reg where reg: "ChannelRegistry_Register (crypto_info ''binance'' Spot one_symbol) Map.empty
      = Inr (channel_key (crypto_info ''binance'' Spot one_symbol), reg)" by (rule small_register)
  have a: "GetAdapter ''binance'' Spot = Some (kBinanceSpotAdapter :: json ExchangeAdapter)" "ea_channel_type (kBinanceSpotAdapter :: json ExchangeAdapter) = Spot"
    by (simp_all add: GetAdapter_def kBinanceSpotAdapter_def)
  have sy: "sym_enabled one_symbol" "\<not> sym_persist_to_disk one_symbol" "sym_name one_symbol = ''BTCUSDT''" "sym_depth_level one_symbol = 20"
    by (simp_all add: one_symbol_def)
  have ty: "ParseChannelType ''spot'' = Inr Spot" by (simp add: ParseChannelType_def)
  have ex: "cfg_exchanges small_config = [\<lparr>ex_name = ''binance'', ex_enabled = True,
      ex_channels = [\<lparr>ch_type = ''spot'', ch_symbols = [one_symbol]\<rparr>]\<rparr>]" by (simp add: small_config_def)
  show ?thesis
    by (simp add: BuildCryptoSubsystem_def Let_def small_config_parts BuildCryptoChannels_def q ex ty a sy reg small_channel_def
        StorageRouter_RegisterChannel_def split: prod.split)
qed

theorem configured_channels_built_witness:
  "\<exists>(crypto :: json CryptoSubsystem) reg r agent'. BuildCryptoSubsystem sample_router_env small_config Map.empty
      (StorageRouter_new sample_router_env (True, True) Map.empty Map.empty default_storage)
      \<lparr>ta_exposer = PrometheusExposer_new True, ta_slots = []\<rparr> = Some (Inr (crypto, reg, r, agent'))
     \<and> look_channel reg (cn_channel_id small_channel) = Some (''binance'', Spot, ''BTCUSDT'')
     \<and> map wk_core_id (pp_workers (cs_parser_pool crypto)) = [3] \<and> length (ta_slots agent') = 1"
proof -
  let ?agent = "\<lparr>ta_exposer = PrometheusExposer_new True, ta_slots = []\<rparr>"
  obtain crypto :: "json CryptoSubsystem" and reg r agent' where b: "BuildCryptoSubsystem sample_router_env small_config Map.empty
      (StorageRouter_new sample_router_env (True, True) Map.empty Map.empty default_storage) ?agent = Some (Inr (crypto, reg, r, agent'))"
    and ch: "cc_channels (cs_channels crypto) = [small_channel]" using small_subsystem [of ?agent] by blast
  have "ea_name (cn_adapter small_channel) = ''binance''" "ea_channel_type (cn_adapter small_channel) = Spot" "cn_symbol small_channel = ''BTCUSDT''"
    by (simp_all add: small_channel_def SymbolChannel_new_def kBinanceSpotAdapter_def)
  then show ?thesis using b configured_channels_built [OF b refl] ch by (auto simp: small_config_parts)
qed

theorem received_event_stored_witness:
  "\<exists>(c :: (json, bool \<times> bool) collector) shard msg e.
     main_startup sample_router_env sample_shm_env idle_env 0 True (True, True) Map.empty Map.empty ''c.yaml'' small_config small_world = Running c
     \<and> OnMessage sample_msg_env ''{}'' (channel_run [] (Start 0 small_channel)) = Some (shard, msg)
     \<and> ParseAndDispatch (me_iterate sample_msg_env) msg = Some e
     \<and> ChannelRegistry_Lookup (sw_registry (co_world c)) (pe_channel e) \<noteq> None"
proof -
  let ?agent = "\<lparr>ta_exposer = PrometheusExposer_new True, ta_slots = []\<rparr>"
  obtain crypto :: "json CryptoSubsystem" and reg r agent' where b: "BuildCryptoSubsystem sample_router_env small_config Map.empty
      (StorageRouter_new sample_router_env (True, True) Map.empty Map.empty default_storage) ?agent = Some (Inr (crypto, reg, r, agent'))"
    and ch: "cc_channels (cs_channels crypto) = [small_channel]" using small_subsystem [of ?agent] by blast
  have "\<exists>w2. main_startup sample_router_env sample_shm_env idle_env 0 True (True, True) Map.empty Map.empty ''c.yaml'' small_config small_world
      = Running \<lparr>co_crypto = crypto, co_pub = PubWorker_new 1, co_telemetry = agent', co_world = w2, co_rithmic = False\<rparr>"
    by (simp add: main_startup_def Let_def small_config_parts b CreateRithmicManager_def Setup_def RegisterChannels_def
        RithmicChannelMap_new_def)
  then obtain w2 where run: "main_startup sample_router_env sample_shm_env idle_env 0 True (True, True) Map.empty Map.empty ''c.yaml'' small_config small_world
      = Running \<lparr>co_crypto = crypto, co_pub = PubWorker_new 1, co_telemetry = agent', co_world = w2, co_rithmic = False\<rparr>" by blast
  let ?st = "channel_run [] (Start 0 small_channel)"
  have const: "cn_adapter ?st = kBinanceSpotAdapter" "cn_shards ?st = 1"
    by (simp_all add: started_const) (simp_all add: small_channel_def SymbolChannel_new_def)
  have "announced sample_msg_env ''{}'' ?st = ET_TICK"
    by (simp add: announced_def const sample_msg_env_def kBinanceSpotAdapter_def binance_PeekEventType_def sample_json_env_def sample_trade_def)
  then obtain shard msg where m: "OnMessage sample_msg_env ''{}'' ?st = Some (shard, msg)" and et: "rm_event_type msg = ET_TICK"
    and fn: "rm_parse_fn msg = Some (binance_spot_Parse sample_json_env)"
    using OnMessage_queues [of "''{}''" ?st sample_msg_env] OnMessage_Some(9,11) const
    by (fastforce simp: sample_msg_env_def kBinanceSpotAdapter_def)
  have "\<exists>e. ParseAndDispatch (me_iterate sample_msg_env) msg = Some e"
    by (simp add: ParseAndDispatch_def Let_def fn et sample_msg_env_def binance_spot_Parse_def tick_result_def binance_ParseTradeEvent_def
        get_i64_def get_decimal_def get_str_def SvToDouble_def sample_json_env_def sample_trade_def)
  then obtain e where e: "ParseAndDispatch (me_iterate sample_msg_env) msg = Some e" by blast
  show ?thesis using run m e received_event_stored [OF run _ m e] ch by auto
qed

end
