(* ===== verification/Spec2Isabelle.thy ===== *)
theory Spec2Isabelle
  imports Order_Book Spsc_Queue Shard_Queue Mpsc_Queue Config Channel_Registry Data_Dispatcher Rithmic_Shm Secure_String Collector
begin

text \<open>
  \<^bold>\<open>smart_quant_collector\<close>

  The program collects market data. A process, the collector, receives trades, order book snapshots
  and best quotes of crypto exchanges over WebSocket connections. A second process, the gateway,
  receives futures data through a vendor library and passes it on in shared memory. The collector
  stores every event, publishes it on a message socket and exposes metrics. File names below are
  relative to \<open>src/src/\<close>.

  \<^bold>\<open>How the parts interact.\<close> A crypto channel (\<open>exchange/crypto/symbol_channel.cpp\<close>) owns one WebSocket
  client per subscription group, puts each received message into a shard queue
  (\<open>exchange/shard_queue.cpp\<close>), and a parser worker takes it from there, parses it with the adapter of the
  exchange and calls the dispatcher (\<open>exchange/data_dispatcher.cpp\<close>). The gateway keeps order books
  (\<open>rithmic_gateway/rithmic_orderbook.h\<close>), writes events into three queues in shared memory
  (\<open>exchange/rithmic/rithmic_queue.h\<close>), and a receiver thread of the collector hands them to a dispatcher of
  the same kind. The dispatcher looks the channel up in the registry, gives the event to the storage
  router and to the publisher, and writes a telemetry sample.

  \<^bold>\<open>Shared theories.\<close>
  \<^item> \<open>Prelude\<close>: machine integers, character buffers, ring buffers with wrapping counters.
  \<^item> \<open>Ieee_Double\<close>: comparison of doubles on their 64-bit patterns (\<open>double\<close> is \<open>64 word\<close>).
  \<^item> \<open>Text_Format\<close>, \<open>Byte_Layout\<close>: decimal text, and the byte images of the records that are copied with
    \<open>memcpy\<close>, with their decoders and round trips.
  \<^item> \<open>Events\<close>: the event records, enumerations and symbol buffers (\<open>common/tick_data.h\<close>,
    \<open>orderbook/orderbook_event.h\<close>, \<open>exchange/exchange_adapter.h\<close>, \<open>common/string_utils.h\<close>).
  \<^item> \<open>Fifo_Queue\<close>: the locales \<open>fifo_queue\<close> and \<open>bounded_fifo\<close>, interpreted by all three queues.

  \<^bold>\<open>Queues.\<close>
  \<^item> \<open>Spsc_Queue\<close> (\<open>common/spsc_queue.h\<close>): \<open>try_push\<close> and \<open>try_pop\<close> refine a bounded FIFO queue, also when the
    counters wrap, and in every interleaving of the loads and stores of one producer and one consumer.
  \<^item> \<open>Shard_Queue\<close> (\<open>exchange/shard_queue.h\<close>, \<open>.cpp\<close>): messages with inline and heap buffers, moves, the ring. The
    FIFO theorem assumes that the counters do not wrap; the code's emptiness test needs that.
  \<^item> \<open>Mpsc_Queue\<close> (\<open>exchange/rithmic/rithmic_queue.h\<close>): the sequence numbers of the multi-producer queue, one
    step per atomic operation. Without drops the events arrive in order; a drop ends delivery.

  \<^bold>\<open>Configuration and registries.\<close>
  \<^item> \<open>Config\<close> (\<open>config/config_loader.cpp\<close>): all settings, defaults and the loader over an interface of the YAML library.
  \<^item> \<open>Secure_String\<close> (\<open>config/secure_string.h\<close>): credentials with the storage behind them, and what is wiped.
  \<^item> \<open>Channel_Registry\<close> (\<open>common/channel_id_hash.h\<close>, \<open>exchange/channel_mapping.cpp\<close>, \<open>storage/channel_registry.cpp\<close>,
    \<open>exchange/rithmic/rithmic_types.h\<close>): the identifier hash and the three registries, which are instances of the
    locales \<open>id_registry\<close> and \<open>stable_registry\<close>.

  \<^bold>\<open>Storage.\<close>
  \<^item> \<open>Timestamps\<close> (\<open>storage/timestamp_util.h\<close>): calendar arithmetic, the cached validity check.
  \<^item> \<open>Mmap_Engine\<close>, \<open>Csv_Writer\<close> (\<open>storage/engine\<close>): the binary log with file rolls and the daily text files.
  \<^item> \<open>Storage_Backend\<close> (\<open>storage/backend\<close>): both file backends as instances of the locale \<open>storage_backend\<close>, and the
    round trip of the binary log.
  \<^item> \<open>Dolphindb_Schema\<close>, \<open>Dolphindb_Client\<close>, \<open>Dolphindb_Backend\<close> (\<open>storage/client\<close>, \<open>storage/backend\<close>): the database
    scripts, the connection with its three writers, and the backend that buffers, falls back to a local log, and reconnects.
  \<^item> \<open>Storage_Router\<close> (\<open>storage/storage_router.cpp\<close>, \<open>storage/storage_backend_factory.cpp\<close>): choice of the backend.

  \<^bold>\<open>Publishing, telemetry, dispatch.\<close>
  \<^item> \<open>Pub_Worker\<close> (\<open>pubsub\<close>): shards of queues, serialisation, the buffer pool whose slots the socket library still
    reads, dispatch and drain. What is on the wire was published and has the topic of its channel.
  \<^item> \<open>Telemetry\<close> (\<open>common/telemetry_slot.h\<close>, \<open>telemetry\<close>): the sequence lock, one step per access, and the agent.
  \<^item> \<open>Data_Dispatcher\<close> (\<open>exchange/data_dispatcher.cpp\<close>): each event reaches storage and publisher exactly once.

  \<^bold>\<open>Futures.\<close>
  \<^item> \<open>Order_Book\<close> (\<open>rithmic_gateway/rithmic_orderbook.h\<close>): the arrays and their shifting loops, shown to implement a finite map and
    to stay sorted and bounded.
  \<^item> \<open>Rithmic_Shm\<close> (\<open>exchange/rithmic/rithmic_shm.h\<close>, \<open>rithmic_receiver.cpp\<close>): layout and life of the region, the receiver.
  \<^item> \<open>Rithmic_Process\<close> (\<open>exchange/rithmic/rithmic_process_manager.cpp\<close>, \<open>exchange/exchange_factory.cpp\<close>): registration of the
    futures channels and the life of the child process, as a step relation that interleaves the monitor thread with shutdown.
  \<^item> \<open>Rithmic_Callbacks\<close> (\<open>rithmic_gateway/rithmic_callbacks.cpp\<close>): from the callbacks of the vendor library to queued events.
  \<^item> \<open>Rithmic_Gateway\<close> (\<open>rithmic_gateway/rithmic_engine.cpp\<close>, \<open>main.cpp\<close>): the login protocol and the main function.

  \<^bold>\<open>Crypto exchanges.\<close>
  \<^item> \<open>Crypto_Adapters\<close> (\<open>exchange/crypto/binance\<close>, \<open>gateio\<close>, \<open>json_parse_helpers.h\<close>, \<open>shard_parser_worker.cpp\<close>): subscriptions and
    parsing of four adapters, all instances of the locale \<open>exchange_adapter\<close>, and the parser worker.
  \<^item> \<open>Ws_Client\<close> (\<open>network/ws_client.cpp\<close>): the completion handlers of a client as a state machine.
  \<^item> \<open>Crypto_Channel\<close> (\<open>exchange/crypto/symbol_channel.cpp\<close>): the channel on its event loop, for every order of completions.
  \<^item> \<open>Signal_Handler\<close> (\<open>common/signal_handler.cpp\<close>): the shutdown flag.
  \<^item> \<open>Collector\<close> (\<open>exchange/crypto/crypto_factory.cpp\<close>, \<open>main.cpp\<close>): construction of the whole, and the theorems that follow
    an event from the network to storage.

  \<^bold>\<open>Conventions.\<close> A structure or class is a record, a member function a definition that returns the changed
  state, an exception or error return a value of a sum or option type. Words keep their width; counts that the code bounds
  by 100 are \<open>nat\<close>. What the operating system, a clock, an allocation or a third-party library answers is an
  argument. Code under one mutex is one step. Where threads meet without a mutex, there is an inductive
  step relation with one step per atomic access, in a sequentially consistent order.

  \<^bold>\<open>Termination, fuel and bounds.\<close> A loop that may not end is a partial function into an option or takes the list of what it
  observes (the queue at each attempt, the result of each system call); \<open>None\<close> means that it has not
  returned yet. Where the code should return, that is proved: \<open>NextPowerOf2\<close> up to \<open>2 ^ 63\<close>, the final drain of the
  publisher, the receiver, the waits of the process manager. The search of the buffer pool tries each of its slots once, which is
  its own bound. Theorems on rings that compare counters state for how many operations the counters do not wrap.

  \<^bold>\<open>Not modelled.\<close> Logging, pinning of threads and spin hints have no effect on results. Starting and joining of threads, the order of
  the shutdown calls in \<open>main\<close> and the HTTP server of the metrics are left out. Weak memory orders
  are not modelled. The JSON, YAML, socket, database and vendor libraries are parameters,
  and so is the rounding of \<open>std::from_chars\<close> from a decimal text to a double. What a completion
  handler does on a destroyed WebSocket client is undefined; the model counts such operations.
\<close>

end
